(* ===== verification/Basket_Prelude.thy ===== *)
theory Basket_Prelude
  imports Main "HOL-Library.Word" "HOL-Library.Multiset" "HOL-Library.Signed_Division"
begin

section \<open>Prelude: machine types, errors, text conversions, generic lemmas\<close>

text \<open>
  What every other theory shares: the C++ integer types the library uses and the
  conversions between them, the ways an operation of the library can fail, the two
  standard-library text conversions the configuration and the addresses go through
  (\<open>atoi\<close> and \<open>std::to_string\<close>), and generic lemmas on lists, maps and multisets.
\<close>

subsection \<open>C++ integer types\<close>

text \<open>
  Unsigned types are words of their width. A C++ \<open>int\<close> is an \<open>int\<close>; a conversion to it is
  written out with \<open>to_cint\<close>. A conversion of an \<open>int\<close> to an unsigned type of \<open>n\<close> bits is
  \<open>word_of_int\<close>, the value modulo \<open>2 ^ n\<close>, as the language defines it.
\<close>

type_synonym u16 = "16 word"
type_synonym u32 = "32 word"
type_synonym u64 = "64 word"

definition to_cint :: "int \<Rightarrow> int" where
  "to_cint n = signed_take_bit 31 n"

lemma to_cint_id: "- (2 ^ 31) \<le> n \<Longrightarrow> n < 2 ^ 31 \<Longrightarrow> to_cint n = n"
  by (simp add: to_cint_def signed_take_bit_int_eq_self)

lemma to_cint_of_nat [simp]: "n < 2147483648 \<Longrightarrow> to_cint (int n) = int n"
  by (simp add: to_cint_id)

lemma unat_u16_less [simp]: "unat (x :: u16) < 65536"
  using unsigned_less [where ?'a = nat, of x] by simp

lemma uint_u16_less [simp]: "uint (x :: u16) < 65536"
  using unsigned_less [where ?'a = int, of x] by simp

subsection \<open>Failures\<close>

text \<open>
  How an operation can fail, one constructor per failure the sources can reach:
  \<open>std::vector::at\<close> out of range, a remote function that is not bound, a response that
  \<open>as<ret>()\<close> cannot convert, a remainder by zero, a \<open>switch\<close> on the RPC implementation
  that has no case compiled in (control flows off the end of a function that returns a
  value), an unchecked \<open>operator[]\<close> past the end of a vector, and the server list that
  cannot be opened (\<open>exit(EXIT_FAILURE)\<close>). \<open>Unreachable\<close> is what the network answers when
  no server listens at an address, \<open>NoSegment\<close> the exception of a mapped file that is opened
  (\<open>open_only\<close>) and does not exist, \<open>IntOverflow\<close> the undefined
  behaviour of a counter of type \<open>int\<close> that is incremented past its range. A write past a fixed buffer is
  \<open>BufferOverflow\<close>, a container too long for MessagePack \<open>ContainerSizeOverflow\<close>, a call
  through a pointer to an object whose life time has ended \<open>DanglingPointer\<close>, and the value of a
  function that ends without \<open>return\<close> is \<open>NoReturnValue\<close>.
\<close>

datatype basket_error =
    OutOfRange
  | UnboundFunction string
  | BadCast
  | DivideByZero
  | NoImplementation
  | InvalidRead
  | CannotOpenServerList
  | Unreachable
  | NoSegment
  | IntOverflow
  | BufferOverflow
  | ContainerSizeOverflow
  | DanglingPointer
  | NoReturnValue
  | SegmentExists
  | NullPointer
  | BadAlloc
  | HandlerThrew

type_synonym 'a result = "basket_error + 'a"

definition bind_result :: "'a result \<Rightarrow> ('a \<Rightarrow> 'b result) \<Rightarrow> 'b result" where
  "bind_result r f = (case r of Inl e \<Rightarrow> Inl e | Inr x \<Rightarrow> f x)"

lemma bind_result_simps [simp]:
  "bind_result (Inl e) f = Inl e"
  "bind_result (Inr x) f = f x"
  by (simp_all add: bind_result_def)

lemma bind_result_Inr_iff:
  "bind_result r f = Inr y \<longleftrightarrow> (\<exists>x. r = Inr x \<and> f x = Inr y)"
  by (cases r) simp_all

definition vec_at :: "'a list \<Rightarrow> nat \<Rightarrow> 'a option" where
  "vec_at xs i = (if i < length xs then Some (xs ! i) else None)"

lemma vec_at_simps [simp]:
  "i < length xs \<Longrightarrow> vec_at xs i = Some (xs ! i)"
  "length xs \<le> i \<Longrightarrow> vec_at xs i = None"
  by (simp_all add: vec_at_def)

definition of_option :: "basket_error \<Rightarrow> 'a option \<Rightarrow> 'a result" where
  "of_option e x = (case x of None \<Rightarrow> Inl e | Some v \<Rightarrow> Inr v)"

lemma of_option_simps [simp]:
  "of_option e None = Inl e"
  "of_option e (Some v) = Inr v"
  by (simp_all add: of_option_def)

subsection \<open>\<open>std::to_string\<close> and \<open>atoi\<close>\<close>

fun nat_digits :: "nat \<Rightarrow> string" where
  "nat_digits n =
     (if n < 10 then [char_of (n + 48)] else nat_digits (n div 10) @ [char_of (n mod 10 + 48)])"

declare nat_digits.simps [simp del]

definition to_string :: "int \<Rightarrow> string" where
  "to_string i = (if i < 0 then CHR ''-'' # nat_digits (nat (- i)) else nat_digits (nat i))"

definition is_digit :: "char \<Rightarrow> bool" where
  "is_digit c \<longleftrightarrow> 48 \<le> (of_char c :: nat) \<and> (of_char c :: nat) \<le> 57"

text \<open>The characters \<open>isspace\<close> accepts: blank and the codes 9 to 13.\<close>

definition is_space :: "char \<Rightarrow> bool" where
  "is_space c \<longleftrightarrow> (of_char c :: nat) = 32 \<or> 9 \<le> (of_char c :: nat) \<and> (of_char c :: nat) \<le> 13"

definition digit_value :: "char \<Rightarrow> int" where
  "digit_value c = int (of_char c) - 48"

definition digits_value :: "string \<Rightarrow> int" where
  "digits_value s = foldl (\<lambda>n c. 10 * n + digit_value c) 0 (takeWhile is_digit s)"

text \<open>
  \<open>atoi\<close> skips white space, reads an optional sign and then the longest run of digits;
  without digits it is 0. Where the number does not fit an \<open>int\<close> the language leaves the
  result open, and this definition is the mathematical value.
\<close>

definition atoi :: "string \<Rightarrow> int" where
  "atoi s =
     (case dropWhile is_space s of
        [] \<Rightarrow> 0
      | c # cs \<Rightarrow>
          if c = CHR ''-'' then - digits_value cs
          else if c = CHR ''+'' then digits_value cs
          else digits_value (c # cs))"

lemma of_char_digit [simp]: "d < 10 \<Longrightarrow> (of_char (char_of (d + 48 :: nat)) :: nat) = d + 48"
  by (simp add: of_char_of)

lemma nat_digits_are_digits: "\<forall>c \<in> set (nat_digits n). is_digit c"
proof (induction n rule: nat_digits.induct)
  case (1 n)
  show ?case
  proof (cases "n < 10")
    case True
    then show ?thesis by (subst nat_digits.simps) (simp add: is_digit_def)
  next
    case False
    with 1 show ?thesis by (subst nat_digits.simps) (auto simp: is_digit_def)
  qed
qed

lemma nat_digits_not_Nil [simp]: "nat_digits n \<noteq> []"
  by (subst nat_digits.simps) simp

lemma takeWhile_nat_digits [simp]: "takeWhile is_digit (nat_digits n) = nat_digits n"
  by (simp add: takeWhile_eq_all_conv nat_digits_are_digits)

lemma foldl_nat_digits: "foldl (\<lambda>n c. 10 * n + digit_value c) 0 (nat_digits n) = int n"
proof (induction n rule: nat_digits.induct)
  case (1 n)
  show ?case
  proof (cases "n < 10")
    case True
    then show ?thesis by (subst nat_digits.simps) (simp add: digit_value_def)
  next
    case False
    then show ?thesis
      using 1 by (subst nat_digits.simps) (simp add: digit_value_def zdiv_int zmod_int)
  qed
qed

lemma digits_value_nat_digits [simp]: "digits_value (nat_digits n) = int n"
  by (simp add: digits_value_def foldl_nat_digits)

lemma is_digit_not_special:
  assumes "is_digit c"
  shows "\<not> is_space c" and "c \<noteq> CHR ''-''" and "c \<noteq> CHR ''+''" and "c \<noteq> CHR '':''"
    and "c \<noteq> CHR 0x0A"
  using assms by (auto simp: is_digit_def is_space_def)

lemma atoi_nat_digits [simp]: "atoi (nat_digits n) = int n"
proof -
  obtain c cs where eq: "nat_digits n = c # cs"
    by (cases "nat_digits n") simp_all
  then have d: "is_digit c"
    using nat_digits_are_digits [of n] by simp
  have "digits_value (c # cs) = int n"
    using digits_value_nat_digits [of n] by (simp add: eq)
  then show ?thesis
    using is_digit_not_special [OF d] by (simp add: atoi_def eq)
qed

lemma atoi_to_string: "atoi (to_string i) = i"
proof (cases "i < 0")
  case True
  then have "\<not> is_space CHR ''-''" by (simp add: is_space_def)
  with True show ?thesis by (simp add: to_string_def atoi_def)
next
  case False
  then show ?thesis by (simp add: to_string_def)
qed

lemma to_string_inject [simp]: "to_string i = to_string j \<longleftrightarrow> i = j"
  by (metis atoi_to_string)

lemma digit_only_not_special:
  assumes "\<forall>c \<in> set s. is_digit c"
  shows "CHR '':'' \<notin> set s" and "CHR 0x0A \<notin> set s"
  using assms is_digit_not_special(4,5) by metis+

lemma to_string_not_special:
  "CHR '':'' \<notin> set (to_string i)" "CHR 0x0A \<notin> set (to_string i)"
  using digit_only_not_special [OF nat_digits_are_digits]
  by (simp_all add: to_string_def)

subsection \<open>Generic lemmas\<close>

definition strict_order :: "('a \<Rightarrow> 'a \<Rightarrow> bool) \<Rightarrow> bool" where
  "strict_order lt \<longleftrightarrow>
     (\<forall>x. \<not> lt x x) \<and> (\<forall>x y z. lt x y \<longrightarrow> lt y z \<longrightarrow> lt x z) \<and> (\<forall>x y. lt x y \<or> x = y \<or> lt y x)"

lemma strict_orderD:
  assumes "strict_order lt"
  shows "\<not> lt x x" and "lt x y \<Longrightarrow> lt y z \<Longrightarrow> lt x z" and "lt x y \<or> x = y \<or> lt y x"
    and "lt x y \<Longrightarrow> \<not> lt y x"
  using assms unfolding strict_order_def by blast+

lemma strict_order_less: "strict_order ((<) :: 'a::linorder \<Rightarrow> 'a \<Rightarrow> bool)"
  by (auto simp: strict_order_def)

lemma strict_sorted_distinct: "strict_order lt \<Longrightarrow> sorted_wrt lt xs \<Longrightarrow> distinct xs"
  by (induction xs) (auto dest: strict_orderD(1))

lemma map_of_filter_neq: "map_of (filter (\<lambda>e. fst e \<noteq> k) xs) = (map_of xs)(k := None)"
  by (induction xs) (auto simp: fun_eq_iff)

lemma filter_key_split:
  assumes "distinct (map fst (bs @ e # as))"
  shows "filter (\<lambda>x. fst x \<noteq> fst e) (bs @ e # as) = bs @ as"
proof -
  have "fst e \<notin> fst ` set bs" "fst e \<notin> fst ` set as"
    using assms by auto
  then have "filter (\<lambda>x. fst x \<noteq> fst e) bs = bs" "filter (\<lambda>x. fst x \<noteq> fst e) as = as"
    unfolding filter_id_conv by (metis imageI)+
  then show ?thesis by simp
qed

lemma distinct_set_singleton:
  assumes "distinct xs" "set xs = {a}"
  shows "xs = [a]"
proof (cases xs)
  case Nil
  then show ?thesis using assms(2) by simp
next
  case (Cons x ys)
  then have "x = a" "set ys \<subseteq> {a}" "a \<notin> set ys"
    using assms by auto
  then show ?thesis
    using Cons by (cases ys) auto
qed

lemma add_entry:
  assumes "mset ys = add_mset (k, v) (mset xs)" "distinct (map fst xs)" "k \<notin> fst ` set xs"
  shows "distinct (map fst ys)" and "map_of ys = (map_of xs)(k \<mapsto> v)"
proof -
  have m: "mset ys = mset ((k, v) # xs)"
    using assms(1) by simp
  have "distinct (map fst ((k, v) # xs))"
    using assms(2,3) by simp
  then show d: "distinct (map fst ys)"
    using m by (metis mset_eq_imp_distinct_iff mset_map)
  have "set ys = set ((k, v) # xs)"
    using m by (rule mset_eq_setD)
  then have "map_of ys = map_of ((k, v) # xs)"
    using d \<open>distinct (map fst ((k, v) # xs))\<close> by (metis map_of_inject_set)
  then show "map_of ys = (map_of xs)(k \<mapsto> v)"
    by simp
qed

lemma map_of_filter:
  "distinct (map fst xs) \<Longrightarrow>
     map_of (filter (\<lambda>e. P (fst e)) xs) = (\<lambda>k. if P k then map_of xs k else None)"
  by (induction xs) (auto simp: fun_eq_iff map_of_eq_None_iff)

lemma dom_map_of_fst: "k \<in> fst ` set xs \<longleftrightarrow> map_of xs k \<noteq> None"
  by (auto simp: map_of_eq_None_iff)

lemma map_of_split:
  "k \<notin> fst ` set xs \<Longrightarrow> map_of (xs @ (k, v) # ys) k = Some v"
  by (induction xs) auto

lemma distinct_fst_unique:
  "distinct (map fst xs) \<Longrightarrow> (k, v) \<in> set xs \<Longrightarrow> (k, w) \<in> set xs \<Longrightarrow> v = w"
  by (metis map_of_eq_Some_iff option.inject)

lemma filter_neq_id: "x \<notin> set xs \<Longrightarrow> filter (\<lambda>y. y \<noteq> x) xs = xs"
  by (auto simp: filter_id_conv)

lemma concat_map_insert:
  "x \<in> set xs \<Longrightarrow> distinct xs \<Longrightarrow>
     mset (f x @ concat (map f (filter (\<lambda>y. y \<noteq> x) xs))) = mset (concat (map f xs))"
  by (induction xs) (auto simp: filter_neq_id)

end
