(* ===== verification/Char_Struct.thy ===== *)
theory Char_Struct
  imports Basket_Prelude "HOL-Library.List_Lexorder" "HOL-Library.Char_ord"
begin

section \<open>CharStruct\<close>

text \<open>
  \<open>CharStruct\<close> of \<open>include/basket/common/data_structures.h\<close>: text in a fixed buffer of 256
  bytes that can lie in shared memory. The sources copy into it with \<open>snprintf\<close> and
  \<open>strcpy\<close> and never compare a length with the buffer's. A write past the buffer is the
  error \<open>BufferOverflow\<close>, a read past memory without a terminating zero is \<open>InvalidRead\<close>.
  What an object holds before its constructor runs is the argument \<open>junk\<close>, any 256 bytes.
\<close>

subsection \<open>C strings\<close>

abbreviation NUL :: char where
  "NUL \<equiv> CHR 0x00"

text \<open>The bytes before the first zero; \<open>None\<close> where the memory given holds none.\<close>

fun c_string :: "char list \<Rightarrow> string option" where
  "c_string [] = None"
| "c_string (c # cs) = (if c = NUL then Some [] else map_option ((#) c) (c_string cs))"

text \<open>\<open>snprintf(buf, n, "%s", s)\<close>: at most \<open>n - 1\<close> bytes of \<open>s\<close> and a zero; nothing for \<open>n = 0\<close>.\<close>

definition snprintf_s :: "char list \<Rightarrow> nat \<Rightarrow> string \<Rightarrow> char list result" where
  "snprintf_s buf n s =
     (if n = 0 then Inr buf
      else let out = take (n - 1) s @ [NUL]
           in if length out \<le> length buf then Inr (out @ drop (length out) buf)
              else Inl BufferOverflow)"

text \<open>
  \<open>strcmp\<close> compares bytes as unsigned numbers. The standard fixes only the sign of its
  result, and the sources use only the sign.
\<close>

fun strcmp :: "string \<Rightarrow> string \<Rightarrow> int" where
  "strcmp [] [] = 0"
| "strcmp [] (d # ds) = - 1"
| "strcmp (c # cs) [] = 1"
| "strcmp (c # cs) (d # ds) = (if c = d then strcmp cs ds else of_char c - of_char d)"

subsection \<open>The structure and its members\<close>

record CharStruct =
  cs_value :: "char list"

definition Set_data :: "char list \<Rightarrow> u64 \<Rightarrow> CharStruct \<Rightarrow> CharStruct result" where
  "Set_data data len this =
     bind_result (of_option InvalidRead (c_string data)) (\<lambda>s.
     bind_result (snprintf_s (cs_value this) (unat (len + 1)) s) (\<lambda>v.
     Inr (this\<lparr>cs_value := v\<rparr>)))"

text \<open>A \<open>std::string\<close> may hold zeros; \<open>c_str()\<close> ends at the first, or at the one after its end.\<close>

definition Set_string :: "string \<Rightarrow> CharStruct \<Rightarrow> CharStruct result" where
  "Set_string data this =
     bind_result (of_option InvalidRead (c_string (data @ [NUL]))) (\<lambda>s.
     bind_result (snprintf_s (cs_value this) (length data + 1) s) (\<lambda>v.
     Inr (this\<lparr>cs_value := v\<rparr>)))"

text \<open>The default constructor leaves \<open>value\<close> as the memory is: \<open>junk\<close>.\<close>

definition CharStruct_default :: "char list \<Rightarrow> CharStruct" where
  "CharStruct_default junk = \<lparr>cs_value = junk\<rparr>"

definition CharStruct_cstr :: "char list \<Rightarrow> char list \<Rightarrow> CharStruct result" where
  "CharStruct_cstr junk data =
     bind_result (of_option InvalidRead (c_string data)) (\<lambda>s.
     bind_result (snprintf_s junk (length s + 1) s) (\<lambda>v.
     Inr \<lparr>cs_value = v\<rparr>))"

definition CharStruct_string :: "char list \<Rightarrow> string \<Rightarrow> CharStruct result" where
  "CharStruct_string junk data = CharStruct_cstr junk (data @ [NUL])"

definition CharStruct_data :: "char list \<Rightarrow> char list \<Rightarrow> u64 \<Rightarrow> CharStruct result" where
  "CharStruct_data junk data len =
     bind_result (of_option InvalidRead (c_string data)) (\<lambda>s.
     bind_result (snprintf_s junk (unat len) s) (\<lambda>v.
     Inr \<lparr>cs_value = v\<rparr>))"

text \<open>The copy and the move constructor do the same.\<close>

definition CharStruct_copy :: "char list \<Rightarrow> CharStruct \<Rightarrow> CharStruct result" where
  "CharStruct_copy junk other = CharStruct_cstr junk (cs_value other)"

definition cs_string :: "CharStruct \<Rightarrow> string result" where
  "cs_string this = of_option InvalidRead (c_string (cs_value this))"

definition cs_size :: "CharStruct \<Rightarrow> u64 result" where
  "cs_size this = bind_result (cs_string this) (\<lambda>s. Inr (word_of_nat (length s)))"

text \<open>\<open>operator=\<close> is a \<open>strcpy\<close>, for two different objects.\<close>

definition cs_assign :: "CharStruct \<Rightarrow> CharStruct \<Rightarrow> CharStruct result" where
  "cs_assign this other =
     bind_result (cs_string other) (\<lambda>s.
       if length s < length (cs_value this)
       then Inr (this\<lparr>cs_value := s @ NUL # drop (length s + 1) (cs_value this)\<rparr>)
       else Inl BufferOverflow)"

definition cs_compare :: "(int \<Rightarrow> bool) \<Rightarrow> CharStruct \<Rightarrow> CharStruct \<Rightarrow> bool result" where
  "cs_compare test this other =
     bind_result (cs_string this) (\<lambda>s.
     bind_result (cs_string other) (\<lambda>t.
     Inr (test (strcmp s t))))"

definition cs_eq :: "CharStruct \<Rightarrow> CharStruct \<Rightarrow> bool result" where
  "cs_eq = cs_compare (\<lambda>i. i = 0)"

definition cs_gt :: "CharStruct \<Rightarrow> CharStruct \<Rightarrow> bool result" where
  "cs_gt = cs_compare (\<lambda>i. i > 0)"

definition cs_ge :: "CharStruct \<Rightarrow> CharStruct \<Rightarrow> bool result" where
  "cs_ge = cs_compare (\<lambda>i. i \<ge> 0)"

definition cs_lt :: "CharStruct \<Rightarrow> CharStruct \<Rightarrow> bool result" where
  "cs_lt = cs_compare (\<lambda>i. i < 0)"

definition cs_le :: "CharStruct \<Rightarrow> CharStruct \<Rightarrow> bool result" where
  "cs_le = cs_compare (\<lambda>i. i \<le> 0)"

definition cs_plus :: "char list \<Rightarrow> CharStruct \<Rightarrow> CharStruct \<Rightarrow> CharStruct result" where
  "cs_plus junk this other =
     bind_result (cs_string this) (\<lambda>s.
     bind_result (cs_string other) (\<lambda>t.
     CharStruct_string junk (s @ t)))"

definition cs_plus_string :: "char list \<Rightarrow> CharStruct \<Rightarrow> string \<Rightarrow> CharStruct result" where
  "cs_plus_string junk this other =
     bind_result (cs_string this) (\<lambda>s. CharStruct_string junk (s @ other))"

definition cs_append :: "CharStruct \<Rightarrow> CharStruct \<Rightarrow> CharStruct result" where
  "cs_append this rhs =
     bind_result (cs_string this) (\<lambda>s.
     bind_result (cs_string rhs) (\<lambda>t.
     Set_string (s @ t) this))"

text \<open>\<open>std::hash<CharStruct>\<close>, over the hash of \<open>std::string\<close>.\<close>

definition cs_hash :: "(string \<Rightarrow> u64) \<Rightarrow> CharStruct \<Rightarrow> u64 result" where
  "cs_hash hash_string k = bind_result (cs_string k) (\<lambda>s. Inr (hash_string s))"

subsection \<open>Packing\<close>

text \<open>
  The calls on a MessagePack packer, and the objects an unpacker makes. \<open>convert\<close> reads the
  string fields of the object's union whatever its type is.
\<close>

datatype pack_call = PackStr u32 | PackStrBody "char list"

datatype mp_object = StrObject "char list" | OtherObject

definition cs_pack :: "pack_call list \<Rightarrow> CharStruct \<Rightarrow> pack_call list result" where
  "cs_pack out input =
     bind_result (cs_size input) (\<lambda>n.
     if unat n < 2 ^ 32
     then Inr (out @ [PackStr (ucast n), PackStrBody (take (unat n) (cs_value input))])
     else Inl ContainerSizeOverflow)"

definition cs_convert :: "char list \<Rightarrow> mp_object \<Rightarrow> CharStruct \<Rightarrow> CharStruct result" where
  "cs_convert junk obj input =
     (case obj of
        StrObject v \<Rightarrow> bind_result (CharStruct_string junk v) (cs_assign input)
      | OtherObject \<Rightarrow> Inl InvalidRead)"

definition cs_object_with_zone :: "CharStruct \<Rightarrow> mp_object result" where
  "cs_object_with_zone input =
     bind_result (cs_size input) (\<lambda>n.
     if unat n < 2 ^ 32 then Inr (StrObject (take (unat n) (cs_value input)))
     else Inl ContainerSizeOverflow)"

subsection \<open>Printing\<close>

definition out_CharStruct :: "string \<Rightarrow> CharStruct \<Rightarrow> string result" where
  "out_CharStruct os m =
     bind_result (cs_string m) (\<lambda>s. Inr (os @ ''{TYPE:CharStruct,'' @ ''value:'' @ s @ ''}''))"

definition out_uint8 :: "string \<Rightarrow> 8 word \<Rightarrow> string" where
  "out_uint8 os m = os @ to_string (uint m)"

definition out_pair ::
  "(string \<Rightarrow> 'a \<Rightarrow> string result) \<Rightarrow> (string \<Rightarrow> 'b \<Rightarrow> string result) \<Rightarrow> string \<Rightarrow> 'a \<times> 'b \<Rightarrow>
     string result" where
  "out_pair out_a out_b os m =
     bind_result (out_a (os @ ''{TYPE:pair,'' @ ''first:'') (fst m)) (\<lambda>os.
     bind_result (out_b (os @ '','' @ ''second:'') (snd m)) (\<lambda>os.
     Inr (os @ ''}'')))"

fun out_elements :: "(string \<Rightarrow> 'a \<Rightarrow> string result) \<Rightarrow> string \<Rightarrow> 'a list \<Rightarrow> string result" where
  "out_elements out_a os [] = Inr os"
| "out_elements out_a os (m # ms) =
     bind_result (out_a os m) (\<lambda>os. out_elements out_a (os @ '','') ms)"

definition out_vector :: "(string \<Rightarrow> 'a \<Rightarrow> string result) \<Rightarrow> string \<Rightarrow> 'a list \<Rightarrow> string result" where
  "out_vector out_a os ms =
     bind_result (out_elements out_a (os @ ''['') ms) (\<lambda>os. Inr (os @ '']''))"

subsection \<open>Well-formed buffers and the text they hold\<close>

definition cs_wf :: "CharStruct \<Rightarrow> bool" where
  "cs_wf c \<longleftrightarrow> length (cs_value c) = 256 \<and> NUL \<in> set (cs_value c)"

definition cs_text :: "CharStruct \<Rightarrow> string" where
  "cs_text c = takeWhile (\<lambda>x. x \<noteq> NUL) (cs_value c)"

lemma takeWhile_NUL [simp]: "NUL \<notin> set s \<Longrightarrow> takeWhile (\<lambda>x. x \<noteq> NUL) s = s"
  by (auto simp: takeWhile_eq_all_conv)

lemma c_string_takeWhile:
  "c_string xs = (if NUL \<in> set xs then Some (takeWhile (\<lambda>x. x \<noteq> NUL) xs) else None)"
  by (induction xs) auto

lemma c_string_terminated [simp]:
  "NUL \<notin> set s \<Longrightarrow> c_string (s @ NUL # rest) = Some s"
  by (simp add: c_string_takeWhile takeWhile_tail)

lemma c_string_append_NUL: "c_string (s @ [NUL]) = Some (takeWhile (\<lambda>x. x \<noteq> NUL) s)"
  by (induction s) auto

lemma NUL_takeWhile [simp]: "NUL \<notin> set (takeWhile (\<lambda>x. x \<noteq> NUL) s)"
  using set_takeWhileD by fastforce

lemma NUL_cs_text [simp]: "NUL \<notin> set (cs_text c)"
  by (simp add: cs_text_def)

lemma cs_string_wf [simp]: "cs_wf c \<Longrightarrow> cs_string c = Inr (cs_text c)"
  by (simp add: cs_string_def cs_wf_def cs_text_def c_string_takeWhile)

lemma length_takeWhile_NUL: "NUL \<in> set xs \<Longrightarrow> length (takeWhile (\<lambda>x. x \<noteq> NUL) xs) < length xs"
  by (induction xs) auto

lemma length_cs_text [simp]: "cs_wf c \<Longrightarrow> length (cs_text c) < 256"
  using length_takeWhile_NUL [of "cs_value c"] by (simp add: cs_wf_def cs_text_def)

lemma snprintf_s_fits:
  "length buf = 256 \<Longrightarrow>
     snprintf_s buf (Suc n) s =
       (if min n (length s) < 256
        then Inr (take n s @ NUL # drop (Suc (min n (length s))) buf) else Inl BufferOverflow)"
  by (simp add: snprintf_s_def min.commute)

lemma wf_terminated: "length s + length rest = 255 \<Longrightarrow> cs_wf \<lparr>cs_value = s @ NUL # rest\<rparr>"
  by (simp add: cs_wf_def)

lemma cs_value_update [simp]: "(c :: CharStruct)\<lparr>cs_value := v\<rparr> = \<lparr>cs_value = v\<rparr>"
  by (cases c) simp

lemma takeWhile_NUL_append [simp]:
  "NUL \<notin> set s \<Longrightarrow> takeWhile (\<lambda>x. x \<noteq> NUL) (s @ t) = s @ takeWhile (\<lambda>x. x \<noteq> NUL) t"
  by (rule takeWhile_append2) auto

lemma wf_text_terminated:
  "NUL \<notin> set s \<Longrightarrow> cs_text \<lparr>cs_value = s @ NUL # rest\<rparr> = s"
  by (simp add: cs_text_def takeWhile_tail)

text \<open>
  What a member promises whose result is to hold the text \<open>s\<close>: it holds it, if it fits with
  its zero; otherwise the buffer overflows.
\<close>

definition yields :: "CharStruct result \<Rightarrow> string \<Rightarrow> bool" where
  "yields r s \<longleftrightarrow>
     (if length s < 256 then \<exists>c. r = Inr c \<and> cs_wf c \<and> cs_text c = s else r = Inl BufferOverflow)"

lemma yields_wf: "yields r s \<Longrightarrow> r = Inr c \<Longrightarrow> cs_wf c"
  by (auto simp: yields_def split: if_splits)

lemma yields_snprintf:
  assumes "length buf = 256" "NUL \<notin> set s"
  shows "yields (bind_result (snprintf_s buf (Suc n) s) (\<lambda>v. Inr \<lparr>cs_value = v\<rparr>)) (take n s)"
  using assms wf_text_terminated [of "take n s"] set_take_subset [of n s]
  by (auto simp: yields_def snprintf_s_fits cs_wf_def)

lemma yields_cstr:
  "length junk = 256 \<Longrightarrow> c_string data = Some s \<Longrightarrow> NUL \<notin> set s \<Longrightarrow>
     yields (CharStruct_cstr junk data) s"
  using yields_snprintf [of junk s "length s"] by (simp add: CharStruct_cstr_def)

lemma yields_string:
  "length junk = 256 \<Longrightarrow> yields (CharStruct_string junk s) (takeWhile (\<lambda>x. x \<noteq> NUL) s)"
  by (simp add: CharStruct_string_def yields_cstr c_string_append_NUL)

lemma yields_Set_string:
  "cs_wf this \<Longrightarrow> yields (Set_string s this) (takeWhile (\<lambda>x. x \<noteq> NUL) s)"
  using yields_snprintf [of "cs_value this" "takeWhile (\<lambda>x. x \<noteq> NUL) s" "length s"]
  by (simp add: Set_string_def c_string_append_NUL cs_wf_def length_takeWhile_le)

lemma yields_copy: "length junk = 256 \<Longrightarrow> cs_wf c \<Longrightarrow> yields (CharStruct_copy junk c) (cs_text c)"
  by (simp add: CharStruct_copy_def yields_cstr cs_wf_def c_string_takeWhile flip: cs_text_def)

lemma length_wf: "cs_wf c \<Longrightarrow> length (cs_value c) = 256"
  by (simp add: cs_wf_def)

lemma yields_assign:
  assumes "cs_wf this" "cs_wf other"
  shows "yields (cs_assign this other) (cs_text other)"
proof -
  have "cs_wf \<lparr>cs_value = cs_text other @ NUL # drop (Suc (length (cs_text other))) (cs_value this)\<rparr>"
    using length_cs_text [OF assms(2)] length_wf [OF assms(1)] by (intro wf_terminated) simp
  then show ?thesis
    using assms by (simp add: cs_assign_def yields_def length_wf wf_text_terminated)
qed

lemma yields_plus:
  "length junk = 256 \<Longrightarrow> cs_wf a \<Longrightarrow> cs_wf b \<Longrightarrow> yields (cs_plus junk a b) (cs_text a @ cs_text b)"
  using yields_string [of junk "cs_text a @ cs_text b"] by (simp add: cs_plus_def)

lemma yields_plus_string:
  "length junk = 256 \<Longrightarrow> cs_wf a \<Longrightarrow>
     yields (cs_plus_string junk a s) (cs_text a @ takeWhile (\<lambda>x. x \<noteq> NUL) s)"
  using yields_string [of junk "cs_text a @ s"] by (simp add: cs_plus_string_def)

lemma yields_append: "cs_wf a \<Longrightarrow> cs_wf b \<Longrightarrow> yields (cs_append a b) (cs_text a @ cs_text b)"
  using yields_Set_string [of a "cs_text a @ cs_text b"] by (simp add: cs_append_def)

lemma yields_convert:
  assumes "length junk = 256" "cs_wf input"
  shows "yields (cs_convert junk (StrObject v) input) (takeWhile (\<lambda>x. x \<noteq> NUL) v)"
proof (cases "length (takeWhile (\<lambda>x. x \<noteq> NUL) v) < 256")
  case True
  then obtain c where c: "CharStruct_string junk v = Inr c" "cs_wf c"
    "cs_text c = takeWhile (\<lambda>x. x \<noteq> NUL) v"
    using yields_string [OF assms(1), of v] by (auto simp: yields_def)
  with yields_assign [OF assms(2) c(2)] show ?thesis by (simp add: cs_convert_def)
next
  case False
  then show ?thesis
    using yields_string [OF assms(1), of v] by (simp add: cs_convert_def yields_def)
qed

text \<open>The constructor from a pointer and a length keeps one byte less than the length.\<close>

lemma yields_data:
  assumes "length junk = 256" "c_string data = Some t" "0 < len"
  shows "yields (CharStruct_data junk data len) (take (unat len - 1) t)"
proof -
  have "NUL \<notin> set t" using assms(2) by (auto simp: c_string_takeWhile split: if_splits)
  moreover obtain m where "unat len = Suc m"
    using assms(3) by (metis gr0_implies_Suc unat_gt_0 word_gt_0)
  ultimately show ?thesis
    using yields_snprintf [OF assms(1), of t m] assms(2) by (simp add: CharStruct_data_def)
qed

lemma strcmp_sign:
  "strcmp s t = 0 \<longleftrightarrow> s = t"
  "strcmp s t < 0 \<longleftrightarrow> s < t"
proof -
  have i: "of_char x = int (of_char x)" for x :: char
    by (rule of_nat_of_char [symmetric])
  have c: "of_char c - of_char d = (0 :: int) \<longleftrightarrow> c = d"
    "of_char c - of_char d < (0 :: int) \<longleftrightarrow> c < d" for c d :: char
    unfolding less_char_def i by (metis diff_eq_eq add_0 of_nat_eq_iff of_char_eq_iff, linarith)
  show "strcmp s t = 0 \<longleftrightarrow> s = t" "strcmp s t < 0 \<longleftrightarrow> s < t"
    by (induction s t rule: strcmp.induct) (use c in auto)
qed

lemma cs_compare_wf:
  "cs_wf a \<Longrightarrow> cs_wf b \<Longrightarrow> cs_compare test a b = Inr (test (strcmp (cs_text a) (cs_text b)))"
  by (simp add: cs_compare_def)

subsection \<open>Packing over MessagePack\<close>

text \<open>
  MessagePack's promise: the bytes that the packer's calls for a string write are unpacked as
  that string object. Strings here have fewer than 256 bytes.
\<close>

locale msgpack_strings =
  fixes encode :: "pack_call list \<Rightarrow> char list"
    and decode :: "char list \<Rightarrow> mp_object option"
  assumes decode_encode:
    "unat n = length s \<Longrightarrow> length s < 256 \<Longrightarrow>
       decode (encode [PackStr n, PackStrBody s]) = Some (StrObject s)"

text \<open>The format: a tag byte that holds a length below 32, or the tag \<open>str 8\<close> and a length byte.\<close>

definition mp_encode :: "pack_call list \<Rightarrow> char list" where
  "mp_encode calls =
     concat (map (\<lambda>c. case c of
       PackStr n \<Rightarrow> (if n < 32 then [char_of (160 + unat n)] else [CHR 0xD9, char_of (unat n)])
     | PackStrBody s \<Rightarrow> s) calls)"

definition mp_decode :: "char list \<Rightarrow> mp_object option" where
  "mp_decode bytes =
     (case bytes of
        [] \<Rightarrow> None
      | tag # rest \<Rightarrow>
          if 160 \<le> (of_char tag :: nat) \<and> (of_char tag :: nat) < 192
          then (if of_char tag - 160 \<le> length rest
                then Some (StrObject (take (of_char tag - 160) rest)) else None)
          else if tag = CHR 0xD9
          then (case rest of
                  [] \<Rightarrow> None
                | n # s \<Rightarrow> if of_char n \<le> length s then Some (StrObject (take (of_char n) s)) else None)
          else Some OtherObject)"

interpretation mp_str: msgpack_strings mp_encode mp_decode
proof
  fix n :: u32 and s :: "char list"
  assume n: "unat n = length s" "length s < 256"
  have "n < 32 \<longleftrightarrow> length s < 32"
    using n(1) by (simp add: word_less_nat_alt)
  then show "mp_decode (mp_encode [PackStr n, PackStrBody s]) = Some (StrObject s)"
    using n by (auto simp: mp_encode_def mp_decode_def of_char_of)
qed

lemma cs_size_wf:
  assumes "cs_wf c"
  shows "cs_size c = Inr (word_of_nat (length (cs_text c)))"
    and "unat (word_of_nat (length (cs_text c)) :: u64) = length (cs_text c)"
proof -
  have "length (cs_text c) < 18446744073709551616"
    using length_cs_text [OF assms] by linarith
  then show "cs_size c = Inr (word_of_nat (length (cs_text c)))"
    "unat (word_of_nat (length (cs_text c)) :: u64) = length (cs_text c)"
    using assms by (simp_all add: cs_size_def unat_of_nat)
qed

lemma cs_value_take: "take (length (cs_text c)) (cs_value c) = cs_text c"
  unfolding cs_text_def by (simp add: takeWhile_eq_take [symmetric])

context msgpack_strings
begin

lemma pack_unpack:
  assumes "cs_wf c"
  shows "\<exists>calls. cs_pack [] c = Inr calls \<and> decode (encode calls) = Some (StrObject (cs_text c))"
proof -
  have len: "length (cs_text c) < 256" using assms by simp
  then have big: "length (cs_text c) < 4294967296" by linarith
  then have n: "unat (word_of_nat (length (cs_text c)) :: u32) = length (cs_text c)"
    by (simp add: unat_of_nat)
  have "(ucast (word_of_nat (length (cs_text c)) :: u64) :: u32) = word_of_nat (length (cs_text c))"
    using big
    by (simp only: word_unat_eq_iff unsigned_ucast_eq n cs_size_wf(2) [OF assms])
      (simp add: take_bit_nat_eq_self)
  then show ?thesis
    using big decode_encode [OF n len] by (simp add: cs_pack_def cs_size_wf [OF assms] cs_value_take)
qed

end

subsection \<open>Properties\<close>

lemma c_string_Some: "c_string data = Some s \<Longrightarrow> NUL \<notin> set s"
  by (auto simp: c_string_takeWhile split: if_splits)

lemma wf_snprintf:
  assumes "length buf = 256" "snprintf_s buf n s = Inr v" "0 < n \<or> NUL \<in> set buf"
  shows "cs_wf \<lparr>cs_value = v\<rparr>"
  using assms by (cases n) (auto simp: snprintf_s_def cs_wf_def Let_def split: if_splits)

lemma wf_data:
  "length junk = 256 \<Longrightarrow> 0 < len \<Longrightarrow> CharStruct_data junk data len = Inr c \<Longrightarrow> cs_wf c"
  by (auto simp: CharStruct_data_def bind_result_Inr_iff unat_gt_0 intro: wf_snprintf)

lemma wf_Set_data: "cs_wf a \<Longrightarrow> Set_data data len a = Inr c \<Longrightarrow> cs_wf c"
  by (auto simp: Set_data_def bind_result_Inr_iff cs_wf_def [of a] intro: wf_snprintf)

lemma wf_cstr: "length junk = 256 \<Longrightarrow> CharStruct_cstr junk data = Inr c \<Longrightarrow> cs_wf c"
  by (auto simp: CharStruct_cstr_def bind_result_Inr_iff intro: wf_snprintf)

lemma wf_convert:
  "length junk = 256 \<Longrightarrow> cs_wf a \<Longrightarrow> cs_convert junk obj a = Inr c \<Longrightarrow> cs_wf c"
  using yields_convert yields_wf by (cases obj) (blast, simp add: cs_convert_def)


definition sample_cs :: "string \<Rightarrow> CharStruct" where
  "sample_cs s = \<lparr>cs_value = s @ NUL # replicate (255 - length s) CHR ''x''\<rparr>"

definition sample_junk :: "char list" where
  "sample_junk = replicate 256 CHR ''x''"

lemma length_sample_junk [simp]: "length sample_junk = 256"
  by (simp add: sample_junk_def)

lemma sample_cs_wf [simp]: "length s \<le> 255 \<Longrightarrow> cs_wf (sample_cs s)"
  by (simp add: sample_cs_def wf_terminated)

lemma sample_cs_text [simp]: "NUL \<notin> set s \<Longrightarrow> cs_text (sample_cs s) = s"
  by (simp add: sample_cs_def wf_text_terminated)


text \<open>
  C22: on text without zeros a \<open>CharStruct\<close> behaves as a string of fewer than 256 bytes:
  construction, copying, assignment, \<open>+\<close>, \<open>+=\<close> and unpacking hold exactly the text that the same
  operation on strings gives, if that has fewer than 256 bytes. If it has more, every one of
  them writes past the buffer. The constructor from a pointer and a length drops the last of
  the bytes it was to take.
\<close>
theorem CharStruct_refines_string:
  assumes "length junk = 256" "cs_wf a" "cs_wf b" "NUL \<notin> set s"
  shows "yields (CharStruct_string junk s) s \<and>
         yields (CharStruct_copy junk a) (cs_text a) \<and>
         yields (cs_assign a b) (cs_text b) \<and>
         yields (cs_plus junk a b) (cs_text a @ cs_text b) \<and>
         yields (cs_plus_string junk a s) (cs_text a @ s) \<and>
         yields (cs_append a b) (cs_text a @ cs_text b) \<and>
         yields (cs_convert junk (StrObject s) a) s \<and>
         (0 < len \<longrightarrow> yields (CharStruct_data junk (s @ [NUL]) len) (take (unat len - 1) s)) \<and>
         cs_string a = Inr (cs_text a) \<and>
         cs_size a = Inr (word_of_nat (length (cs_text a)))"
  using yields_string [OF assms(1), of s] yields_copy [OF assms(1,2)] yields_assign [OF assms(2,3)]
    yields_plus [OF assms(1-3)] yields_plus_string [OF assms(1,2), of s]
    yields_append [OF assms(2,3)] yields_convert [OF assms(1,2), of s]
    yields_data [OF assms(1), of "s @ [NUL]" s len] assms(2,4)
  by (simp add: cs_size_def)

lemma CharStruct_refines_string_witness:
  "cs_plus sample_junk (sample_cs (replicate 200 CHR ''a'')) (sample_cs (replicate 56 CHR ''b''))
     = Inl BufferOverflow \<and>
   (\<exists>c. cs_plus sample_junk (sample_cs (replicate 200 CHR ''a'')) (sample_cs (replicate 55 CHR ''b''))
     = Inr c \<and> cs_text c = replicate 200 CHR ''a'' @ replicate 55 CHR ''b'')"
  using CharStruct_refines_string [of sample_junk "sample_cs (replicate 200 CHR ''a'')"
      "sample_cs (replicate 56 CHR ''b'')" "[]"]
    CharStruct_refines_string [of sample_junk "sample_cs (replicate 200 CHR ''a'')"
      "sample_cs (replicate 55 CHR ''b'')" "[]"]
  by (auto simp: yields_def)

text \<open>
  C33: the comparisons of two \<open>CharStruct\<close>s answer those of their texts, ordered
  lexicographically by unsigned bytes, whatever the buffers hold behind the terminating zero;
  equal objects have equal hashes.
\<close>
theorem CharStruct_order:
  assumes "cs_wf a" "cs_wf b"
  shows "cs_eq a b = Inr (cs_text a = cs_text b) \<and>
         cs_lt a b = Inr (cs_text a < cs_text b) \<and> cs_le a b = Inr (cs_text a \<le> cs_text b) \<and>
         cs_gt a b = Inr (cs_text a > cs_text b) \<and> cs_ge a b = Inr (cs_text a \<ge> cs_text b) \<and>
         (cs_eq a b = Inr True \<longrightarrow> cs_hash h a = cs_hash h b)"
proof -
  have "strcmp s t \<le> 0 \<longleftrightarrow> s \<le> t" "0 < strcmp s t \<longleftrightarrow> t < s" "0 \<le> strcmp s t \<longleftrightarrow> t \<le> s" for s t
    using strcmp_sign [of s t] by (auto simp: le_less)
  then show ?thesis
    using assms
    by (simp add: cs_eq_def cs_lt_def cs_le_def cs_gt_def cs_ge_def cs_hash_def cs_compare_wf strcmp_sign)
qed

lemma CharStruct_order_witness:
  "cs_lt (sample_cs ''node10'') (sample_cs ''node2'') = Inr True \<and>
   cs_eq (sample_cs ''a'') \<lparr>cs_value = CHR ''a'' # NUL # replicate 254 NUL\<rparr> = Inr True"
proof -
  let ?zeros = "\<lparr>cs_value = CHR ''a'' # NUL # replicate 254 NUL\<rparr>"
  have z: "cs_wf ?zeros" "cs_text ?zeros = ''a''"
    using wf_terminated [of "''a''" "replicate 254 NUL"] wf_text_terminated [of "''a''" "replicate 254 NUL"]
    by simp_all
  show ?thesis
    using CharStruct_order [of "sample_cs ''node10''" "sample_cs ''node2''"]
      CharStruct_order [OF _ z(1), of "sample_cs ''a''"] z(2)
    by (simp add: less_char_def)
qed

text \<open>
  C34: a \<open>CharStruct\<close> that is packed and unpacked into another object, over any encoding that
  keeps MessagePack's promise or in a zone, gives that object the same text.
\<close>
theorem CharStruct_pack_roundtrip:
  assumes "msgpack_strings encode decode" "length junk = 256" "cs_wf c" "cs_wf input"
  shows "(\<exists>calls obj received. cs_pack [] c = Inr calls \<and> decode (encode calls) = Some obj \<and>
            cs_convert junk obj input = Inr received \<and> cs_eq received c = Inr True) \<and>
         (\<exists>obj received. cs_object_with_zone c = Inr obj \<and>
            cs_convert junk obj input = Inr received \<and> cs_eq received c = Inr True)"
proof -
  obtain calls where calls: "cs_pack [] c = Inr calls"
    "decode (encode calls) = Some (StrObject (cs_text c))"
    using msgpack_strings.pack_unpack [OF assms(1,3)] by blast
  have zone: "cs_object_with_zone c = Inr (StrObject (cs_text c))"
    using calls(1) cs_value_take [of c]
    by (auto simp: cs_pack_def cs_object_with_zone_def bind_result_Inr_iff cs_size_wf [OF assms(3)]
        split: if_splits)
  obtain received where r: "cs_convert junk (StrObject (cs_text c)) input = Inr received"
    "cs_wf received" "cs_text received = cs_text c"
    using yields_convert [OF assms(2,4), of "cs_text c"] length_cs_text [OF assms(3)]
    by (auto simp: yields_def)
  have "cs_eq received c = Inr True"
    using r(2,3) assms(3) by (simp add: cs_eq_def cs_compare_wf strcmp_sign)
  with calls zone r(1) show ?thesis by blast
qed

lemma CharStruct_pack_roundtrip_witness:
  "\<exists>calls obj received. cs_pack [] (sample_cs ''server'') = Inr calls \<and>
     mp_decode (mp_encode calls) = Some obj \<and>
     cs_convert sample_junk obj (sample_cs []) = Inr received \<and>
     cs_eq received (sample_cs ''server'') = Inr True"
  using CharStruct_pack_roundtrip [OF mp_str.msgpack_strings_axioms length_sample_junk,
      of "sample_cs ''server''" "sample_cs []"] by simp

end
