(* ===== verification/Basket_Config.thy ===== *)
theory Basket_Config
  imports Char_Struct
begin

section \<open>The configuration manager\<close>

text \<open>
  \<open>ConfigurationManager\<close> of \<open>include/basket/common/configuration_manager.h\<close>: the one
  configuration of a process (\<open>BASKET_CONF\<close>), its defaults, the parser of the server list
  file and the two default configurations. The file system is a function from a path to
  the contents of the file, \<open>None\<close> where it cannot be opened. A \<open>CharStruct\<close> member is kept as
  its text; where the code makes one of a \<open>std::string\<close> that it has read or been given
  (\<open>CharStruct_of\<close>), a text that does not fit in the 256-byte buffer is written past it.
\<close>

subsection \<open>State\<close>

datatype RPCImplementation = RPCLIB | THALLIUM_TCP | THALLIUM_ROCE

text \<open>The build options that compile the cases of a \<open>switch\<close> on the RPC implementation in.\<close>

record build =
  ENABLE_RPCLIB :: bool
  ENABLE_THALLIUM_TCP :: bool
  ENABLE_THALLIUM_ROCE :: bool

definition compiled_in :: "build \<Rightarrow> RPCImplementation \<Rightarrow> bool" where
  "compiled_in B impl =
     (case impl of
        RPCLIB \<Rightarrow> ENABLE_RPCLIB B
      | THALLIUM_TCP \<Rightarrow> ENABLE_THALLIUM_TCP B
      | THALLIUM_ROCE \<Rightarrow> ENABLE_THALLIUM_ROCE B)"

record config =
  RPC_PORT :: u16
  RPC_THREADS :: u16
  RPC_IMPLEMENTATION :: RPCImplementation
  MPI_RANK :: int
  COMM_SIZE :: int
  TCP_CONF :: string
  VERBS_CONF :: string
  VERBS_DOMAIN :: string
  MEMORY_ALLOCATED :: u64
  IS_SERVER :: bool
  MY_SERVER :: u16
  NUM_SERVERS :: int
  SERVER_ON_NODE :: bool
  SERVER_LIST_PATH :: string
  SERVER_LIST :: "string list"
  BACKED_FILE_DIR :: string
  DYN_CONFIG :: bool

text \<open>
  The constructor. \<open>RPC_IMPLEMENTATION\<close> is the first of the three that is compiled in; with
  none of them the member stays uninitialised, which \<open>uninit\<close> stands for. \<open>rank\<close> and \<open>ranks\<close>
  are what MPI answers.
\<close>

definition ConfigurationManager ::
  "build \<Rightarrow> RPCImplementation \<Rightarrow> int \<Rightarrow> int \<Rightarrow> config" where
  "ConfigurationManager B uninit rank ranks =
     \<lparr> RPC_PORT = 8080, RPC_THREADS = 1,
       RPC_IMPLEMENTATION =
         (if ENABLE_RPCLIB B then RPCLIB
          else if ENABLE_THALLIUM_TCP B then THALLIUM_TCP
          else if ENABLE_THALLIUM_ROCE B then THALLIUM_ROCE
          else uninit),
       MPI_RANK = rank, COMM_SIZE = ranks,
       TCP_CONF = ''ofi+tcp'', VERBS_CONF = ''verbs'', VERBS_DOMAIN = ''mlx5_0'',
       MEMORY_ALLOCATED = 1024 * 1024 * 128,
       IS_SERVER = False, MY_SERVER = 0, NUM_SERVERS = 1, SERVER_ON_NODE = True,
       SERVER_LIST_PATH = ''./server_list'', SERVER_LIST = [],
       BACKED_FILE_DIR = ''/dev/shm'', DYN_CONFIG = False \<rparr>"

lemma ConfigurationManager_fields [simp]:
  "MPI_RANK (ConfigurationManager B u r n) = r" "RPC_PORT (ConfigurationManager B u r n) = 8080"
  "SERVER_LIST_PATH (ConfigurationManager B u r n) = ''./server_list''"
  "NUM_SERVERS (ConfigurationManager B u r n) = 1" "MY_SERVER (ConfigurationManager B u r n) = 0"
  "IS_SERVER (ConfigurationManager B u r n) = False"
  "SERVER_ON_NODE (ConfigurationManager B u r n) = True"
  "ENABLE_RPCLIB B \<Longrightarrow> RPC_IMPLEMENTATION (ConfigurationManager B u r n) = RPCLIB"
  by (simp_all add: ConfigurationManager_def)

subsection \<open>The server list file\<close>

text \<open>
  The lines that repeated \<open>getline\<close> delivers: each is what stands before the next newline,
  and a last line without a newline counts when it is not empty.
\<close>

function getlines :: "string \<Rightarrow> string list" where
  "getlines [] = []"
| "getlines (c # cs) =
     takeWhile (\<lambda>x. x \<noteq> CHR 0x0A) (c # cs)
       # getlines (drop 1 (dropWhile (\<lambda>x. x \<noteq> CHR 0x0A) (c # cs)))"
  by pat_completeness auto
termination
proof (relation "measure length")
  fix c :: char and cs
  have "length (dropWhile (\<lambda>x. x \<noteq> CHR 0x0A) (c # cs)) \<le> length (c # cs)"
    by (rule length_dropWhile_le)
  then show "(drop 1 (dropWhile (\<lambda>x. x \<noteq> CHR 0x0A) (c # cs)), c # cs) \<in> measure length"
    by (simp del: dropWhile.simps)
qed simp

text \<open>\<open>file_line.find(':')\<close>; \<open>None\<close> is \<open>std::string::npos\<close>.\<close>

fun find_char :: "char \<Rightarrow> string \<Rightarrow> nat option" where
  "find_char x [] = None"
| "find_char x (c # cs) = (if c = x then Some 0 else map_option Suc (find_char x cs))"

definition parse_server_line :: "string \<Rightarrow> string \<times> int" where
  "parse_server_line file_line =
     (case find_char CHR '':'' file_line of
        Some split_loc \<Rightarrow>
          (take split_loc file_line, atoi (drop (split_loc + 1) file_line))
      | None \<Rightarrow> (file_line, 1))"

text \<open>
  The text of the \<open>CharStruct\<close> that is made of a \<open>std::string\<close>. What the memory held before does
  not matter (\<open>CharStruct_of_junk\<close>), it is taken to be zeros here.
\<close>

definition CharStruct_of :: "string \<Rightarrow> string result" where
  "CharStruct_of s = bind_result (CharStruct_string (replicate 256 NUL) s) cs_string"

lemma CharStruct_of_junk:
  assumes "length junk = 256"
  shows "bind_result (CharStruct_string junk s) cs_string
           = (if length (takeWhile (\<lambda>x. x \<noteq> NUL) s) < 256
              then Inr (takeWhile (\<lambda>x. x \<noteq> NUL) s) else Inl BufferOverflow)"
  using yields_string [OF assms, of s] by (auto simp: yields_def split: if_splits)

lemma CharStruct_of_eq:
  "CharStruct_of s
     = (if length (takeWhile (\<lambda>x. x \<noteq> NUL) s) < 256
        then Inr (takeWhile (\<lambda>x. x \<noteq> NUL) s) else Inl BufferOverflow)"
  by (simp add: CharStruct_of_def CharStruct_of_junk)

text \<open>The inner loop \<open>for (int i = 0; i < count; ++i) SERVER_LIST.emplace_back(name)\<close>.\<close>

primrec emplace_servers :: "nat \<Rightarrow> string \<Rightarrow> string list \<Rightarrow> string list result" where
  "emplace_servers 0 server_node_name servers = Inr servers"
| "emplace_servers (Suc n) server_node_name servers =
     bind_result (CharStruct_of server_node_name) (\<lambda>name.
       emplace_servers n server_node_name (servers @ [name]))"

primrec load_lines :: "string list \<Rightarrow> string list \<Rightarrow> string list result" where
  "load_lines [] servers = Inr servers"
| "load_lines (file_line # file_lines) servers =
     (case parse_server_line file_line of (server_node_name, cnt) \<Rightarrow>
        bind_result (emplace_servers (nat cnt) server_node_name servers) (load_lines file_lines))"

definition LoadServers ::
  "(string \<Rightarrow> string option) \<Rightarrow> config \<Rightarrow> (config \<times> string list) result" where
  "LoadServers files cfg =
     (case files (SERVER_LIST_PATH cfg) of
        None \<Rightarrow> Inl CannotOpenServerList
      | Some contents \<Rightarrow>
          bind_result (load_lines (getlines contents) []) (\<lambda>servers.
            Inr (cfg\<lparr>SERVER_LIST := servers, NUM_SERVERS := to_cint (int (length servers))\<rparr>,
                 servers)))"

text \<open>
  \<open>MPI_RANK % NUM_SERVERS\<close> is the remainder of two \<open>int\<close>s, truncated towards zero and
  undefined for an empty list; assigning it to \<open>MY_SERVER\<close> keeps 16 bits.
\<close>

definition set_my_server :: "config \<Rightarrow> config result" where
  "set_my_server cfg =
     (if NUM_SERVERS cfg = 0 then Inl DivideByZero
      else Inr (cfg\<lparr>MY_SERVER := word_of_int (MPI_RANK cfg smod NUM_SERVERS cfg)\<rparr>))"

definition set_server_list_path :: "string \<Rightarrow> config \<Rightarrow> config result" where
  "set_server_list_path path cfg =
     (if path \<noteq> [] then bind_result (CharStruct_of path) (\<lambda>text. Inr (cfg\<lparr>SERVER_LIST_PATH := text\<rparr>))
      else Inr cfg)"

definition ConfigureDefaultClient ::
  "(string \<Rightarrow> string option) \<Rightarrow> string \<Rightarrow> config \<Rightarrow> config result" where
  "ConfigureDefaultClient files server_list_path cfg =
     bind_result (set_server_list_path server_list_path cfg) (\<lambda>cfg0.
     bind_result (LoadServers files cfg0) (\<lambda>(cfg1, _).
     bind_result (set_my_server (cfg1\<lparr>IS_SERVER := False\<rparr>)) (\<lambda>cfg2.
     Inr (cfg2\<lparr>SERVER_ON_NODE := False\<rparr>))))"

definition ConfigureDefaultServer ::
  "(string \<Rightarrow> string option) \<Rightarrow> string \<Rightarrow> config \<Rightarrow> config result" where
  "ConfigureDefaultServer files server_list_path cfg =
     bind_result (set_server_list_path server_list_path cfg) (\<lambda>cfg0.
     bind_result (LoadServers files cfg0) (\<lambda>(cfg1, _).
     bind_result (set_my_server (cfg1\<lparr>IS_SERVER := True\<rparr>)) (\<lambda>cfg2.
     Inr (cfg2\<lparr>SERVER_ON_NODE := True\<rparr>))))"

subsection \<open>What the parser reads\<close>

lemma find_char_append:
  "x \<notin> set xs \<Longrightarrow> find_char x (xs @ x # ys) = Some (length xs)"
  by (induction xs) auto

lemma find_char_None: "x \<notin> set xs \<Longrightarrow> find_char x xs = None"
  by (induction xs) auto

lemma getlines_append:
  assumes "CHR 0x0A \<notin> set line"
  shows "getlines (line @ CHR 0x0A # rest) = line # getlines rest"
proof -
  have tw: "takeWhile (\<lambda>x. x \<noteq> CHR 0x0A) (line @ CHR 0x0A # rest) = line"
    using assms by (subst takeWhile_append2) auto
  have dw: "dropWhile (\<lambda>x. x \<noteq> CHR 0x0A) (line @ CHR 0x0A # rest) = CHR 0x0A # rest"
    using assms by (subst dropWhile_append2) auto
  obtain c cs where eq: "line @ CHR 0x0A # rest = c # cs"
    by (cases line) auto
  show ?thesis
    using tw dw by (simp add: eq)
qed

definition server_line :: "string \<times> nat \<Rightarrow> string" where
  "server_line s = fst s @ CHR '':'' # to_string (int (snd s))"

definition plain_name :: "string \<Rightarrow> bool" where
  "plain_name s \<longleftrightarrow> CHR '':'' \<notin> set s \<and> CHR 0x0A \<notin> set s"

lemma parse_server_line_roundtrip:
  "plain_name (fst s) \<Longrightarrow> parse_server_line (server_line s) = (fst s, int (snd s))"
  by (simp add: parse_server_line_def server_line_def plain_name_def find_char_append
      atoi_to_string)

lemma server_line_no_newline: "plain_name (fst s) \<Longrightarrow> CHR 0x0A \<notin> set (server_line s)"
  by (simp add: server_line_def plain_name_def to_string_not_special)

definition server_file :: "(string \<times> nat) list \<Rightarrow> string" where
  "server_file ss = concat (map (\<lambda>s. server_line s @ [CHR 0x0A]) ss)"

lemma getlines_server_file:
  "\<forall>s \<in> set ss. plain_name (fst s) \<Longrightarrow> getlines (server_file ss) = map server_line ss"
proof (induction ss)
  case Nil
  then show ?case by (simp add: server_file_def)
next
  case (Cons s ss)
  then have "getlines (server_line s @ CHR 0x0A # server_file ss)
      = server_line s # getlines (server_file ss)"
    by (simp add: getlines_append server_line_no_newline)
  with Cons show ?case by (simp add: server_file_def)
qed

text \<open>What the list file of \<open>ss\<close> loads as: the names as \<open>CharStruct\<close>s, each of its count.\<close>

definition c_text :: "string \<Rightarrow> string" where
  "c_text s = takeWhile (\<lambda>x. x \<noteq> NUL) s"

definition too_long :: "(string \<times> nat) list \<Rightarrow> bool" where
  "too_long ss \<longleftrightarrow> (\<exists>s \<in> set ss. 0 < snd s \<and> 256 \<le> length (c_text (fst s)))"

definition repeated :: "(string \<times> nat) list \<Rightarrow> string list" where
  "repeated ss = concat (map (\<lambda>(name, n). replicate n (c_text name)) ss)"

lemma emplace_servers_eq:
  "emplace_servers n name servers
     = (if 0 < n \<and> 256 \<le> length (c_text name) then Inl BufferOverflow
        else Inr (servers @ replicate n (c_text name)))"
  by (induction n arbitrary: servers)
    (auto simp: CharStruct_of_eq c_text_def not_le replicate_append_same [symmetric])

lemma load_lines_file:
  "\<forall>s \<in> set ss. plain_name (fst s) \<Longrightarrow>
     load_lines (map server_line ss) servers
       = (if too_long ss then Inl BufferOverflow else Inr (servers @ repeated ss))"
  by (induction ss arbitrary: servers)
    (auto simp: too_long_def repeated_def parse_server_line_roundtrip emplace_servers_eq)

lemma length_repeated: "length (repeated ss) = sum_list (map snd ss)"
  unfolding repeated_def by (induction ss) auto

subsection \<open>Lemmas on the default configurations\<close>

lemma LoadServers_Inr:
  assumes "LoadServers files cfg = Inr (cfg', servers)"
  shows "SERVER_LIST cfg' = servers" and "NUM_SERVERS cfg' = to_cint (int (length servers))"
    and "RPC_PORT cfg' = RPC_PORT cfg" and "MPI_RANK cfg' = MPI_RANK cfg"
    and "IS_SERVER cfg' = IS_SERVER cfg" and "MY_SERVER cfg' = MY_SERVER cfg"
    and "SERVER_ON_NODE cfg' = SERVER_ON_NODE cfg"
    and "SERVER_LIST_PATH cfg' = SERVER_LIST_PATH cfg"
    and "RPC_IMPLEMENTATION cfg' = RPC_IMPLEMENTATION cfg"
  using assms by (auto simp: LoadServers_def bind_result_Inr_iff split: option.splits)

lemma set_server_list_path_rank:
  "set_server_list_path path cfg = Inr cfg0 \<Longrightarrow> MPI_RANK cfg0 = MPI_RANK cfg"
  by (auto simp: set_server_list_path_def bind_result_Inr_iff split: if_splits)

lemma LoadServers_idem:
  "LoadServers files cfg = Inr (cfg', servers) \<Longrightarrow>
     LoadServers files cfg' = Inr (cfg', servers)"
  by (auto simp: LoadServers_def bind_result_Inr_iff split: option.splits)

lemma LoadServers_again:
  "LoadServers files cfg = Inr (cfg1, servers) \<Longrightarrow>
     LoadServers files (cfg1\<lparr>IS_SERVER := a, MY_SERVER := b, SERVER_ON_NODE := c\<rparr>)
       = Inr (cfg1\<lparr>IS_SERVER := a, MY_SERVER := b, SERVER_ON_NODE := c\<rparr>, servers)"
  by (auto simp: LoadServers_def bind_result_Inr_iff split: option.splits)

lemma smod_range:
  fixes a n :: int
  assumes "0 \<le> a" "0 < n"
  shows "0 \<le> a smod n" and "a smod n < n" and "a smod n = a mod n"
  using assms by (auto simp: smod_int_alt_def sgn_if)

lemma unat_word_of_smod:
  fixes a n :: int
  assumes "0 \<le> a" "0 < n" "n \<le> 65536"
  shows "unat (word_of_int (a smod n) :: u16) = nat (a mod n)"
proof -
  have "0 \<le> a mod n" "a mod n < n"
    using assms by simp_all
  then have "0 \<le> a mod n" "a mod n < 65536"
    using assms by linarith+
  then have "uint (word_of_int (a mod n) :: u16) = a mod n"
    by (simp add: uint_word_of_int)
  then show ?thesis
    using assms by (simp add: smod_range unat_eq_nat_uint)
qed

subsection \<open>Properties\<close>

text \<open>Builds, a file system with one file, and a loaded list for the closed instances.\<close>

definition rpclib_only :: build where
  "rpclib_only = \<lparr>ENABLE_RPCLIB = True, ENABLE_THALLIUM_TCP = False, ENABLE_THALLIUM_ROCE = False\<rparr>"

definition tcp_only :: build where
  "tcp_only = \<lparr>ENABLE_RPCLIB = False, ENABLE_THALLIUM_TCP = True, ENABLE_THALLIUM_ROCE = False\<rparr>"

definition one_file :: "string \<Rightarrow> string \<Rightarrow> string \<Rightarrow> string option" where
  "one_file path contents = (\<lambda>p. if p = path then Some contents else None)"

lemma LoadServers_server_file_list:
  assumes "\<forall>s \<in> set ss. plain_name (fst s)" "files (SERVER_LIST_PATH cfg) = Some (server_file ss)"
  shows "LoadServers files cfg
     = (if too_long ss then Inl BufferOverflow
        else Inr (cfg\<lparr>SERVER_LIST := repeated ss, NUM_SERVERS := to_cint (int (length (repeated ss)))\<rparr>,
                  repeated ss))"
  using assms by (simp add: LoadServers_def getlines_server_file load_lines_file)

text \<open>
  C37: a server list file with one \<open>host:count\<close> line per host loads as the list that repeats the
  name of each host \<open>count\<close> times, up to a zero byte in it, in the order of the file, and
  \<open>NUM_SERVERS\<close> is its length. But a host that is counted and whose name has 256 bytes or more
  does not fit in the \<open>CharStruct\<close>s of the list: it is written past the buffer.
\<close>
theorem LoadServers_server_file:
  assumes "\<forall>s \<in> set ss. plain_name (fst s)" "files (SERVER_LIST_PATH cfg) = Some (server_file ss)"
    and "sum_list (map snd ss) < 2 ^ 31"
  shows "if \<exists>(name, n) \<in> set ss. 0 < n \<and> 256 \<le> length (takeWhile (\<lambda>x. x \<noteq> NUL) name)
         then LoadServers files cfg = Inl BufferOverflow
         else let servers = concat (map (\<lambda>(name, n). replicate n (takeWhile (\<lambda>x. x \<noteq> NUL) name)) ss)
              in \<exists>cfg'. LoadServers files cfg = Inr (cfg', servers) \<and> SERVER_LIST cfg' = servers \<and>
                   NUM_SERVERS cfg' = int (sum_list (map snd ss))"
  using LoadServers_server_file_list [of ss files cfg] length_repeated [of ss] assms
  by (auto simp: too_long_def repeated_def c_text_def Let_def split_beta)

lemma two_copies: "replicate 2 x = [x, x]"
  by (simp add: numeral_2_eq_2)

lemma LoadServers_server_file_witness:
  "(\<exists>cfg'. LoadServers (one_file ''./server_list'' (server_file [(''ares-01'', 2), (''ares-02'', 1)]))
           (ConfigurationManager rpclib_only RPCLIB 0 1)
         = Inr (cfg', [''ares-01'', ''ares-01'', ''ares-02'']) \<and>
       SERVER_LIST cfg' = [''ares-01'', ''ares-01'', ''ares-02''] \<and> NUM_SERVERS cfg' = 3) \<and>
   LoadServers (one_file ''./server_list'' (server_file [(replicate 256 CHR ''a'', 1)]))
     (ConfigurationManager rpclib_only RPCLIB 0 1) = Inl BufferOverflow"
  using LoadServers_server_file [of "[(''ares-01'', 2), (''ares-02'', 1)]"
      "one_file ''./server_list'' (server_file [(''ares-01'', 2), (''ares-02'', 1)])"
      "ConfigurationManager rpclib_only RPCLIB 0 1"]
    LoadServers_server_file [of "[(replicate 256 CHR ''a'', 1)]"
      "one_file ''./server_list'' (server_file [(replicate 256 CHR ''a'', 1)])"
      "ConfigurationManager rpclib_only RPCLIB 0 1"]
  by (simp add: plain_name_def one_file_def two_copies Let_def)

text \<open>
  Both default configurations fail on an empty server list (a remainder by zero).
  Otherwise they spread the ranks over the servers round robin: \<open>MY_SERVER\<close> is the rank
  modulo the number of servers, an index into the list, for at most 65536 servers. The
  server configuration marks the process a server on its node, the client one neither.
\<close>
theorem ConfigureDefault_my_server:
  assumes "set_server_list_path path cfg = Inr cfg0" "LoadServers files cfg0 = Inr (cfg1, servers)"
    and "0 \<le> MPI_RANK cfg" "length servers \<le> 65536"
  shows "if servers = []
         then ConfigureDefaultServer files path cfg = Inl DivideByZero \<and>
              ConfigureDefaultClient files path cfg = Inl DivideByZero
         else \<exists>srv cli. ConfigureDefaultServer files path cfg = Inr srv \<and>
              ConfigureDefaultClient files path cfg = Inr cli \<and>
              unat (MY_SERVER srv) = nat (MPI_RANK cfg) mod length servers \<and>
              MY_SERVER cli = MY_SERVER srv \<and>
              NUM_SERVERS srv = int (length servers) \<and> SERVER_LIST srv = servers \<and>
              NUM_SERVERS cli = int (length servers) \<and> SERVER_LIST cli = servers \<and>
              IS_SERVER srv \<and> SERVER_ON_NODE srv \<and> \<not> IS_SERVER cli \<and> \<not> SERVER_ON_NODE cli"
proof -
  note L = LoadServers_Inr [OF assms(2)]
  have "MPI_RANK cfg1 = MPI_RANK cfg" "NUM_SERVERS cfg1 = int (length servers)"
    using L assms(4) set_server_list_path_rank [OF assms(1)] by simp_all
  then show ?thesis
    using L(1) assms unat_word_of_smod [of "MPI_RANK cfg" "int (length servers)"]
    by (simp add: ConfigureDefaultServer_def ConfigureDefaultClient_def set_my_server_def
        nat_mod_distrib)
qed

definition two_hosts :: "string \<Rightarrow> string option" where
  "two_hosts = one_file ''list'' (server_file [(''a'', 2), (''b'', 1)])"

lemma LoadServers_two_hosts:
  "SERVER_LIST_PATH cfg = ''list'' \<Longrightarrow>
     LoadServers two_hosts cfg
       = Inr (cfg\<lparr>SERVER_LIST := [''a'', ''a'', ''b''], NUM_SERVERS := 3\<rparr>, [''a'', ''a'', ''b''])"
  using LoadServers_server_file_list [of "[(''a'', 2), (''b'', 1)]" two_hosts cfg]
  by (simp add: two_hosts_def one_file_def plain_name_def too_long_def repeated_def c_text_def two_copies
      to_cint_def)

lemma set_path_list [simp]: "set_server_list_path ''list'' cfg = Inr (cfg\<lparr>SERVER_LIST_PATH := ''list''\<rparr>)"
  by (simp add: set_server_list_path_def CharStruct_of_eq)

lemma ConfigureDefault_my_server_witness:
  "\<exists>srv. ConfigureDefaultServer two_hosts ''list'' (ConfigurationManager rpclib_only RPCLIB 7 8)
         = Inr srv \<and>
       unat (MY_SERVER srv) = 1 \<and> NUM_SERVERS srv = 3 \<and> IS_SERVER srv"
  using ConfigureDefault_my_server [OF set_path_list LoadServers_two_hosts,
      of "ConfigurationManager rpclib_only RPCLIB 7 8"]
  by auto

end
