(* ===== verification/Singleton_Instance.thy ===== *)
theory Singleton_Instance
  imports Basket_Prelude
begin

section \<open>Singletons\<close>

text \<open>
  \<open>Singleton<T>::GetInstance\<close> of \<open>include/basket/common/singleton.h\<close>. The static pointer of the
  class is an option, \<open>None\<close> for \<open>nullptr\<close>. Constructing the object may fail and may change
  the state \<open>'s\<close> its constructor works on.
\<close>

definition GetInstance ::
  "('s \<Rightarrow> ('t \<times> 's) result) \<Rightarrow> 's \<times> 't option \<Rightarrow> ('t \<times> 's \<times> 't option) result" where
  "GetInstance new_T st =
     (case st of
        (s, None) \<Rightarrow> bind_result (new_T s) (\<lambda>(obj, s'). Inr (obj, s', Some obj))
      | (s, Some obj) \<Rightarrow> Inr (obj, s, Some obj))"

lemma GetInstance_Some [simp]: "GetInstance new_T (s, Some obj) = Inr (obj, s, Some obj)"
  by (simp add: GetInstance_def)

lemma GetInstance_None [simp]:
  "GetInstance new_T (s, None) = bind_result (new_T s) (\<lambda>(obj, s'). Inr (obj, s', Some obj))"
  by (simp add: GetInstance_def)

text \<open>Once there is an instance, it stays, whatever the later calls would construct.\<close>

lemma GetInstance_stays:
  "GetInstance new_T st = Inr (obj, s, inst) \<Longrightarrow> inst = Some obj"
  by (cases st; cases "snd st") (auto simp: bind_result_Inr_iff)

end
