(* ===== verification/Basket_RPC.thy ===== *)
theory Basket_RPC
  imports Basket_Config Singleton_Instance
begin

section \<open>The RPC layer\<close>

text \<open>
  \<open>RPC\<close>, \<open>RPCFactory\<close> and the call macros (\<open>communication/rpc_lib.h\<close>, \<open>rpc_lib.cpp\<close>,
  \<open>rpc_factory.h\<close>, \<open>common/macros.h\<close>). A container keeps one structure per server. The
  \<^emph>\<open>world\<close> gives, for each server index, the contents of that server's structure. A
  server's \<^emph>\<open>registry\<close> maps the names bound by \<open>RPC::bind\<close> to the handlers that run on its
  structure. The transport (rpclib, or Thallium over Mercury) is not part of the
  repository: it is the argument \<open>net\<close> of the environment, and what the library relies on
  is stated by the locales \<open>rpclib_network\<close> and \<open>thallium_network\<close> below.
\<close>

subsection \<open>Values on the wire, registries, worlds\<close>

datatype ('k, 'v) wire =
    WBool bool
  | WKey 'k
  | WVal 'v
  | WU32 u32
  | WSize u64
  | WFoundVal bool 'v
  | WFoundKey bool 'k
  | WFoundKeys bool "'k list"
  | WKeys "'k list"
  | WPairs "('k \<times> 'v) list"
  | WText string

text \<open>\<open>as<ret>()\<close> for the return types the containers use; \<open>None\<close> is a failed conversion.\<close>

fun as_bool :: "('k, 'v) wire \<Rightarrow> bool option" where
  "as_bool (WBool b) = Some b"
| "as_bool _ = None"

fun as_size :: "('k, 'v) wire \<Rightarrow> u64 option" where
  "as_size (WSize n) = Some n"
| "as_size _ = None"

fun as_found_val :: "('k, 'v) wire \<Rightarrow> (bool \<times> 'v) option" where
  "as_found_val (WFoundVal b v) = Some (b, v)"
| "as_found_val _ = None"

fun as_found_key :: "('k, 'v) wire \<Rightarrow> (bool \<times> 'k) option" where
  "as_found_key (WFoundKey b k) = Some (b, k)"
| "as_found_key _ = None"

fun as_keys :: "('k, 'v) wire \<Rightarrow> 'k list option" where
  "as_keys (WKeys ks) = Some ks"
| "as_keys _ = None"

fun as_pairs :: "('k, 'v) wire \<Rightarrow> ('k \<times> 'v) list option" where
  "as_pairs (WPairs ps) = Some ps"
| "as_pairs _ = None"

type_synonym 'c world = "u16 \<Rightarrow> 'c"
type_synonym ('k, 'v, 'c) handler = "('k, 'v) wire list \<Rightarrow> 'c \<Rightarrow> ('k, 'v) wire result \<times> 'c"
type_synonym ('k, 'v, 'c) registry = "string \<Rightarrow> ('k, 'v, 'c) handler option"

datatype endpoint =
    RpclibEndpoint string u16
  | MercuryAddress string

type_synonym ('k, 'v, 'c) transport =
  "endpoint \<Rightarrow> string \<Rightarrow> ('k, 'v) wire list \<Rightarrow> 'c world \<Rightarrow> ('k, 'v) wire result \<times> 'c world"

text \<open>
  What a calling process sees around it: the compiled-in transports, its \<open>BASKET_CONF\<close>, the
  name service (\<open>gethostbyname\<close> with \<open>inet_ntoa\<close>) and the transport itself.
\<close>

record ('k, 'v, 'c) env =
  env_build :: build
  env_conf :: config
  env_resolve :: "string \<Rightarrow> string"
  env_net :: "('k, 'v, 'c) transport"

subsection \<open>The RPC object\<close>

text \<open>
  \<open>rpclib_server\<close> is the port the rpclib server of the process is bound to,
  \<open>engine_init_str\<close> the address its Thallium engine is started with.
\<close>

record rpc =
  server_port :: u16
  server_list :: "string list"
  rpclib_server :: "u16 option"
  engine_init_str :: "string option"

text \<open>\<open>server_port + MY_SERVER\<close> is an \<open>int\<close>; \<open>rpc::server\<close> takes a \<open>uint16_t\<close>.\<close>

definition listen_port :: "u16 \<Rightarrow> u16 \<Rightarrow> u16" where
  "listen_port port my_server_index = word_of_int (uint port + uint my_server_index)"

definition server_at_rank :: "config \<Rightarrow> string result" where
  "server_at_rank cfg =
     of_option InvalidRead
       (if MPI_RANK cfg < 0 then None else vec_at (SERVER_LIST cfg) (nat (MPI_RANK cfg)))"

text \<open>
  The server branch of the constructor's first \<open>switch\<close>, with the engine or server that
  \<open>RPC::run\<close> then starts from it. Without a compiled-in case nothing happens. The address is a
  sum of \<open>CharStruct\<close>s, \<open>in_buffer\<close>: for texts without zeros, as those of \<open>CharStruct\<close>s are, the
  text if it fits (\<open>in_buffer_eq\<close>).
\<close>

definition in_buffer :: "string \<Rightarrow> string result" where
  "in_buffer s = (if length s < 256 then Inr s else Inl BufferOverflow)"

lemma in_buffer_eq: "NUL \<notin> set s \<Longrightarrow> CharStruct_of s = in_buffer s"
  by (simp add: CharStruct_of_eq in_buffer_def takeWhile_eq_all_conv [THEN iffD2])

lemma in_buffer_Inr [simp]: "in_buffer s = Inr t \<longleftrightarrow> length s < 256 \<and> t = s"
  by (auto simp: in_buffer_def)

definition start_server :: "build \<Rightarrow> config \<Rightarrow> rpc \<Rightarrow> rpc result" where
  "start_server B cfg P =
     (if \<not> compiled_in B (RPC_IMPLEMENTATION cfg) then Inr P
      else case RPC_IMPLEMENTATION cfg of
        RPCLIB \<Rightarrow>
          Inr (P\<lparr>rpclib_server := Some (listen_port (server_port P) (MY_SERVER cfg))\<rparr>)
      | THALLIUM_TCP \<Rightarrow>
          bind_result (server_at_rank cfg) (\<lambda>host.
          bind_result (in_buffer (TCP_CONF cfg @ ''://'' @ host @ '':'' @
                         to_string (uint (server_port P) + uint (MY_SERVER cfg)))) (\<lambda>address.
          Inr (P\<lparr>engine_init_str := Some address\<rparr>)))
      | THALLIUM_ROCE \<Rightarrow>
          bind_result (server_at_rank cfg) (\<lambda>host.
          bind_result (in_buffer (VERBS_CONF cfg @ ''://'' @ VERBS_DOMAIN cfg @ ''://'' @ host @ '':'' @
                         to_string (uint (server_port P) + uint (MY_SERVER cfg)))) (\<lambda>address.
          Inr (P\<lparr>engine_init_str := Some address\<rparr>))))"

definition RPC_new ::
  "build \<Rightarrow> (string \<Rightarrow> string option) \<Rightarrow> config \<Rightarrow> (config \<times> rpc) result" where
  "RPC_new B files cfg =
     bind_result (LoadServers files cfg) (\<lambda>(cfg1, servers).
     let P = \<lparr>server_port = RPC_PORT cfg, server_list = servers, rpclib_server = None,
              engine_init_str = None\<rparr>
     in if IS_SERVER cfg1
        then bind_result (start_server B cfg1 P) (\<lambda>P'. Inr (cfg1, P'))
        else Inr (cfg1, P))"

definition RPC_bind ::
  "build \<Rightarrow> RPCImplementation \<Rightarrow> string \<Rightarrow> ('k, 'v, 'c) handler \<Rightarrow>
     ('k, 'v, 'c) registry \<Rightarrow> ('k, 'v, 'c) registry" where
  "RPC_bind B impl str func reg = (if compiled_in B impl then reg(str \<mapsto> func) else reg)"

text \<open>A constructor's sequence of \<open>rpc->bind(func_prefix + name, func)\<close>.\<close>

fun bind_all ::
  "build \<Rightarrow> RPCImplementation \<Rightarrow> string \<Rightarrow> (string \<times> ('k, 'v, 'c) handler) list \<Rightarrow>
     ('k, 'v, 'c) registry \<Rightarrow> ('k, 'v, 'c) registry" where
  "bind_all B impl func_prefix [] reg = reg"
| "bind_all B impl func_prefix ((nam, func) # binds) reg =
     bind_all B impl func_prefix binds (RPC_bind B impl (func_prefix @ nam) func reg)"

lemma bind_all_other:
  "nam \<notin> fst ` set binds \<Longrightarrow> bind_all B impl p binds reg (p @ nam) = reg (p @ nam)"
  by (induction binds arbitrary: reg) (auto simp: RPC_bind_def)

lemma bind_all_lookup:
  "compiled_in B impl \<Longrightarrow> distinct (map fst binds) \<Longrightarrow> (nam, h) \<in> set binds \<Longrightarrow>
     bind_all B impl p binds reg (p @ nam) = Some h"
  by (induction binds arbitrary: reg) (auto simp: RPC_bind_def bind_all_other)

text \<open>\<open>int16_t port = server_port + server_index\<close>.\<close>

definition client_port :: "u16 \<Rightarrow> u16 \<Rightarrow> int" where
  "client_port port server_index = sint (word_of_int (uint port + uint server_index) :: 16 word)"

text \<open>
  The address a call connects to: rpclib's client takes the port as a \<open>uint16_t\<close>; the
  Mercury look-up string spells the \<open>int16_t\<close> out.
\<close>

definition client_endpoint ::
  "('k, 'v, 'c) env \<Rightarrow> u16 \<Rightarrow> u16 \<Rightarrow> string \<Rightarrow> endpoint" where
  "client_endpoint E port server_index host =
     (case RPC_IMPLEMENTATION (env_conf E) of
        RPCLIB \<Rightarrow> RpclibEndpoint host (word_of_int (client_port port server_index))
      | THALLIUM_TCP \<Rightarrow>
          MercuryAddress (TCP_CONF (env_conf E) @ ''://'' @ env_resolve E host @ '':'' @
            to_string (client_port port server_index))
      | THALLIUM_ROCE \<Rightarrow>
          MercuryAddress (VERBS_CONF (env_conf E) @ ''://'' @ env_resolve E host @ '':'' @
            to_string (client_port port server_index)))"

definition RPC_call ::
  "('k, 'v, 'c) env \<Rightarrow> rpc \<Rightarrow> u16 \<Rightarrow> string \<Rightarrow> ('k, 'v) wire list \<Rightarrow> 'c world \<Rightarrow>
     ('k, 'v) wire result \<times> 'c world" where
  "RPC_call E P server_index func_name args w =
     (if \<not> compiled_in (env_build E) (RPC_IMPLEMENTATION (env_conf E)) then (Inl NoImplementation, w)
      else case vec_at (server_list P) (unat server_index) of
        None \<Rightarrow> (Inl OutOfRange, w)
      | Some host \<Rightarrow>
          env_net E (client_endpoint E (server_port P) server_index host) func_name args w)"

text \<open>
  \<open>callWithTimeout\<close> reads the host from the configuration's list, by an unchecked
  \<open>operator[]\<close>. Only rpclib's client is given the timeout; \<open>timed\<close> is the transport with
  that limit.
\<close>

definition RPC_callWithTimeout ::
  "('k, 'v, 'c) env \<Rightarrow> (int \<Rightarrow> ('k, 'v, 'c) transport) \<Rightarrow> rpc \<Rightarrow> u16 \<Rightarrow> int \<Rightarrow> string \<Rightarrow>
     ('k, 'v) wire list \<Rightarrow> 'c world \<Rightarrow> ('k, 'v) wire result \<times> 'c world" where
  "RPC_callWithTimeout E timed P server_index timeout_ms func_name args w =
     (if \<not> compiled_in (env_build E) (RPC_IMPLEMENTATION (env_conf E)) then (Inl NoImplementation, w)
      else case vec_at (SERVER_LIST (env_conf E)) (unat server_index) of
        None \<Rightarrow> (Inl InvalidRead, w)
      | Some host \<Rightarrow>
          (case RPC_IMPLEMENTATION (env_conf E) of
             RPCLIB \<Rightarrow>
               timed timeout_ms (client_endpoint E (server_port P) server_index host) func_name args w
           | _ \<Rightarrow> env_net E (client_endpoint E (server_port P) server_index host) func_name args w))"

text \<open>\<open>async_call\<close> has a case for rpclib only; the value of the future is what it delivers.\<close>

definition RPC_async_call ::
  "('k, 'v, 'c) env \<Rightarrow> rpc \<Rightarrow> u16 \<Rightarrow> string \<Rightarrow> ('k, 'v) wire list \<Rightarrow> 'c world \<Rightarrow>
     ('k, 'v) wire result \<times> 'c world" where
  "RPC_async_call E P server_index func_name args w =
     (if RPC_IMPLEMENTATION (env_conf E) = RPCLIB \<and> ENABLE_RPCLIB (env_build E)
      then (case vec_at (server_list P) (unat server_index) of
              None \<Rightarrow> (Inl OutOfRange, w)
            | Some host \<Rightarrow>
                env_net E (client_endpoint E (server_port P) server_index host) func_name args w)
      else (Inl NoImplementation, w))"

text \<open>
  \<open>RPC_CALL_WRAPPER\<close> and \<open>RPC_CALL_WRAPPER1\<close>: call the prefixed name and convert the
  response. A failed conversion comes after the server has run the function.
\<close>

definition RPC_CALL_WRAPPER ::
  "('k, 'v, 'c) env \<Rightarrow> rpc \<Rightarrow> string \<Rightarrow> string \<Rightarrow> u16 \<Rightarrow> (('k, 'v) wire \<Rightarrow> 'r option) \<Rightarrow>
     ('k, 'v) wire list \<Rightarrow> 'c world \<Rightarrow> 'r result \<times> 'c world" where
  "RPC_CALL_WRAPPER E P func_prefix funcname serverVar as_ret args w =
     (if \<not> compiled_in (env_build E) (RPC_IMPLEMENTATION (env_conf E)) then (Inl NoImplementation, w)
      else case RPC_call E P serverVar (func_prefix @ funcname) args w of
        (Inl e, w') \<Rightarrow> (Inl e, w')
      | (Inr response, w') \<Rightarrow> (of_option BadCast (as_ret response), w'))"

subsection \<open>The factory\<close>

text \<open>
  One \<open>RPC\<close> per port. A missing one is built while \<open>RPC_PORT\<close> of the configuration is
  set to the requested port, and the old value is put back.
\<close>

type_synonym rpc_factory = "u16 \<Rightarrow> rpc option"

definition GetRPC ::
  "build \<Rightarrow> (string \<Rightarrow> string option) \<Rightarrow> u16 \<Rightarrow> config \<times> rpc_factory \<Rightarrow>
     (rpc \<times> config \<times> rpc_factory) result" where
  "GetRPC B files port st =
     (case st of (cfg, rpcs) \<Rightarrow>
        case rpcs port of
          Some P \<Rightarrow> Inr (P, cfg, rpcs)
        | None \<Rightarrow>
            let temp = RPC_PORT cfg
            in bind_result (RPC_new B files (cfg\<lparr>RPC_PORT := port\<rparr>)) (\<lambda>(cfg1, P).
               Inr (P, cfg1\<lparr>RPC_PORT := temp\<rparr>, rpcs(port \<mapsto> P))))"

subsection \<open>What the transport promises\<close>

text \<open>The server side of a call: the bound handler runs on the server's own structure.\<close>

definition serve ::
  "('k, 'v, 'c) registry \<Rightarrow> u16 \<Rightarrow> string \<Rightarrow> ('k, 'v) wire list \<Rightarrow> 'c world \<Rightarrow>
     ('k, 'v) wire result \<times> 'c world" where
  "serve reg i func_name args w =
     (case reg func_name of
        None \<Rightarrow> (Inl (UnboundFunction func_name), w)
      | Some h \<Rightarrow> (case h args (w i) of (r, c) \<Rightarrow> (r, w(i := c))))"

text \<open>
  rpclib's documented behaviour, for a set of servers that all bound \<open>reg\<close>: a call to the
  host and port a server of the list listens on runs the function bound under that name
  there and delivers its result.
\<close>

locale rpclib_network =
  fixes net :: "('k, 'v, 'c) transport"
    and port0 :: u16
    and servers :: "string list"
    and reg :: "('k, 'v, 'c) registry"
  assumes delivers:
    "unat i < length servers \<Longrightarrow>
       net (RpclibEndpoint (servers ! unat i) (listen_port port0 i)) func_name args w
         = serve reg i func_name args w"

text \<open>
  The same for Thallium over TCP: the address \<open>conf://ip:port\<close>, spelled with the port the
  server's engine was started on (\<open>base port + index\<close>, an \<open>int\<close>), reaches that server.
\<close>

definition mercury_address :: "string \<Rightarrow> string \<Rightarrow> int \<Rightarrow> string" where
  "mercury_address conf ip port = conf @ ''://'' @ ip @ '':'' @ to_string port"

locale thallium_network =
  fixes net :: "('k, 'v, 'c) transport"
    and conf :: string
    and resolve :: "string \<Rightarrow> string"
    and port0 :: u16
    and servers :: "string list"
    and reg :: "('k, 'v, 'c) registry"
  assumes delivers:
    "unat i < length servers \<Longrightarrow>
       net (MercuryAddress (mercury_address conf (resolve (servers ! unat i)) (uint port0 + uint i)))
         func_name args w = serve reg i func_name args w"

definition rpclib_env :: "('k, 'v, 'c) env \<Rightarrow> bool" where
  "rpclib_env E \<longleftrightarrow> ENABLE_RPCLIB (env_build E) \<and> RPC_IMPLEMENTATION (env_conf E) = RPCLIB"

definition tcp_env :: "('k, 'v, 'c) env \<Rightarrow> bool" where
  "tcp_env E \<longleftrightarrow>
     ENABLE_THALLIUM_TCP (env_build E) \<and> RPC_IMPLEMENTATION (env_conf E) = THALLIUM_TCP"

text \<open>
  What the containers need of either transport: a call to a server of the \<open>RPC\<close> object's
  list is served by that server.
\<close>

locale served_calls =
  fixes E :: "('k, 'v, 'c) env"
    and P :: rpc
    and reg :: "('k, 'v, 'c) registry"
  assumes has_case: "compiled_in (env_build E) (RPC_IMPLEMENTATION (env_conf E))"
    and reaches: "unat i < length (server_list P) \<Longrightarrow>
      RPC_call E P i func_name args w = serve reg i func_name args w"
begin

lemma wrapper_served:
  assumes "unat i < length (server_list P)"
    and "reg (prefix @ funcname) = Some h" and "h args (w i) = (Inr response, c)"
    and "as_ret response = Some x"
  shows "RPC_CALL_WRAPPER E P prefix funcname i as_ret args w = (Inr x, w(i := c))"
  using assms reaches [of i "prefix @ funcname" args w] has_case
  by (simp add: RPC_CALL_WRAPPER_def serve_def)

lemma wrapper_fails:
  assumes "unat i < length (server_list P)"
    and "reg (prefix @ funcname) = Some h" and "h args (w i) = (Inl e, w i)"
  shows "RPC_CALL_WRAPPER E P prefix funcname i as_ret args w = (Inl e, w)"
  using assms reaches [of i "prefix @ funcname" args w] has_case
  by (simp add: RPC_CALL_WRAPPER_def serve_def)

lemma wrapper_unbound:
  assumes "unat i < length (server_list P)" and "reg (prefix @ funcname) = None"
  shows "RPC_CALL_WRAPPER E P prefix funcname i as_ret args w
           = (Inl (UnboundFunction (prefix @ funcname)), w)"
  using assms reaches [of i "prefix @ funcname" args w] has_case
  by (simp add: RPC_CALL_WRAPPER_def serve_def)

end

lemma client_port_word: "word_of_int (client_port port i) = listen_port port i"
  by (simp add: client_port_def listen_port_def)

lemma int16_sum_small:
  "sint (word_of_int (uint (a :: u16) + uint (b :: u16)) :: 16 word) = uint a + uint b \<longleftrightarrow>
     uint a + uint b < 32768"
proof -
  have "uint a + uint b < 131072" "0 \<le> uint a + uint b"
    using uint_u16_less [of a] uint_u16_less [of b] by linarith (simp add: add_nonneg_nonneg)
  moreover have "sint (word_of_int n :: 16 word) = n \<longleftrightarrow> n < 32768"
    if "0 \<le> n" "n < 131072" for n :: int
    using that sint_lt [of "word_of_int n :: 16 word"] signed_take_bit_int_eq_self [of 15 n]
    by (auto simp: sint_sbintrunc')
  ultimately show ?thesis by blast
qed

lemma client_port_small: "uint port + uint i < 32768 \<Longrightarrow> client_port port i = uint port + uint i"
  unfolding client_port_def by (simp only: int16_sum_small)

context rpclib_network
begin

lemma served:
  assumes "rpclib_env E" "env_net E = net" "server_port P = port0" "server_list P = servers"
  shows "served_calls E P reg"
  using assms delivers
  by unfold_locales
    (simp_all add: RPC_call_def rpclib_env_def compiled_in_def client_endpoint_def client_port_word)

end

context thallium_network
begin

lemma served:
  assumes "tcp_env E" "env_net E = net" "TCP_CONF (env_conf E) = conf" "env_resolve E = resolve"
    and "server_port P = port0" "server_list P = servers"
    and "uint port0 + int (length servers) \<le> 32768"
  shows "served_calls E P reg"
proof
  show "compiled_in (env_build E) (RPC_IMPLEMENTATION (env_conf E))"
    using assms(1) by (simp add: tcp_env_def compiled_in_def)
next
  fix i :: u16 and func_name args w
  assume i: "unat i < length (server_list P)"
  then have "uint i < int (length servers)"
    by (simp only: uint_nat of_nat_less_iff assms(6))
  then have "uint port0 + uint i < 32768"
    using assms(7) by linarith
  then show "RPC_call E P i func_name args w = serve reg i func_name args w"
    using i assms delivers [of i func_name args w]
    by (simp add: RPC_call_def tcp_env_def compiled_in_def client_endpoint_def client_port_small
        mercury_address_def)
qed

end

text \<open>
  The contract is met by the transport that finds the server by the distance of the port
  from the base port.
\<close>

definition loopback_net ::
  "u16 \<Rightarrow> string list \<Rightarrow> ('k, 'v, 'c) registry \<Rightarrow> ('k, 'v, 'c) transport" where
  "loopback_net port0 servers reg address func_name args w =
     (case address of
        RpclibEndpoint host port \<Rightarrow>
          (if vec_at servers (unat (port - port0)) = Some host
           then serve reg (port - port0) func_name args w
           else (Inl Unreachable, w))
      | MercuryAddress _ \<Rightarrow> (Inl Unreachable, w))"

lemma listen_port_diff [simp]: "listen_port port i - port = i"
proof -
  have "listen_port port i = port + i"
    by (simp add: listen_port_def word_uint_eq_iff uint_word_of_int uint_word_arith_bintrs
        take_bit_eq_mod)
  then show ?thesis by simp
qed

lemma loopback_net_ok: "rpclib_network (loopback_net port0 servers reg) port0 servers reg"
  by unfold_locales (simp add: loopback_net_def)

interpretation loopback: rpclib_network "loopback_net port0 servers reg" port0 servers reg
  for port0 servers reg
  by (rule loopback_net_ok)

text \<open>
  The Thallium contract is met by the transport that compares the address with those of the
  servers; the port at its end tells them apart.
\<close>

definition loopback_tcp ::
  "string \<Rightarrow> (string \<Rightarrow> string) \<Rightarrow> u16 \<Rightarrow> string list \<Rightarrow> ('k, 'v, 'c) registry \<Rightarrow> ('k, 'v, 'c) transport" where
  "loopback_tcp conf resolve port0 servers reg address func_name args w =
     (case filter (\<lambda>i. address = MercuryAddress (mercury_address conf (resolve (servers ! i))
             (uint port0 + int i))) [0..<length servers] of
        [] \<Rightarrow> (Inl Unreachable, w)
      | i # _ \<Rightarrow> serve reg (word_of_nat i) func_name args w)"

lemma colon_split:
  assumes "a @ CHR '':'' # x = b @ CHR '':'' # y" "CHR '':'' \<notin> set x" "CHR '':'' \<notin> set y"
  shows "a = b \<and> x = y"
  using assms
proof (induction a arbitrary: b)
  case Nil
  then show ?case by (cases b) auto
next
  case (Cons c a)
  then show ?case by (cases b) auto
qed

lemma mercury_address_port:
  "mercury_address conf ip port = mercury_address conf' ip' port' \<Longrightarrow> port = port'"
  using colon_split [of "conf @ ''://'' @ ip" "to_string port" "conf' @ ''://'' @ ip'"
      "to_string port'"] to_string_not_special(1)
  by (simp add: mercury_address_def)

lemma loopback_tcp_serves:
  assumes "j < length servers"
  shows "loopback_tcp conf resolve port0 servers reg
      (MercuryAddress (mercury_address conf (resolve (servers ! j)) (uint port0 + int j)))
      func_name args w = serve reg (word_of_nat j) func_name args w"
proof -
  let ?addr = "\<lambda>j. MercuryAddress (mercury_address conf (resolve (servers ! j)) (uint port0 + int j))"
  have "filter (\<lambda>i. ?addr j = ?addr i) [0..<length servers] = filter (\<lambda>i. i = j) [0..<length servers]"
    by (rule filter_cong) (auto dest: mercury_address_port)
  also have "\<dots> = [j]"
    using assms by (induction servers rule: rev_induct) auto
  finally show ?thesis by (simp add: loopback_tcp_def)
qed

lemma loopback_tcp_ok:
  "thallium_network (loopback_tcp conf resolve port0 servers reg) conf resolve port0 servers reg"
proof
  show "loopback_tcp conf resolve port0 servers reg
      (MercuryAddress (mercury_address conf (resolve (servers ! unat i)) (uint port0 + uint i)))
      func_name args w = serve reg i func_name args w"
    if "unat i < length servers" for i func_name args w
    using loopback_tcp_serves [OF that, of conf resolve port0 reg func_name args w] by simp
qed

interpretation loopback_thallium: thallium_network "loopback_tcp conf resolve port0 servers reg"
  conf resolve port0 servers reg
  for conf resolve port0 servers reg
  by (rule loopback_tcp_ok)

subsection \<open>Lemmas on the RPC object and the factory\<close>

lemma start_server_fields:
  assumes "start_server B cfg P = Inr P'"
  shows "server_port P' = server_port P" and "server_list P' = server_list P"
  using assms
  by (auto simp: start_server_def bind_result_Inr_iff split: if_splits RPCImplementation.splits)

lemma RPC_new_Inr:
  assumes "RPC_new B files cfg = Inr (cfg', P)"
  shows "server_port P = RPC_PORT cfg" and "server_list P = SERVER_LIST cfg'"
    and "RPC_PORT cfg' = RPC_PORT cfg"
    and "LoadServers files cfg = Inr (cfg', SERVER_LIST cfg')"
  using assms
  by (auto simp: RPC_new_def Let_def bind_result_Inr_iff LoadServers_Inr split: if_splits
      dest: start_server_fields)

lemma LoadServers_port:
  "LoadServers files (cfg\<lparr>RPC_PORT := p\<rparr>)
     = map_sum id (\<lambda>(c, l). (c\<lparr>RPC_PORT := p\<rparr>, l)) (LoadServers files cfg)"
  by (auto simp: LoadServers_def bind_result_def split: option.splits sum.splits)

subsection \<open>Properties\<close>

lemma start_server_rpclib:
  "start_server B cfg P = Inr P' \<Longrightarrow> ENABLE_RPCLIB B \<Longrightarrow> RPC_IMPLEMENTATION cfg = RPCLIB \<Longrightarrow>
     rpclib_server P' = Some (listen_port (server_port P) (MY_SERVER cfg))"
  by (auto simp: start_server_def compiled_in_def)

text \<open>
  With rpclib, a client that calls server \<open>i\<close> connects to the port on which the process
  configured as server \<open>i\<close> listens, for every base port: the sum wraps in the same way on
  both sides, although the client computes it in a signed 16-bit variable.
\<close>
theorem rpclib_client_finds_server_port:
  assumes "RPC_new B files cfg = Inr (cfg', P)" "IS_SERVER cfg" "ENABLE_RPCLIB B"
    and "RPC_IMPLEMENTATION cfg = RPCLIB" "RPC_IMPLEMENTATION (env_conf E) = RPCLIB"
  shows "\<exists>port. rpclib_server P = Some port \<and>
           client_endpoint E (RPC_PORT cfg) (MY_SERVER cfg) host = RpclibEndpoint host port"
proof -
  obtain cfg1 servers where L: "LoadServers files cfg = Inr (cfg1, servers)"
    using assms(1) by (auto simp: RPC_new_def bind_result_Inr_iff)
  note F = LoadServers_Inr [OF L]
  have "start_server B cfg1 \<lparr>server_port = RPC_PORT cfg, server_list = servers,
      rpclib_server = None, engine_init_str = None\<rparr> = Inr P"
    using assms(1,2) F by (auto simp: RPC_new_def L Let_def bind_result_Inr_iff)
  from start_server_rpclib [OF this] show ?thesis
    using assms F by (simp add: client_endpoint_def client_port_word)
qed

definition server_cfg :: config where
  "server_cfg = (ConfigurationManager rpclib_only RPCLIB 0 1)
     \<lparr>SERVER_LIST_PATH := ''list'', IS_SERVER := True, MY_SERVER := 2, RPC_PORT := 65535\<rparr>"

definition client_env :: "(nat, nat, nat) env" where
  "client_env = \<lparr>env_build = rpclib_only, env_conf = ConfigurationManager rpclib_only RPCLIB 0 1,
     env_resolve = id, env_net = (\<lambda>_ _ _ w. (Inl Unreachable, w))\<rparr>"

lemma rpclib_client_finds_server_port_witness:
  "\<exists>P. map_sum id snd (RPC_new rpclib_only two_hosts server_cfg) = Inr P \<and>
     (\<exists>port. rpclib_server P = Some port \<and>
       client_endpoint client_env 65535 2 ''b'' = RpclibEndpoint ''b'' port)"
proof -
  have e: "ENABLE_RPCLIB rpclib_only" by (simp add: rpclib_only_def)
  then obtain cfg' P where new: "RPC_new rpclib_only two_hosts server_cfg = Inr (cfg', P)"
    by (simp add: RPC_new_def LoadServers_two_hosts server_cfg_def start_server_def
        compiled_in_def Let_def)
  have "\<exists>port. rpclib_server P = Some port \<and>
      client_endpoint client_env (RPC_PORT server_cfg) (MY_SERVER server_cfg) ''b''
        = RpclibEndpoint ''b'' port"
    by (rule rpclib_client_finds_server_port [OF new])
      (simp_all add: server_cfg_def client_env_def e)
  moreover have "RPC_PORT server_cfg = 65535" "MY_SERVER server_cfg = 2"
    by (simp_all add: server_cfg_def)
  ultimately show ?thesis
    using new by simp
qed

text \<open>
  With Thallium over TCP the client looks the server up under its port number exactly
  when base port plus index is below 32768; from there on the signed 16-bit variable spells
  another number.
\<close>
theorem thallium_port_spelled_right_iff:
  assumes "RPC_IMPLEMENTATION (env_conf E) = THALLIUM_TCP"
  shows "client_endpoint E port i host
           = MercuryAddress (TCP_CONF (env_conf E) @ ''://'' @ env_resolve E host @ '':'' @
               to_string (uint port + uint i)) \<longleftrightarrow>
         uint port + uint i < 32768"
  using int16_sum_small [of port i] by (simp add: client_endpoint_def assms client_port_def)

lemma thallium_port_spelled_right_iff_witness:
  "client_endpoint (client_env\<lparr>env_conf := ConfigurationManager tcp_only RPCLIB 0 1\<rparr>) 40000 1 ''b''
     \<noteq> MercuryAddress (TCP_CONF (ConfigurationManager tcp_only RPCLIB 0 1) @ ''://'' @ ''b'' @ '':'' @
         to_string 40001)"
  using thallium_port_spelled_right_iff
      [of "client_env\<lparr>env_conf := ConfigurationManager tcp_only RPCLIB 0 1\<rparr>" 40000 1 "''b''"]
  by (simp add: ConfigurationManager_def tcp_only_def client_env_def)

text \<open>
  GetRPC builds one \<open>RPC\<close> per port. What it returns is in the factory afterwards, so a
  second call returns the same object and changes nothing; a new object belongs to the
  requested port and to the server list just loaded; the configured port and the objects of
  the other ports are as before.
\<close>
theorem GetRPC_one_per_port:
  assumes "GetRPC B files port (cfg, rpcs) = Inr (P, cfg', rpcs')"
  shows "GetRPC B files port (cfg', rpcs') = Inr (P, cfg', rpcs') \<and>
         RPC_PORT cfg' = RPC_PORT cfg \<and> (\<forall>q. q = port \<or> rpcs' q = rpcs q) \<and>
         (if rpcs port = None then server_port P = port \<and> server_list P = SERVER_LIST cfg'
          else cfg' = cfg \<and> rpcs' = rpcs)"
  using assms
  by (auto simp: GetRPC_def Let_def bind_result_Inr_iff split: option.splits if_splits
      dest: RPC_new_Inr)

lemma GetRPC_one_per_port_witness:
  "\<exists>P cfg' rpcs'. GetRPC rpclib_only two_hosts 9000 (server_cfg, Map.empty) = Inr (P, cfg', rpcs') \<and>
     server_port P = 9000 \<and> RPC_PORT cfg' = 65535 \<and>
     GetRPC rpclib_only two_hosts 9000 (cfg', rpcs') = Inr (P, cfg', rpcs')"
proof -
  obtain P cfg' rpcs' where new:
    "GetRPC rpclib_only two_hosts 9000 (server_cfg, Map.empty) = Inr (P, cfg', rpcs')"
    by (simp add: GetRPC_def RPC_new_def LoadServers_two_hosts server_cfg_def start_server_def
        compiled_in_def rpclib_only_def Let_def)
  from GetRPC_one_per_port [OF this] show ?thesis
    using new by (simp add: server_cfg_def)
qed

text \<open>
  A call to a server index past the end of the \<open>RPC\<close> object's server list throws
  \<open>out_of_range\<close> on the client, before anything is sent: no server's structure changes.
\<close>
theorem call_past_server_list:
  assumes "compiled_in (env_build E) (RPC_IMPLEMENTATION (env_conf E))"
    and "length (server_list P) \<le> unat i"
  shows "RPC_CALL_WRAPPER E P prefix funcname i as_ret args w = (Inl OutOfRange, w)"
  using assms by (simp add: RPC_CALL_WRAPPER_def RPC_call_def)

lemma call_past_server_list_witness:
  "RPC_CALL_WRAPPER client_env \<lparr>server_port = 8080, server_list = [''a''], rpclib_server = None,
       engine_init_str = None\<rparr> ''m'' ''_Put'' 1 as_bool [WKey 1, WVal 2] (\<lambda>_. 0)
     = (Inl OutOfRange, \<lambda>_. 0)"
  by (rule call_past_server_list) (simp_all add: client_env_def compiled_in_def rpclib_only_def)

end
