(* ===== verification/Container_Object.thy ===== *)
theory Container_Object
  imports Basket_RPC
begin

section \<open>What all distributed containers share\<close>

text \<open>
  Every container class has the same attributes, fills them the same way in its
  constructor, chooses a server for a key or a server index the same way, and then either
  works on the structure mapped into its own address space or calls the server. This
  theory holds those parts and the facts about them that every class uses: the routing
  arithmetic, the equivalence of the local and the remote path, the loop that gathers data
  from all servers, and the abstract view of a partitioned structure.
\<close>

subsection \<open>Attributes and constructor\<close>

record container =
  obj_comm_size :: int
  obj_my_rank :: int
  obj_num_servers :: int
  obj_my_server :: u16
  obj_rpc :: rpc
  obj_memory_allocated :: u64
  obj_is_server :: bool
  obj_name :: string
  obj_func_prefix :: string
  obj_server_on_node :: bool
  obj_backed_file :: string

definition path_separator :: string where
  "path_separator = ''/''"

text \<open>
  The attributes are read off the configuration before \<open>GetRPC\<close> runs: its \<open>RPC\<close>
  constructor may load the server list and so change \<open>NUM_SERVERS\<close> afterwards. \<open>mpi\<close> is
  the communicator's size and the process's rank.
\<close>

definition new_container ::
  "build \<Rightarrow> (string \<Rightarrow> string option) \<Rightarrow> int \<times> int \<Rightarrow> string \<Rightarrow> config \<times> rpc_factory \<Rightarrow>
     (container \<times> config \<times> rpc_factory) result" where
  "new_container B files mpi nam st =
     (case st of (cfg, rpcs) \<Rightarrow>
        bind_result (GetRPC B files (RPC_PORT cfg) (cfg, rpcs)) (\<lambda>(P, cfg', rpcs').
        Inr (\<lparr>obj_comm_size = fst mpi, obj_my_rank = snd mpi,
              obj_num_servers = NUM_SERVERS cfg, obj_my_server = MY_SERVER cfg,
              obj_rpc = P, obj_memory_allocated = MEMORY_ALLOCATED cfg,
              obj_is_server = IS_SERVER cfg,
              obj_name = nam @ ''_'' @ to_string (uint (MY_SERVER cfg)),
              obj_func_prefix = nam,
              obj_server_on_node = SERVER_ON_NODE cfg,
              obj_backed_file = BACKED_FILE_DIR cfg @ path_separator @ nam @ ''_'' @
                to_string (uint (MY_SERVER cfg))\<rparr>, cfg', rpcs')))"

text \<open>
  A mapped file holds one constructed structure under its object name. A node's mapped
  files are a map from path to segment.
\<close>

record 'c segment =
  seg_memory :: u64
  seg_object_name :: string
  seg_object :: 'c

type_synonym 'c node = "string \<Rightarrow> 'c segment option"

text \<open>
  What the constructors do after the attributes are set. A server removes a stale file,
  creates the segment, constructs the empty structure in it and binds its operations. A
  client on a server's node opens the segment and finds the structure by name. The last
  component is the path of the structure the object's pointer leads to, \<open>None\<close> for a null
  pointer. \<open>obj_named\<close> is the name the class constructs its structure under, \<open>binds\<close> the
  class's \<open>switch\<close> with the calls of \<open>rpc->bind\<close>.
\<close>

definition construct_container ::
  "build \<Rightarrow> (string \<Rightarrow> string option) \<Rightarrow> int \<times> int \<Rightarrow> string \<Rightarrow> (container \<Rightarrow> string) \<Rightarrow>
     'c \<Rightarrow> (RPCImplementation \<Rightarrow> string \<Rightarrow> ('k, 'v, 'c) registry \<Rightarrow> ('k, 'v, 'c) registry) \<Rightarrow>
     config \<times> rpc_factory \<Rightarrow> 'c node \<times> ('k, 'v, 'c) registry \<Rightarrow>
     (container \<times> string option \<times> (config \<times> rpc_factory) \<times> 'c node \<times> ('k, 'v, 'c) registry) result"
  where
  "construct_container B files mpi nam obj_named initial binds st sys =
     (case sys of (nod, reg) \<Rightarrow>
        bind_result (new_container B files mpi nam st) (\<lambda>(obj, cfg, rpcs).
        if obj_is_server obj
        then
          let removed = nod(obj_backed_file obj := None);
              created = removed(obj_backed_file obj \<mapsto>
                \<lparr>seg_memory = obj_memory_allocated obj, seg_object_name = obj_named obj,
                 seg_object = initial\<rparr>)
          in Inr (obj, Some (obj_backed_file obj), (cfg, rpcs), created,
                  binds (RPC_IMPLEMENTATION cfg) (obj_func_prefix obj) reg)
        else if obj_server_on_node obj
        then (case nod (obj_backed_file obj) of
                None \<Rightarrow> Inl NoSegment
              | Some seg \<Rightarrow>
                  Inr (obj,
                       (if seg_object_name seg = obj_named obj then Some (obj_backed_file obj)
                        else None),
                       (cfg, rpcs), nod, reg))
        else Inr (obj, None, (cfg, rpcs), nod, reg)))"

text \<open>The destructors: a server removes its mapped file.\<close>

definition destroy_container :: "container \<Rightarrow> 'c node \<Rightarrow> 'c node" where
  "destroy_container obj nod =
     (if obj_is_server obj then nod(obj_backed_file obj := None) else nod)"

subsection \<open>Choosing a server\<close>

text \<open>
  What the library needs of a key type: \<open>std::hash\<close>, \<open>operator>\<close>, \<open>operator>=\<close> and the
  \<open>Contains\<close> method, each as the instantiating program defines it.
\<close>

record 'k key_ops =
  keyHash :: "'k \<Rightarrow> u64"
  key_gt :: "'k \<Rightarrow> 'k \<Rightarrow> bool"
  key_ge :: "'k \<Rightarrow> 'k \<Rightarrow> bool"
  key_Contains :: "'k \<Rightarrow> 'k \<Rightarrow> bool"

text \<open>
  \<open>static_cast<uint16_t>(key_hash % num_servers)\<close>: the \<open>int\<close> is converted to \<open>size_t\<close>, the
  remainder taken in 64 bits and then cut to 16.
\<close>

definition route_size :: "u64 \<Rightarrow> int \<Rightarrow> u16 result" where
  "route_size key_hash num_servers =
     (if (word_of_int num_servers :: u64) = 0 then Inl DivideByZero
      else Inr (ucast (key_hash mod (word_of_int num_servers :: u64))))"

text \<open>
  \<open>(uint16_t)keyHash(key) % num_servers\<close>: the cast binds tighter than \<open>%\<close>, so the hash is
  cut to 16 bits first and the remainder is one of two \<open>int\<close>s.
\<close>

definition route_u16 :: "u64 \<Rightarrow> int \<Rightarrow> u16 result" where
  "route_u16 key_hash num_servers =
     (if num_servers = 0 then Inl DivideByZero
      else Inr (word_of_int (uint (ucast key_hash :: u16) smod num_servers)))"

text \<open>The condition of every operation: \<open>key_int == my_server && server_on_node\<close>.\<close>

definition is_local :: "container \<Rightarrow> u16 \<Rightarrow> bool" where
  "is_local obj key_int \<longleftrightarrow> key_int = obj_my_server obj \<and> obj_server_on_node obj"

definition with_route ::
  "u16 result \<Rightarrow> (u16 \<Rightarrow> 'c world \<Rightarrow> 'r result \<times> 'c world) \<Rightarrow> 'c world \<Rightarrow> 'r result \<times> 'c world"
  where
  "with_route r f w = (case r of Inl e \<Rightarrow> (Inl e, w) | Inr key_int \<Rightarrow> f key_int w)"

lemma with_route_simps [simp]:
  "with_route (Inl e) f w = (Inl e, w)"
  "with_route (Inr i) f w = f i w"
  by (simp_all add: with_route_def)

definition home :: "nat \<Rightarrow> u64 \<Rightarrow> u16" where
  "home n h = word_of_nat (unat h mod n)"

lemma unat_home: "0 < n \<Longrightarrow> n \<le> 65536 \<Longrightarrow> unat (home n h) = unat h mod n"
proof -
  assume n: "0 < n" "n \<le> 65536"
  then have "unat h mod n < 65536"
    by (meson less_le_trans mod_less_divisor)
  then show ?thesis by (simp add: home_def unat_of_nat)
qed

lemma route_size_home:
  assumes "0 < n" "n \<le> 65536"
  shows "route_size h (int n) = Inr (home n h)"
proof -
  have n: "unat (word_of_int (int n) :: u64) = n"
    using assms by (simp add: unat_of_nat)
  then have nz: "(word_of_int (int n) :: u64) \<noteq> 0"
    using assms by (metis not_gr_zero unat_0)
  have "unat (ucast (h mod (word_of_int (int n) :: u64)) :: u16) = unat (home n h)"
    using assms unfolding home_def
    by (simp add: unsigned_ucast_eq take_bit_eq_mod unat_of_nat unat_mod_distrib)
  then have "(ucast (h mod (word_of_int (int n) :: u64)) :: u16) = home n h"
    by (simp only: word_unat_eq_iff)
  then show ?thesis
    using nz by (simp add: route_size_def)
qed

lemma route_u16_home:
  assumes "0 < n" "n \<le> 65536"
  shows "route_u16 h (int n) = Inr (word_of_nat (unat h mod 65536 mod n))"
proof -
  have c: "uint (ucast h :: u16) = int (unat h mod 65536)"
    by (simp only: uint_nat) (simp add: unsigned_ucast_eq take_bit_eq_mod)
  have "int (unat h mod 65536) smod int n = int (unat h mod 65536 mod n)"
    using assms by (simp add: smod_range zmod_int)
  then show ?thesis
    using assms c by (simp add: route_u16_def)
qed

subsection \<open>The local and the remote path\<close>

text \<open>
  A local operation maps the contents of a structure to a result and the new contents. It
  runs on the structure of one server; the same function, wrapped by \<open>std::bind\<close> and
  \<open>std::function\<close>, is the handler of the remote call.
\<close>

definition run_local ::
  "('c \<Rightarrow> 'r \<times> 'c) \<Rightarrow> u16 \<Rightarrow> 'c world \<Rightarrow> 'r result \<times> 'c world" where
  "run_local f i w = (case f (w i) of (r, c) \<Rightarrow> (Inr r, w(i := c)))"

fun handle0 :: "('r \<Rightarrow> ('k, 'v) wire) \<Rightarrow> ('c \<Rightarrow> 'r \<times> 'c) \<Rightarrow> ('k, 'v, 'c) handler" where
  "handle0 enc f [] c = (case f c of (r, c') \<Rightarrow> (Inr (enc r), c'))"
| "handle0 enc f _ c = (Inl BadCast, c)"

fun handle_key ::
  "('r \<Rightarrow> ('k, 'v) wire) \<Rightarrow> ('k \<Rightarrow> 'c \<Rightarrow> 'r \<times> 'c) \<Rightarrow> ('k, 'v, 'c) handler" where
  "handle_key enc f [WKey k] c = (case f k c of (r, c') \<Rightarrow> (Inr (enc r), c'))"
| "handle_key enc f _ c = (Inl BadCast, c)"

fun handle_val ::
  "('r \<Rightarrow> ('k, 'v) wire) \<Rightarrow> ('v \<Rightarrow> 'c \<Rightarrow> 'r \<times> 'c) \<Rightarrow> ('k, 'v, 'c) handler" where
  "handle_val enc f [WVal v] c = (case f v c of (r, c') \<Rightarrow> (Inr (enc r), c'))"
| "handle_val enc f _ c = (Inl BadCast, c)"

fun handle_key_val ::
  "('r \<Rightarrow> ('k, 'v) wire) \<Rightarrow> ('k \<Rightarrow> 'v \<Rightarrow> 'c \<Rightarrow> 'r \<times> 'c) \<Rightarrow> ('k, 'v, 'c) handler" where
  "handle_key_val enc f [WKey k, WVal v] c = (case f k v c of (r, c') \<Rightarrow> (Inr (enc r), c'))"
| "handle_key_val enc f _ c = (Inl BadCast, c)"

fun handle_key_key ::
  "('r \<Rightarrow> ('k, 'v) wire) \<Rightarrow> ('k \<Rightarrow> 'k \<Rightarrow> 'c \<Rightarrow> 'r \<times> 'c) \<Rightarrow> ('k, 'v, 'c) handler" where
  "handle_key_key enc f [WKey a, WKey b] c = (case f a b c of (r, c') \<Rightarrow> (Inr (enc r), c'))"
| "handle_key_key enc f _ c = (Inl BadCast, c)"

fun handle_u32 ::
  "('r \<Rightarrow> ('k, 'v) wire) \<Rightarrow> (u32 \<Rightarrow> 'c \<Rightarrow> 'r \<times> 'c) \<Rightarrow> ('k, 'v, 'c) handler" where
  "handle_u32 enc f [WU32 n] c = (case f n c of (r, c') \<Rightarrow> (Inr (enc r), c'))"
| "handle_u32 enc f _ c = (Inl BadCast, c)"

text \<open>
  A client whose configuration agrees with the servers it knows, and their network: rpclib's,
  or Thallium's over TCP, with ports the client can spell.
\<close>

definition n_servers :: "container \<Rightarrow> nat" where
  "n_servers obj = length (server_list (obj_rpc obj))"

definition client_ok :: "container \<Rightarrow> bool" where
  "client_ok obj \<longleftrightarrow>
     obj_num_servers obj = int (n_servers obj) \<and>
     0 < n_servers obj \<and> n_servers obj \<le> 65536 \<and> unat (obj_my_server obj) < n_servers obj"

definition servers_run ::
  "('k, 'v, 'c) env \<Rightarrow> container \<Rightarrow> ('k, 'v, 'c) registry \<Rightarrow> bool" where
  "servers_run E obj reg \<longleftrightarrow>
     rpclib_env E \<and>
       rpclib_network (env_net E) (server_port (obj_rpc obj)) (server_list (obj_rpc obj)) reg \<or>
     tcp_env E \<and> uint (server_port (obj_rpc obj)) + int (n_servers obj) \<le> 32768 \<and>
       thallium_network (env_net E) (TCP_CONF (env_conf E)) (env_resolve E)
         (server_port (obj_rpc obj)) (server_list (obj_rpc obj)) reg"

lemma servers_run_served: "servers_run E obj reg \<Longrightarrow> served_calls E (obj_rpc obj) reg"
  by (auto simp: servers_run_def n_servers_def
      intro: rpclib_network.served thallium_network.served)

text \<open>
  The clients of one structure: each with its own view of the world around it, all knowing
  the same servers, which all serve the functions of one registry under one prefix.
\<close>

type_synonym ('k, 'v, 'c) client = "('k, 'v, 'c) env \<times> container"

definition joined :: "nat \<Rightarrow> string \<Rightarrow> ('k, 'v, 'c) registry \<Rightarrow> ('k, 'v, 'c) client \<Rightarrow> bool" where
  "joined n p reg cl \<longleftrightarrow>
     client_ok (snd cl) \<and> servers_run (fst cl) (snd cl) reg \<and>
     n_servers (snd cl) = n \<and> obj_func_prefix (snd cl) = p"

lemma joinedD:
  assumes "joined n p reg (E, obj)"
  shows "client_ok obj" and "servers_run E obj reg" and "n_servers obj = n"
    and "obj_func_prefix obj = p" and "0 < n" and "n \<le> 65536"
  using assms by (auto simp: joined_def client_ok_def)

lemma unat_home_less: "client_ok obj \<Longrightarrow> unat (home (n_servers obj) h) < n_servers obj"
  by (simp add: client_ok_def unat_home)

lemma client_route_size:
  "client_ok obj \<Longrightarrow> route_size h (obj_num_servers obj) = Inr (home (n_servers obj) h)"
  by (simp add: client_ok_def route_size_home)

lemma joined_route:
  "joined n p reg (E, obj) \<Longrightarrow>
     route_size h (obj_num_servers obj) = Inr (home n h) \<and> unat (home n h) < n"
  using client_route_size [of obj h] unat_home_less [of obj h] joinedD [of n p reg E obj]
  by simp

text \<open>
  A registry answers a call as a local operation if the function bound under the name runs
  the operation and its response converts to the operation's result.
\<close>

definition answers ::
  "('k, 'v, 'c) registry \<Rightarrow> string \<Rightarrow> ('k, 'v) wire list \<Rightarrow> (('k, 'v) wire \<Rightarrow> 'r option) \<Rightarrow>
     ('c \<Rightarrow> 'r \<times> 'c) \<Rightarrow> bool" where
  "answers reg func_name args as_ret f \<longleftrightarrow>
     (\<exists>h. reg func_name = Some h \<and>
          (\<forall>c. \<exists>x. h args c = (Inr x, snd (f c)) \<and> as_ret x = Some (fst (f c))))"

lemma bind_all_answers:
  assumes "compiled_in B impl" "(nam, h) \<in> set binds" "distinct (map fst binds)"
    and "\<And>c. \<exists>x. h args c = (Inr x, snd (f c)) \<and> as_ret x = Some (fst (f c))"
  shows "answers (bind_all B impl p binds reg) (p @ nam) args as_ret f"
  using bind_all_lookup [OF assms(1,3,2)] assms(4) by (simp add: answers_def)

text \<open>
  The two paths agree: whether a client reaches a server's structure through shared memory
  or through a call, the operation runs on that structure and delivers its result.
\<close>

lemma call_runs_home:
  assumes "joined n p reg (E, obj)" and "answers reg (p @ funcname) args as_ret f"
    and "unat i < n"
  shows "RPC_CALL_WRAPPER E (obj_rpc obj) (obj_func_prefix obj) funcname i as_ret args w
           = run_local f i w"
proof -
  note J = joinedD [OF assms(1)]
  obtain h x where h: "reg (p @ funcname) = Some h"
    "h args (w i) = (Inr x, snd (f (w i)))" "as_ret x = Some (fst (f (w i)))"
    using assms(2) unfolding answers_def by blast
  have "RPC_CALL_WRAPPER E (obj_rpc obj) p funcname i as_ret args w
      = (Inr (fst (f (w i))), w(i := snd (f (w i))))"
    by (rule served_calls.wrapper_served [OF servers_run_served [OF J(2)], where h = h])
      (use J(3) assms(3) h in \<open>auto simp: n_servers_def\<close>)
  then show ?thesis by (simp add: run_local_def split_beta J(4))
qed

lemma dispatch_home:
  assumes "joined n p reg (E, obj)" and "answers reg (p @ funcname) args as_ret f"
    and "unat i < n"
  shows "(if is_local obj i then run_local f (obj_my_server obj) w
          else RPC_CALL_WRAPPER E (obj_rpc obj) (obj_func_prefix obj) funcname i as_ret args w)
           = run_local f i w"
  using call_runs_home [OF assms] by (simp add: is_local_def)

lemma dispatch_size:
  assumes "joined n p reg (E, obj)" and "answers reg (p @ funcname) args as_ret f"
  shows "with_route (route_size h (obj_num_servers obj)) (\<lambda>key_int w.
           if is_local obj key_int then run_local f (obj_my_server obj) w
           else RPC_CALL_WRAPPER E (obj_rpc obj) (obj_func_prefix obj) funcname key_int as_ret
                  args w) w
           = run_local f (home n h) w"
  using joined_route [OF assms(1), of h] dispatch_home [OF assms, of "home n h" w] by simp

lemma dispatch_in_server:
  assumes "joined n p reg (E, obj)" and "answers reg (p @ funcname) args as_ret f"
  shows "(if obj_server_on_node obj then run_local f (obj_my_server obj) w
          else RPC_CALL_WRAPPER E (obj_rpc obj) (obj_func_prefix obj) funcname
                 (obj_my_server obj) as_ret args w)
           = run_local f (obj_my_server obj) w"
  using call_runs_home [OF assms, of "obj_my_server obj"] joinedD [OF assms(1)]
  by (simp add: client_ok_def)

subsection \<open>Gathering from all servers\<close>

text \<open>
  The loop \<open>for (int i = 0; i < num_servers; ++i) if (i != my_server) ...\<close> of \<open>GetAllData\<close>
  and \<open>Contains\<close>: ask every other server and append what it answers. The loop variable is
  an \<open>int\<close>; the call takes a \<open>uint16_t\<close>. A call that throws ends the loop.
\<close>

fun gather ::
  "(u16 \<Rightarrow> 'c world \<Rightarrow> 'a list result \<times> 'c world) \<Rightarrow> u16 \<Rightarrow> nat list \<Rightarrow> 'a list \<Rightarrow> 'c world \<Rightarrow>
     'a list result \<times> 'c world" where
  "gather ask my_server [] final_values w = (Inr final_values, w)"
| "gather ask my_server (i # is) final_values w =
     (if int i \<noteq> uint my_server
      then (case ask (word_of_int (int i)) w of
              (Inl e, w') \<Rightarrow> (Inl e, w')
            | (Inr server, w') \<Rightarrow> gather ask my_server is (final_values @ server) w')
      else gather ask my_server is final_values w)"

definition gather_all ::
  "(u16 \<Rightarrow> 'c world \<Rightarrow> 'a list result \<times> 'c world) \<Rightarrow>
     ('c world \<Rightarrow> 'a list result \<times> 'c world) \<Rightarrow> container \<Rightarrow> 'c world \<Rightarrow>
     'a list result \<times> 'c world" where
  "gather_all ask in_server obj w =
     (case in_server w of
        (Inl e, w') \<Rightarrow> (Inl e, w')
      | (Inr current_server, w') \<Rightarrow>
          gather ask (obj_my_server obj) [0..<nat (obj_num_servers obj)] current_server w')"

lemma gather_reads:
  assumes "\<And>i. i \<in> set is \<Longrightarrow> i < 65536 \<and> ask (word_of_nat i) w = (Inr (data (word_of_nat i)), w)"
  shows "gather ask my is acc w
           = (Inr (acc @ concat (map (\<lambda>i. data (word_of_nat i))
                (filter (\<lambda>i. i \<noteq> unat my) is))), w)"
  using assms
proof (induction "is" arbitrary: acc)
  case Nil
  then show ?case by simp
next
  case (Cons i "is")
  have "int i \<noteq> uint my \<longleftrightarrow> i \<noteq> unat my"
    by (simp only: uint_nat of_nat_eq_iff)
  with Cons show ?case by auto
qed

text \<open>
  Where every server answers the read \<open>data\<close> of its own structure, the answer holds each
  server's data exactly once.
\<close>

lemma gather_all_reads:
  assumes "client_ok obj"
    and "\<And>i. unat i < n_servers obj \<Longrightarrow> ask i w = (Inr (data i), w)"
    and "in_server w = (Inr (data (obj_my_server obj)), w)"
  shows "\<exists>xs. gather_all ask in_server obj w = (Inr xs, w) \<and>
           mset xs = mset (concat (map (\<lambda>i. data (word_of_nat i)) [0..<n_servers obj]))"
proof -
  let ?n = "n_servers obj" and ?my = "obj_my_server obj"
  let ?f = "\<lambda>i. data (word_of_nat i)"
  let ?rest = "filter (\<lambda>i. i \<noteq> unat ?my) [0..<?n]"
  have n: "obj_num_servers obj = int ?n" "?n \<le> 65536" "unat ?my < ?n"
    using assms(1) by (simp_all add: client_ok_def)
  have "i < 65536 \<and> ask (word_of_nat i) w = (Inr (?f i), w)" if "i \<in> set [0..<?n]" for i
    using that n assms(2) [of "word_of_nat i"] by (simp add: unat_of_nat)
  then have "gather_all ask in_server obj w = (Inr (data ?my @ concat (map ?f ?rest)), w)"
    using gather_reads [of "[0..<?n]" ask w data ?my "data ?my"] n
    by (simp add: gather_all_def assms(3))
  moreover have "mset (data ?my @ concat (map ?f ?rest)) = mset (concat (map ?f [0..<?n]))"
    using concat_map_insert [of "unat ?my" "[0..<?n]" ?f] n by simp
  ultimately show ?thesis by blast
qed

lemma run_local_read: "snd (f (w i)) = w i \<Longrightarrow> run_local f i w = (Inr (fst (f (w i))), w)"
  by (simp add: run_local_def split_beta)

lemma gather_all_servers:
  assumes "joined n p reg (E, obj)" and "answers reg (p @ funcname) args as_ret f"
    and "\<forall>i. snd (f (w i)) = w i"
    and "in_server w = run_local f (obj_my_server obj) w"
  shows "\<exists>xs.
    gather_all (\<lambda>i. RPC_CALL_WRAPPER E (obj_rpc obj) (obj_func_prefix obj) funcname i as_ret args)
      in_server obj w = (Inr xs, w) \<and>
    mset xs = mset (concat (map (\<lambda>i. fst (f (w (word_of_nat i)))) [0..<n]))"
proof -
  have f: "run_local f i w = (Inr (fst (f (w i))), w)" for i
    by (rule run_local_read) (simp add: assms(3))
  have ask: "RPC_CALL_WRAPPER E (obj_rpc obj) (obj_func_prefix obj) funcname i as_ret args w
      = (Inr (fst (f (w i))), w)" if "unat i < n_servers obj" for i
    using call_runs_home [OF assms(1,2)] that joinedD(3) [OF assms(1)] f by simp
  have here: "in_server w = (Inr (fst (f (w (obj_my_server obj)))), w)"
    using assms(4) f by simp
  show ?thesis
    using gather_all_reads [of obj
        "\<lambda>i. RPC_CALL_WRAPPER E (obj_rpc obj) (obj_func_prefix obj) funcname i as_ret args"
        w "\<lambda>i. fst (f (w i))" in_server]
      ask here joinedD(1,3) [OF assms(1)] by simp
qed

subsection \<open>Properties of construction\<close>

lemma new_container_Inr:
  assumes "new_container B files mpi nam (cfg, rpcs) = Inr (obj, cfg', rpcs')"
  shows "obj_num_servers obj = NUM_SERVERS cfg" "obj_my_server obj = MY_SERVER cfg"
    "obj_is_server obj = IS_SERVER cfg" "obj_server_on_node obj = SERVER_ON_NODE cfg"
    "obj_func_prefix obj = nam"
    "obj_name obj = nam @ ''_'' @ to_string (uint (MY_SERVER cfg))"
    "obj_backed_file obj = BACKED_FILE_DIR cfg @ path_separator @ nam @ ''_'' @
       to_string (uint (MY_SERVER cfg))"
    "GetRPC B files (RPC_PORT cfg) (cfg, rpcs) = Inr (obj_rpc obj, cfg', rpcs')"
  using assms by (auto simp: new_container_def bind_result_Inr_iff)

lemma GetRPC_fresh:
  assumes "GetRPC B files (RPC_PORT cfg) (cfg, rpcs) = Inr (P, cfg', rpcs')"
    and "rpcs (RPC_PORT cfg) = None"
  shows "server_port P = RPC_PORT cfg"
    and "LoadServers files cfg = Inr (cfg', server_list P)"
proof -
  have new: "RPC_new B files (cfg\<lparr>RPC_PORT := RPC_PORT cfg\<rparr>) = Inr (cfg', P)
      \<or> (\<exists>c. RPC_new B files (cfg\<lparr>RPC_PORT := RPC_PORT cfg\<rparr>) = Inr (c, P) \<and>
             cfg' = c\<lparr>RPC_PORT := RPC_PORT cfg\<rparr>)"
    using assms by (auto simp: GetRPC_def Let_def bind_result_Inr_iff)
  then obtain c where c: "RPC_new B files cfg = Inr (c, P)"
    "cfg' = c\<lparr>RPC_PORT := RPC_PORT cfg\<rparr> \<or> cfg' = c"
    by auto
  note N = RPC_new_Inr [OF c(1)]
  have "c\<lparr>RPC_PORT := RPC_PORT cfg\<rparr> = c"
    using N(3) by (cases c) simp
  then show "server_port P = RPC_PORT cfg"
    "LoadServers files cfg = Inr (cfg', server_list P)"
    using N c(2) by auto
qed

lemma new_container_fresh:
  assumes "new_container B files mpi nam (cfg, rpcs) = Inr (obj, cfg', rpcs')"
    and "rpcs (RPC_PORT cfg) = None"
  shows "server_port (obj_rpc obj) = RPC_PORT cfg"
    and "LoadServers files cfg = Inr (cfg', server_list (obj_rpc obj))"
  using GetRPC_fresh [OF new_container_Inr(8) [OF assms(1)] assms(2)] by blast+

lemma construct_container_new:
  assumes "construct_container B files mpi nam named initial binds st sys
             = Inr (obj, ptr, (cfg', rpcs'), sys')"
  shows "new_container B files mpi nam st = Inr (obj, cfg', rpcs')"
  using assms
  by (auto simp: construct_container_def bind_result_Inr_iff Let_def
      split: prod.splits if_splits option.splits)

lemma configured_consistent:
  assumes "ConfigureDefaultClient files path cfg0 = Inr cfg \<or>
           ConfigureDefaultServer files path cfg0 = Inr cfg"
    and "new_container B files mpi nam (cfg, rpcs) = Inr (obj, cfg', rpcs')"
    and "rpcs (RPC_PORT cfg) = None" "0 \<le> MPI_RANK cfg0" "length (SERVER_LIST cfg) \<le> 65536"
  shows "obj_num_servers obj = int (n_servers obj) \<and> unat (obj_my_server obj) < n_servers obj \<and>
         server_list (obj_rpc obj) = SERVER_LIST cfg"
proof -
  obtain cfg00 cfg1 servers where P: "set_server_list_path path cfg0 = Inr cfg00"
    and L: "LoadServers files cfg00 = Inr (cfg1, servers)"
    using assms(1) by (auto simp: ConfigureDefaultClient_def ConfigureDefaultServer_def
        bind_result_Inr_iff)
  note F = LoadServers_Inr [OF L]
  have rank: "MPI_RANK cfg1 = MPI_RANK cfg0"
    using F(4) set_server_list_path_rank [OF P] by simp
  obtain srv sn where cfg: "NUM_SERVERS cfg1 \<noteq> 0"
    "cfg = cfg1\<lparr>IS_SERVER := srv, MY_SERVER := word_of_int (MPI_RANK cfg0 smod NUM_SERVERS cfg1),
             SERVER_ON_NODE := sn\<rparr>"
    using assms(1) rank
    by (auto simp: ConfigureDefaultClient_def ConfigureDefaultServer_def P L set_my_server_def
        split: if_splits)
  have "LoadServers files cfg = Inr (cfg, servers)"
    unfolding cfg(2) by (rule LoadServers_again [OF L])
  then have l: "server_list (obj_rpc obj) = servers"
    using new_container_fresh(2) [OF assms(2,3)] by simp
  have s: "SERVER_LIST cfg = servers" "NUM_SERVERS cfg = int (length servers)"
    "NUM_SERVERS cfg1 = int (length servers)"
    using F assms(5) by (simp_all add: cfg(2))
  have "unat (MY_SERVER cfg) = nat (MPI_RANK cfg0 mod int (length servers))"
    using unat_word_of_smod [of "MPI_RANK cfg0" "int (length servers)"] assms(4,5) cfg(1) s
    by (simp add: cfg(2))
  moreover have "0 < length servers"
    using cfg(1) s(3) by simp
  ultimately have "unat (MY_SERVER cfg) < length servers"
    by (simp add: nat_less_iff)
  then show ?thesis
    using new_container_Inr(1,2) [OF assms(2)] s l by (simp add: n_servers_def)
qed

definition sample_conf :: "bool \<Rightarrow> config" where
  "sample_conf srv = (ConfigurationManager rpclib_only RPCLIB 7 8)
     \<lparr>SERVER_LIST_PATH := ''list'', SERVER_LIST := [''a'', ''a'', ''b''], NUM_SERVERS := 3,
      IS_SERVER := srv, MY_SERVER := 1\<rparr>"

lemma sample_conf_fields [simp]:
  "IS_SERVER (sample_conf srv) = srv" "SERVER_ON_NODE (sample_conf srv) = True"
  "MY_SERVER (sample_conf srv) = 1"
  "BACKED_FILE_DIR (sample_conf srv) = ''/dev/shm''"
  by (simp_all add: sample_conf_def ConfigurationManager_def)

lemma sample_new_container:
  "\<exists>obj cfg' rpcs'. new_container rpclib_only two_hosts (8, 7) nam (sample_conf srv, Map.empty)
     = Inr (obj, cfg', rpcs')"
  by (simp add: new_container_def GetRPC_def RPC_new_def LoadServers_two_hosts sample_conf_def
      start_server_def compiled_in_def rpclib_only_def Let_def)

text \<open>
  A client on a server's node that constructs the container after the server did, under
  the same name and with the same server index and directory, leads its pointer to the
  structure the server constructed, empty, and changes neither files nor registry.
\<close>
theorem client_attaches_to_server_structure:
  assumes "construct_container B files mpi nam named initial binds (cfg, rpcs) (nod, reg)
             = Inr (obj, ptr, st1, nod1, reg1)" "IS_SERVER cfg"
    and "construct_container B' files' mpi' nam named initial' binds' (cfg', rpcs') (nod1, reg')
             = Inr (cl, ptr', st2, nod2, reg2)" "\<not> IS_SERVER cfg'" "SERVER_ON_NODE cfg'"
    and "MY_SERVER cfg' = MY_SERVER cfg" "BACKED_FILE_DIR cfg' = BACKED_FILE_DIR cfg"
    and "\<And>x y. obj_name x = obj_name y \<Longrightarrow> named x = named y"
  shows "ptr' = ptr \<and> nod2 = nod1 \<and> reg2 = reg' \<and>
         (\<exists>path. ptr = Some path \<and> map_option seg_object (nod2 path) = Some initial)"
proof -
  obtain c1 r1 c2 r2 where st: "st1 = (c1, r1)" "st2 = (c2, r2)" by fastforce
  note S = new_container_Inr [OF construct_container_new [OF assms(1) [unfolded st]]]
  note C = new_container_Inr [OF construct_container_new [OF assms(3) [unfolded st]]]
  have path: "obj_backed_file cl = obj_backed_file obj"
    using S(7) C(7) assms(6,7) by simp
  have nam: "named cl = named obj"
    by (rule assms(8)) (use S(6) C(6) assms(6) in simp)
  have "ptr = Some (obj_backed_file obj)"
    "nod1 = nod(obj_backed_file obj \<mapsto> \<lparr>seg_memory = obj_memory_allocated obj,
       seg_object_name = named obj, seg_object = initial\<rparr>)"
    using assms(1,2) S(3)
    by (auto simp: construct_container_def bind_result_Inr_iff Let_def split: if_splits option.splits)
  moreover have "nod2 = nod1" "reg2 = reg'"
    "nod1 (obj_backed_file obj) = Some seg \<Longrightarrow>
       ptr' = (if seg_object_name seg = named obj then Some (obj_backed_file obj) else None)" for seg
    using assms(3-5) C(3,4) path nam
    by (auto simp: construct_container_def bind_result_Inr_iff Let_def split: if_splits option.splits)
  ultimately show ?thesis by simp
qed

lemma client_attaches_to_server_structure_witness:
  "\<exists>obj st1 nod1 reg1 cl st2.
     construct_container rpclib_only two_hosts (8, 7) ''m'' obj_name (0 :: nat) (\<lambda>_ _ r. r)
       (sample_conf True, Map.empty) (Map.empty, Map.empty :: (nat, nat, nat) registry)
       = Inr (obj, Some (obj_backed_file obj), st1, nod1, reg1) \<and>
     construct_container rpclib_only two_hosts (8, 7) ''m'' obj_name (9 :: nat) (\<lambda>_ _ r. r)
       (sample_conf False, Map.empty) (nod1, Map.empty :: (nat, nat, nat) registry)
       = Inr (cl, Some (obj_backed_file obj), st2, nod1, Map.empty) \<and>
     map_option seg_object (nod1 (obj_backed_file obj)) = Some 0"
proof -
  obtain obj c1 r1 where n1:
    "new_container rpclib_only two_hosts (8, 7) ''m'' (sample_conf True, Map.empty) = Inr (obj, c1, r1)"
    using sample_new_container by blast
  obtain cl c2 r2 where n2:
    "new_container rpclib_only two_hosts (8, 7) ''m'' (sample_conf False, Map.empty) = Inr (cl, c2, r2)"
    using sample_new_container by blast
  note N1 = new_container_Inr [OF n1] and N2 = new_container_Inr [OF n2]
  let ?nod = "[obj_backed_file obj \<mapsto> \<lparr>seg_memory = obj_memory_allocated obj,
      seg_object_name = obj_name obj, seg_object = 0 :: nat\<rparr>]"
  have S: "construct_container rpclib_only two_hosts (8, 7) ''m'' obj_name (0 :: nat) (\<lambda>_ _ r. r)
       (sample_conf True, Map.empty) (Map.empty, Map.empty :: (nat, nat, nat) registry)
       = Inr (obj, Some (obj_backed_file obj), (c1, r1), ?nod, Map.empty)"
    using N1(3) by (simp add: construct_container_def n1 Let_def)
  have "obj_backed_file cl = obj_backed_file obj"
    using N1(7) N2(7) by simp
  then obtain ptr nod2 reg2 where C:
    "construct_container rpclib_only two_hosts (8, 7) ''m'' obj_name (9 :: nat) (\<lambda>_ _ r. r)
       (sample_conf False, Map.empty) (?nod, Map.empty :: (nat, nat, nat) registry)
       = Inr (cl, ptr, (c2, r2), nod2, reg2)"
    using N2(3,4) by (simp add: construct_container_def n2)
  have "ptr = Some (obj_backed_file obj) \<and> nod2 = ?nod \<and> reg2 = Map.empty \<and>
      (\<exists>path. Some (obj_backed_file obj) = Some path \<and> map_option seg_object (nod2 path) = Some 0)"
    by (rule client_attaches_to_server_structure [OF S _ C]) simp_all
  then show ?thesis using S C by auto
qed

text \<open>
  The object's number of servers is the configuration's at the moment of construction; the
  list its calls go through is the one loaded after that. They agree exactly if the
  configuration already had the right number.
\<close>
theorem container_num_servers_before_load:
  assumes "new_container B files mpi nam (cfg, rpcs) = Inr (obj, cfg', rpcs')"
    and "rpcs (RPC_PORT cfg) = None" "n_servers obj < 2 ^ 31"
  shows "obj_num_servers obj = NUM_SERVERS cfg \<and> NUM_SERVERS cfg' = int (n_servers obj) \<and>
         (obj_num_servers obj = int (n_servers obj) \<longleftrightarrow> NUM_SERVERS cfg = NUM_SERVERS cfg')"
  using new_container_Inr(1) [OF assms(1)] LoadServers_Inr(2) [OF new_container_fresh(2) [OF assms(1,2)]]
    assms(3)
  by (simp add: n_servers_def)

lemma container_num_servers_before_load_witness:
  "\<exists>obj cfg' rpcs'.
     new_container rpclib_only two_hosts (8, 7) ''m'' ((sample_conf False)\<lparr>NUM_SERVERS := 1\<rparr>, Map.empty)
       = Inr (obj, cfg', rpcs') \<and> obj_num_servers obj = 1 \<and> n_servers obj = 3"
proof -
  obtain obj cfg' rpcs' where n:
    "new_container rpclib_only two_hosts (8, 7) ''m'' ((sample_conf False)\<lparr>NUM_SERVERS := 1\<rparr>, Map.empty)
       = Inr (obj, cfg', rpcs')" "n_servers obj = 3"
    by (simp add: new_container_def GetRPC_def RPC_new_def LoadServers_two_hosts sample_conf_def
        start_server_def compiled_in_def rpclib_only_def n_servers_def Let_def)
  from container_num_servers_before_load [OF n(1)] n show ?thesis
    by (simp add: sample_conf_def)
qed

text \<open>
  C36: after ConfigureDefaultClient or ConfigureDefaultServer on a list of 1 to 65536 servers,
  a container built over a fresh factory knows as many servers as its calls reach, and its
  own server is one of them.
\<close>
theorem configured_container_consistent:
  assumes "ConfigureDefaultClient files path cfg0 = Inr cfg \<or>
           ConfigureDefaultServer files path cfg0 = Inr cfg"
    and "new_container B files mpi nam (cfg, rpcs) = Inr (obj, cfg', rpcs')"
    and "rpcs (RPC_PORT cfg) = None" "0 \<le> MPI_RANK cfg0" "length (SERVER_LIST cfg) \<le> 65536"
  shows "obj_num_servers obj = int (n_servers obj) \<and> unat (obj_my_server obj) < n_servers obj \<and>
         server_list (obj_rpc obj) = SERVER_LIST cfg"
  by (rule configured_consistent [OF assms])

lemma configured_container_consistent_witness:
  "\<exists>cfg obj cfg' rpcs'.
     ConfigureDefaultClient two_hosts ''list'' (ConfigurationManager rpclib_only RPCLIB 7 8) = Inr cfg \<and>
     new_container rpclib_only two_hosts (8, 7) ''m'' (cfg, Map.empty) = Inr (obj, cfg', rpcs') \<and>
     obj_num_servers obj = int (n_servers obj) \<and> unat (obj_my_server obj) < n_servers obj"
proof -
  let ?cfg = "(sample_conf False)\<lparr>SERVER_ON_NODE := False\<rparr>"
  have c: "ConfigureDefaultClient two_hosts ''list'' (ConfigurationManager rpclib_only RPCLIB 7 8)
      = Inr ?cfg"
    by (simp add: ConfigureDefaultClient_def LoadServers_two_hosts
        set_my_server_def sample_conf_def smod_range ConfigurationManager_def)
  obtain obj cfg' rpcs' where n:
    "new_container rpclib_only two_hosts (8, 7) ''m'' (?cfg, Map.empty) = Inr (obj, cfg', rpcs')"
    by (simp add: new_container_def GetRPC_def RPC_new_def LoadServers_two_hosts sample_conf_def
        start_server_def compiled_in_def rpclib_only_def Let_def)
  have "ConfigureDefaultClient two_hosts ''list'' (ConfigurationManager rpclib_only RPCLIB 7 8)
      = Inr ?cfg \<or>
    ConfigureDefaultServer two_hosts ''list'' (ConfigurationManager rpclib_only RPCLIB 7 8) = Inr ?cfg"
    using c by blast
  from configured_container_consistent [OF this n] show ?thesis
    using c n by (auto simp: sample_conf_def)
qed

end
