(* ===== verification/Partition.thy ===== *)
theory Partition
  imports Container_Object
begin

section \<open>Keyed containers as one map\<close>

text \<open>
  The promise of a keyed container: spread over servers by the hash of the key, it behaves
  as one map. The abstract map, the requests against it and their meaning are defined here.
  The contract a class's local operations have to meet is the locale \<open>keyed_store\<close>. What
  follows for the distributed structure is proved once inside it.
\<close>

subsection \<open>Requests and their meaning\<close>

datatype ('k, 'v) request = PutReq 'k 'v | GetReq 'k | EraseReq 'k

datatype 'v response = PutResp bool | GetResp "bool \<times> 'v" | EraseResp "bool \<times> 'v"

definition found :: "'v \<Rightarrow> 'v option \<Rightarrow> bool \<times> 'v" where
  "found dflt x = (case x of None \<Rightarrow> (False, dflt) | Some v \<Rightarrow> (True, v))"

lemma found_simps [simp]: "found d None = (False, d)" "found d (Some v) = (True, v)"
  by (simp_all add: found_def)

fun spec_request :: "'v \<Rightarrow> ('k, 'v) request \<Rightarrow> ('k \<rightharpoonup> 'v) \<Rightarrow> 'v response \<times> ('k \<rightharpoonup> 'v)" where
  "spec_request dflt (PutReq k v) m = (PutResp True, m(k \<mapsto> v))"
| "spec_request dflt (GetReq k) m = (GetResp (found dflt (m k)), m)"
| "spec_request dflt (EraseReq k) m = (EraseResp (m k \<noteq> None, dflt), m(k := None))"

text \<open>A list of requests, run one after the other; the responses in order.\<close>

fun run_requests :: "('q \<Rightarrow> 'w \<Rightarrow> 'r \<times> 'w) \<Rightarrow> 'q list \<Rightarrow> 'w \<Rightarrow> 'r list \<times> 'w" where
  "run_requests step [] w = ([], w)"
| "run_requests step (q # qs) w =
     (let (r, w1) = step q w; (rs, w2) = run_requests step qs w1 in (r # rs, w2))"

lemma run_simulation:
  assumes "R w a"
    and "\<And>q w a. q \<in> set qs \<Longrightarrow> R w a \<Longrightarrow>
           fst (step q w) = f (fst (spec (g q) a)) \<and> R (snd (step q w)) (snd (spec (g q) a))"
  shows "fst (run_requests step qs w) = map f (fst (run_requests spec (map g qs) a)) \<and>
         R (snd (run_requests step qs w)) (snd (run_requests spec (map g qs) a))"
  using assms
proof (induction qs arbitrary: w a)
  case Nil
  then show ?case by simp
next
  case (Cons q qs)
  obtain r w1 where s: "step q w = (r, w1)" by fastforce
  obtain r' a1 where s': "spec (g q) a = (r', a1)" by fastforce
  have "r = f r'" "R w1 a1"
    using Cons.prems(2) [of q w a] Cons.prems(1) s s' by simp_all
  moreover have "fst (run_requests step qs w1) = map f (fst (run_requests spec (map g qs) a1)) \<and>
      R (snd (run_requests step qs w1)) (snd (run_requests spec (map g qs) a1))"
    by (rule Cons.IH) (use \<open>R w1 a1\<close> Cons.prems(2) in auto)
  ultimately show ?case
    by (simp add: s s' split_beta)
qed

lemma run_requests_append:
  "run_requests step (xs @ ys) w
     = (case run_requests step xs w of (rs, w1) \<Rightarrow>
          case run_requests step ys w1 of (rs', w2) \<Rightarrow> (rs @ rs', w2))"
  by (induction xs arbitrary: w) (simp_all add: split_beta)

lemma run_requests_snoc:
  "run_requests step (qs @ [q]) w
     = (case run_requests step qs w of (rs, w1) \<Rightarrow> case step q w1 of (r, w2) \<Rightarrow> (rs @ [r], w2))"
  by (simp add: run_requests_append split_beta)

definition map_outcome :: "('a \<Rightarrow> 'b) \<Rightarrow> 'a result \<times> 'c world \<Rightarrow> 'b result \<times> 'c world" where
  "map_outcome f out = (map_sum id f (fst out), snd out)"

lemma map_outcome_simps [simp]:
  "map_outcome f (Inr x, w) = (Inr (f x), w)"
  "map_outcome f (Inl e, w) = (Inl e, w)"
  by (simp_all add: map_outcome_def)

text \<open>Operations of a container of keys answer a \<open>bool\<close> where a map answers a pair.\<close>

definition with_unit :: "('c \<Rightarrow> bool \<times> 'c) \<Rightarrow> 'c \<Rightarrow> (bool \<times> unit) \<times> 'c" where
  "with_unit f c = (case f c of (b, c') \<Rightarrow> ((b, ()), c'))"

lemma run_local_with_unit:
  "run_local (with_unit f) i w = map_outcome (\<lambda>b. (b, ())) (run_local f i w)"
  by (simp add: run_local_def with_unit_def split_beta)

lemma map_outcome_comp [simp]: "map_outcome f (map_outcome g out) = map_outcome (f \<circ> g) out"
  by (cases out; cases "fst out") (auto simp: map_outcome_def)

text \<open>A request run as the local operation on the structure of the key's server.\<close>

fun home_request ::
  "('k \<Rightarrow> 'v \<Rightarrow> 'c \<Rightarrow> bool \<times> 'c) \<Rightarrow> ('k \<Rightarrow> 'c \<Rightarrow> (bool \<times> 'v) \<times> 'c) \<Rightarrow>
     ('k \<Rightarrow> 'c \<Rightarrow> (bool \<times> 'v) \<times> 'c) \<Rightarrow> ('k \<Rightarrow> u16) \<Rightarrow> ('k, 'v) request \<Rightarrow> 'c world \<Rightarrow>
     'v response result \<times> 'c world" where
  "home_request lput lget lerase hm (PutReq k v) w = map_outcome PutResp (run_local (lput k v) (hm k) w)"
| "home_request lput lget lerase hm (GetReq k) w = map_outcome GetResp (run_local (lget k) (hm k) w)"
| "home_request lput lget lerase hm (EraseReq k) w = map_outcome EraseResp (run_local (lerase k) (hm k) w)"

text \<open>What \<open>n\<close> calls that each take the first element of a list answer.\<close>

fun pops :: "nat \<Rightarrow> 'k \<Rightarrow> 'k list \<Rightarrow> (bool \<times> 'k) list" where
  "pops 0 dflt ks = []"
| "pops (Suc n) dflt [] = (False, dflt) # pops n dflt []"
| "pops (Suc n) dflt (k # ks) = (True, k) # pops n dflt ks"

subsection \<open>The abstract view\<close>

text \<open>
  The view of a world: what each key's own server maps it to. A world is placed when every
  entry is on the server of its key.
\<close>

definition global_view ::
  "('k \<Rightarrow> u16) \<Rightarrow> ('c \<Rightarrow> 'k \<Rightarrow> 'v option) \<Rightarrow> 'c world \<Rightarrow> 'k \<Rightarrow> 'v option" where
  "global_view hm lookup w k = lookup (w (hm k)) k"

definition placed ::
  "('k \<Rightarrow> u16) \<Rightarrow> ('c \<Rightarrow> 'k \<Rightarrow> 'v option) \<Rightarrow> 'c world \<Rightarrow> bool" where
  "placed hm lookup w \<longleftrightarrow> (\<forall>i k. lookup (w i) k \<noteq> None \<longrightarrow> hm k = i)"

lemma global_view_update:
  assumes "lookup c = (lookup (w (hm k)))(k := x)"
  shows "global_view hm lookup (w(hm k := c)) = (global_view hm lookup w)(k := x)"
  using assms by (auto simp: global_view_def fun_eq_iff)

lemma placed_update:
  assumes "placed hm lookup w" "lookup c = (lookup (w (hm k)))(k := x)"
  shows "placed hm lookup (w(hm k := c))"
  using assms by (auto simp: placed_def split: if_splits)

definition refines ::
  "('k \<Rightarrow> u16) \<Rightarrow> ('c \<Rightarrow> bool) \<Rightarrow> ('c \<Rightarrow> 'k \<Rightarrow> 'v option) \<Rightarrow> 'c world \<Rightarrow> ('k \<rightharpoonup> 'v) \<Rightarrow> bool"
  where
  "refines hm ok lookup w m \<longleftrightarrow>
     (\<forall>i. ok (w i)) \<and> placed hm lookup w \<and> global_view hm lookup w = m"

lemma placed_empty: "(\<And>k. lookup c k = None) \<Longrightarrow> placed hm lookup (\<lambda>_. c)"
  by (simp add: placed_def)

text \<open>
  The union of the data of all servers is the abstract map: of a placed world, the
  concatenation of every server's entries has each key once, with the value of the view.
\<close>

lemma placed_all_data:
  assumes pl: "placed hm lookup w"
    and dom: "\<And>k. unat (hm k) < n"
    and ent: "\<And>i. distinct (map fst (data i)) \<and> map_of (data i) = lookup (w i)"
    and n: "n \<le> 65536"
    and xs: "mset xs = mset (concat (map (\<lambda>i. data (word_of_nat i)) [0..<n]))"
  shows "distinct (map fst xs) \<and> map_of xs = global_view hm lookup w"
proof -
  let ?f = "\<lambda>i. data (word_of_nat i :: u16)"
  have mem: "(k, v) \<in> set (data i) \<longleftrightarrow> lookup (w i) k = Some v" for k v i
    using ent [of i] by (metis map_of_eq_Some_iff)
  have at_home: "j = unat (hm k)" if "(k, v) \<in> set (?f j)" "j < n" for k v j
  proof -
    have "hm k = word_of_nat j"
      using pl that(1) by (auto simp: mem placed_def)
    then show ?thesis
      using that(2) n by (simp add: unat_of_nat)
  qed
  have dist: "m \<le> n \<Longrightarrow> distinct (map fst (concat (map ?f [0..<m])))" for m
  proof (induction m)
    case 0
    then show ?case by simp
  next
    case (Suc m)
    have False if "j < m" "(k, v) \<in> set (?f j)" "(k, u) \<in> set (?f m)" for j k v u
      using at_home [of k v j] at_home [of k u m] that Suc.prems by simp
    then have "fst ` set (concat (map ?f [0..<m])) \<inter> fst ` set (?f m) = {}"
      by fastforce
    with Suc ent [of "word_of_nat m"] show ?case by simp
  qed
  have d: "distinct (map fst xs)"
    using dist [of n] xs by (metis le_refl mset_eq_imp_distinct_iff mset_map)
  have "set xs = set (concat (map ?f [0..<n]))"
    using xs by (rule mset_eq_setD)
  then have "(k, v) \<in> set xs \<longleftrightarrow> (\<exists>j<n. (k, v) \<in> set (?f j))" for k v
    by auto
  also have "(\<exists>j<n. (k, v) \<in> set (?f j)) \<longleftrightarrow> global_view hm lookup w k = Some v" for k v
  proof
    assume "\<exists>j<n. (k, v) \<in> set (?f j)"
    then show "global_view hm lookup w k = Some v"
      using pl unfolding mem global_view_def placed_def by (metis option.distinct(1))
  next
    assume "global_view hm lookup w k = Some v"
    then have "(k, v) \<in> set (?f (unat (hm k)))"
      by (simp add: mem global_view_def)
    then show "\<exists>j<n. (k, v) \<in> set (?f j)"
      using dom [of k] by blast
  qed
  finally have "map_of xs k = Some v \<longleftrightarrow> global_view hm lookup w k = Some v" for k v
    using d by (metis map_of_eq_Some_iff)
  then have "map_of xs = global_view hm lookup w"
    by (metis not_None_eq option.exhaust ext)
  with d show ?thesis by simp
qed

text \<open>The same for a query that restricts every server's entries to the keys of \<open>P\<close>.\<close>

lemma refines_query:
  assumes "refines hm ok lookup w m" "\<And>k. unat (hm k) < n" "n \<le> 65536"
    and "\<And>i. distinct (map fst (data i)) \<and>
               map_of (data i) = (\<lambda>k. if P k then lookup (w i) k else None)"
    and "mset xs = mset (concat (map (\<lambda>i. data (word_of_nat i)) [0..<n]))"
  shows "distinct (map fst xs) \<and> map_of xs = (\<lambda>k. if P k then m k else None)"
proof -
  let ?lookup = "\<lambda>c k. if P k then lookup c k else None"
  have "placed hm ?lookup w"
    using assms(1) by (auto simp: refines_def placed_def split: if_splits)
  then have "distinct (map fst xs) \<and> map_of xs = global_view hm ?lookup w"
    by (rule placed_all_data [where data = data and n = n]) (use assms(2-5) in auto)
  then show ?thesis
    using assms(1) by (auto simp: refines_def global_view_def fun_eq_iff)
qed

lemma gather_refines_via:
  fixes g :: "'a \<Rightarrow> 'k \<times> 'v"
  assumes J: "joined n p reg (E, obj)" and "answers reg (p @ funcname) args as_ret f"
    and "in_server w = run_local f (obj_my_server obj) w"
    and R: "refines (\<lambda>k. home n (h k)) ok lookup w m"
    and "\<And>c. snd (f c) = c"
    and data: "\<And>i. ok (w i) \<Longrightarrow> distinct (map fst (map g (fst (f (w i))))) \<and>
          map_of (map g (fst (f (w i)))) = (\<lambda>k. if P k then lookup (w i) k else None)"
  shows "\<exists>xs.
    gather_all (\<lambda>i. RPC_CALL_WRAPPER E (obj_rpc obj) (obj_func_prefix obj) funcname i as_ret args)
      in_server obj w = (Inr xs, w) \<and>
    distinct (map fst (map g xs)) \<and> map_of (map g xs) = (\<lambda>k. if P k then m k else None)"
proof -
  have "distinct (map fst (map g xs)) \<and> map_of (map g xs) = (\<lambda>k. if P k then m k else None)"
    if "mset xs = mset (concat (map (\<lambda>i. fst (f (w (word_of_nat i)))) [0..<n]))" for xs
  proof (rule refines_query [OF R])
    have "mset (map g xs) = mset (map g (concat (map (\<lambda>i. fst (f (w (word_of_nat i)))) [0..<n])))"
      using that by (metis mset_map)
    then show "mset (map g xs)
        = mset (concat (map (\<lambda>i. map g (fst (f (w (word_of_nat i))))) [0..<n]))"
      by (simp add: map_concat comp_def)
  qed (use R data joinedD(5,6) [OF J] in \<open>auto simp: refines_def unat_home\<close>)
  then show ?thesis
    using gather_all_servers [OF assms(1,2), of w in_server] assms(3,5) by blast
qed

lemmas gather_refines = gather_refines_via [where g = id, simplified]

text \<open>For a container of keys the values are of type \<open>unit\<close>.\<close>

lemma map_of_unit: "map_of (map (\<lambda>k. (k, ())) ks) = (\<lambda>k. if k \<in> set ks then Some () else None)"
  by (induction ks) (auto simp: fun_eq_iff)

lemma not_Some_unit: "x \<noteq> Some () \<longleftrightarrow> x = None"
  by (cases x) auto

lemma gather_refines_keys:
  fixes m :: "'k \<Rightarrow> unit option"
  assumes "joined n p reg (E, obj)" "answers reg (p @ funcname) args as_ret f"
    and "in_server w = run_local f (obj_my_server obj) w"
    and "refines (\<lambda>k. home n (h k)) ok lookup w m"
    and "\<And>c. snd (f c) = c"
    and "\<And>i. ok (w i) \<Longrightarrow> distinct (fst (f (w i))) \<and>
          (\<forall>k. k \<in> set (fst (f (w i))) \<longleftrightarrow> P k \<and> lookup (w i) k \<noteq> None)"
  shows "\<exists>xs.
    gather_all (\<lambda>i. RPC_CALL_WRAPPER E (obj_rpc obj) (obj_func_prefix obj) funcname i as_ret args)
      in_server obj w = (Inr xs, w) \<and> distinct xs \<and> set xs = {k. P k \<and> m k \<noteq> None}"
proof -
  have "\<exists>xs.
    gather_all (\<lambda>i. RPC_CALL_WRAPPER E (obj_rpc obj) (obj_func_prefix obj) funcname i as_ret args)
      in_server obj w = (Inr xs, w) \<and>
    distinct (map fst (map (\<lambda>k. (k, ())) xs)) \<and>
    map_of (map (\<lambda>k. (k, ())) xs) = (\<lambda>k. if P k then m k else None)"
    by (rule gather_refines_via [OF assms(1,2) _ assms(4)])
      (use assms(3,5,6) in \<open>auto simp: map_of_unit comp_def fun_eq_iff not_Some_unit\<close>)
  then show ?thesis
    by (auto simp: map_of_unit comp_def fun_eq_iff split: if_splits)
qed

subsection \<open>The contract of the local operations\<close>

locale keyed_store =
  fixes lput :: "'k \<Rightarrow> 'v \<Rightarrow> 'c \<Rightarrow> bool \<times> 'c"
    and lget :: "'k \<Rightarrow> 'c \<Rightarrow> (bool \<times> 'v) \<times> 'c"
    and lerase :: "'k \<Rightarrow> 'c \<Rightarrow> (bool \<times> 'v) \<times> 'c"
    and lall :: "'c \<Rightarrow> ('k \<times> 'v) list \<times> 'c"
    and lookup :: "'c \<Rightarrow> 'k \<Rightarrow> 'v option"
    and ok :: "'c \<Rightarrow> bool"
    and dflt :: 'v
  assumes put_result: "ok c \<Longrightarrow> fst (lput k v c) = True"
    and put_ok: "ok c \<Longrightarrow> ok (snd (lput k v c))"
    and put_lookup: "ok c \<Longrightarrow> lookup (snd (lput k v c)) = (lookup c)(k \<mapsto> v)"
    and get_eq: "ok c \<Longrightarrow> lget k c = (found dflt (lookup c k), c)"
    and erase_result: "ok c \<Longrightarrow> fst (lerase k c) = (lookup c k \<noteq> None, dflt)"
    and erase_ok: "ok c \<Longrightarrow> ok (snd (lerase k c))"
    and erase_lookup: "ok c \<Longrightarrow> lookup (snd (lerase k c)) = (lookup c)(k := None)"
    and all_state: "ok c \<Longrightarrow> snd (lall c) = c"
    and all_distinct: "ok c \<Longrightarrow> distinct (map fst (fst (lall c)))"
    and all_lookup: "ok c \<Longrightarrow> map_of (fst (lall c)) = lookup c"
begin

lemma refines_update:
  assumes "refines hm ok lookup w m" "ok c" "lookup c = (lookup (w (hm k)))(k := x)"
  shows "refines hm ok lookup (w(hm k := c)) (m(k := x))"
  using assms placed_update [of hm lookup w c k x] global_view_update [of lookup c w hm k x]
  by (auto simp: refines_def)

lemma request_refines:
  assumes "refines hm ok lookup w m"
  shows "fst (home_request lput lget lerase hm q w) = Inr (fst (spec_request dflt q m)) \<and>
         refines hm ok lookup (snd (home_request lput lget lerase hm q w)) (snd (spec_request dflt q m))"
proof -
  have ok: "ok (w i)" for i
    using assms by (simp add: refines_def)
  have m: "lookup (w (hm k)) k = m k" for k
    using assms by (auto simp: refines_def global_view_def)
  show ?thesis
  proof (cases q)
    case (PutReq k v)
    show ?thesis
      using put_result [OF ok, of k v "hm k"] put_lookup [OF ok, of k v "hm k"]
        put_ok [OF ok, of k v "hm k"] refines_update [OF assms]
      by (simp add: PutReq run_local_def split_beta)
  next
    case (GetReq k)
    show ?thesis
      using assms by (simp add: GetReq run_local_def get_eq [OF ok] m)
  next
    case (EraseReq k)
    show ?thesis
      using erase_result [OF ok, of k "hm k"] erase_lookup [OF ok, of k "hm k"]
        erase_ok [OF ok, of k "hm k"] refines_update [OF assms]
      by (simp add: EraseReq run_local_def split_beta m)
  qed
qed

lemma requests_refine:
  assumes "refines hm ok lookup w m"
    and "\<And>q w. q \<in> set qs \<Longrightarrow> step q w = home_request lput lget lerase hm (g q) w"
  shows "fst (run_requests step qs w)
           = map Inr (fst (run_requests (spec_request dflt) (map g qs) m)) \<and>
         refines hm ok lookup (snd (run_requests step qs w))
           (snd (run_requests (spec_request dflt) (map g qs) m))"
  by (rule run_simulation [where R = "refines hm ok lookup", OF assms(1)])
    (use assms(2) request_refines in simp)

lemma refines_empty:
  "ok c \<Longrightarrow> lookup c = (\<lambda>_. None) \<Longrightarrow> refines hm ok lookup (\<lambda>_. c) (\<lambda>_. None)"
  by (simp add: refines_def placed_empty global_view_def fun_eq_iff)

lemma all_data_refines:
  assumes "refines hm ok lookup w m" "\<And>k. unat (hm k) < n" "n \<le> 65536"
    and "mset xs = mset (concat (map (\<lambda>i. fst (lall (w (word_of_nat i)))) [0..<n]))"
  shows "distinct (map fst xs) \<and> map_of xs = m"
proof -
  have "ok (w i)" for i
    using assms(1) by (simp add: refines_def)
  then show ?thesis
    using refines_query [OF assms(1-3), of "\<lambda>i. fst (lall (w i))" "\<lambda>_. True" xs] assms(4)
    by (simp add: all_distinct all_lookup)
qed

end

end
