(* ===== verification/Container_Lib.thy ===== *)
theory Container_Lib
  imports Basket_Prelude
begin

section \<open>The containers of Boost the library builds on\<close>

text \<open>
  \<open>boost::interprocess::set\<close>, \<open>map\<close>, \<open>multimap\<close> and \<open>boost::unordered_map\<close> are not part of
  the repository. Each appears as a record of the operations the sources call, an argument
  of the definitions that use it. What the sources rely on is stated as locales: the
  documented behaviour of ordered and hashed associative containers. The end of the theory
  shows that lists kept in order meet the contracts.
\<close>

subsection \<open>Iterators\<close>

text \<open>
  An iterator of a container is a position in its iteration sequence: the elements before
  it, nearest first, and the elements from it on. \<open>begin()\<close> has nothing before it, \<open>end()\<close>
  nothing from it on. Comparing with \<open>begin()\<close> or \<open>end()\<close> and dereferencing are matches on
  the two lists.
\<close>

type_synonym 'e iter = "'e list \<times> 'e list"

definition iter_next :: "'e iter \<Rightarrow> 'e iter" where
  "iter_next it = (case it of (bs, e # as) \<Rightarrow> (e # bs, as) | (bs, []) \<Rightarrow> (bs, []))"

definition iter_prev :: "'e iter \<Rightarrow> 'e iter" where
  "iter_prev it = (case it of (b # bs, as) \<Rightarrow> (bs, b # as) | ([], as) \<Rightarrow> ([], as))"

lemma iter_next_Cons [simp, termination_simp]: "iter_next (bs, e # as) = (e # bs, as)"
  by (simp add: iter_next_def)

lemma iter_next_prev [simp]: "iter_next (iter_prev (b # bs, as)) = (b # bs, as)"
  by (simp add: iter_next_def iter_prev_def)

text \<open>
  The loop that walks an iterator to \<open>end()\<close> and appends each element to the result until
  \<open>brk\<close> holds of one: \<open>while (it != end()) { if (brk(*it)) break; push_back(*it); it++; }\<close>.
\<close>

fun scan_loop :: "('e \<Rightarrow> bool) \<Rightarrow> 'e iter \<Rightarrow> 'e list \<Rightarrow> 'e list" where
  "scan_loop brk (bs, []) final_values = final_values"
| "scan_loop brk (bs, e # as) final_values =
     (if brk e then final_values
      else scan_loop brk (iter_next (bs, e # as)) (final_values @ [e]))"

lemma scan_loop_eq: "scan_loop brk it acc = acc @ takeWhile (\<lambda>e. \<not> brk e) (snd it)"
  by (induction brk it acc rule: scan_loop.induct) auto

lemma scan_loop_all: "scan_loop (\<lambda>_. False) it acc = acc @ snd it"
  by (simp add: scan_loop_eq takeWhile_eq_all_conv [THEN iffD2])

text \<open>
  The step back of the range queries:
  \<open>if (it != begin()) { --it; if (past(*it)) it++; }\<close>.
\<close>

definition step_back :: "('e \<Rightarrow> bool) \<Rightarrow> 'e iter \<Rightarrow> 'e iter" where
  "step_back past it =
     (case it of
        ([], _) \<Rightarrow> it
      | (b # _, _) \<Rightarrow> if past b then iter_next (iter_prev it) else iter_prev it)"

subsection \<open>Ordered containers\<close>

text \<open>
  What the sources call on a \<open>set\<close>, a \<open>map\<close> or a \<open>multimap\<close>. \<open>erase\<close> by key returns the
  number of elements it removed. Elements carry their key: the whole element of a set, the
  first component of a map's entry.
\<close>

record ('k, 'e, 'c) tree_lib =
  tl_empty :: "'c"
  tl_size :: "'c \<Rightarrow> nat"
  tl_begin :: "'c \<Rightarrow> 'e iter"
  tl_find :: "'k \<Rightarrow> 'c \<Rightarrow> 'e iter"
  tl_lower_bound :: "'k \<Rightarrow> 'c \<Rightarrow> 'e iter"
  tl_insert :: "'e \<Rightarrow> 'c \<Rightarrow> 'c"
  tl_insert_or_assign :: "'e \<Rightarrow> 'c \<Rightarrow> 'c"
  tl_erase :: "'k \<Rightarrow> 'c \<Rightarrow> 'c \<times> nat"
  tl_erase_at :: "'e iter \<Rightarrow> 'c \<Rightarrow> 'c"

definition elems :: "('k, 'e, 'c) tree_lib \<Rightarrow> 'c \<Rightarrow> 'e list" where
  "elems L c = snd (tl_begin L c)"

locale tree_container =
  fixes L :: "('k, 'e, 'c) tree_lib"
    and lt :: "'k \<Rightarrow> 'k \<Rightarrow> bool"
    and key :: "'e \<Rightarrow> 'k"
    and ok :: "'c \<Rightarrow> bool"
  assumes order: "strict_order lt"
    and ok_empty: "ok (tl_empty L)"
    and begin_empty: "tl_begin L (tl_empty L) = ([], [])"
    and begin_front: "ok c \<Longrightarrow> fst (tl_begin L c) = []"
    and ascending: "ok c \<Longrightarrow> sorted_wrt (\<lambda>a b. \<not> lt (key b) (key a)) (elems L c)"
    and size_elems: "ok c \<Longrightarrow> tl_size L c = length (elems L c)"
    and find_split: "ok c \<Longrightarrow> tl_find L k c = (bs, as) \<Longrightarrow> elems L c = rev bs @ as"
    and find_end: "ok c \<Longrightarrow> tl_find L k c = (bs, []) \<Longrightarrow> k \<notin> key ` set (elems L c)"
    and find_here: "ok c \<Longrightarrow> tl_find L k c = (bs, e # as) \<Longrightarrow> key e = k"
    and lower_bound_split:
      "ok c \<Longrightarrow> tl_lower_bound L k c = (bs, as) \<Longrightarrow>
         elems L c = rev bs @ as \<and> (\<forall>e \<in> set bs. lt (key e) k) \<and> (\<forall>e \<in> set as. \<not> lt (key e) k)"
    and ok_erase: "ok c \<Longrightarrow> ok (fst (tl_erase L k c))"
    and elems_erase:
      "ok c \<Longrightarrow> elems L (fst (tl_erase L k c)) = filter (\<lambda>e. key e \<noteq> k) (elems L c)"
    and count_erase:
      "ok c \<Longrightarrow> snd (tl_erase L k c) = length (filter (\<lambda>e. key e = k) (elems L c))"
    and ok_erase_at: "ok c \<Longrightarrow> elems L c = rev bs @ e # as \<Longrightarrow> ok (tl_erase_at L (bs, e # as) c)"
    and elems_erase_at:
      "ok c \<Longrightarrow> elems L c = rev bs @ e # as \<Longrightarrow>
         elems L (tl_erase_at L (bs, e # as) c) = rev bs @ as"
begin

lemma begin_eq: "ok c \<Longrightarrow> tl_begin L c = ([], elems L c)"
  using begin_front by (simp add: elems_def prod_eq_iff)

lemma elems_empty [simp]: "elems L (tl_empty L) = []"
  by (simp add: elems_def begin_empty)

lemma takeWhile_upto:
  "sorted_wrt (\<lambda>a b. \<not> lt (key b) (key a)) as \<Longrightarrow>
     takeWhile (\<lambda>e. \<not> lt hi (key e)) as = filter (\<lambda>e. \<not> lt hi (key e)) as"
proof (induction as)
  case Nil
  then show ?case by simp
next
  case (Cons a as)
  have "lt hi (key e)" if "lt hi (key a)" "e \<in> set as" for e
    using Cons.prems that strict_orderD(2,3) [OF order] by (metis list.set_intros(2) sorted_wrt.simps(2))
  with Cons show ?case by (auto simp: filter_empty_conv)
qed

text \<open>
  The range query of the ordered containers: \<open>lower_bound\<close>, the step back and the scan
  deliver exactly the elements between the two bounds, both included, in order.
\<close>

lemma range_scan:
  assumes "ok c" and gt: "\<And>a b. gt a b \<longleftrightarrow> lt b a"
  shows "scan_loop (\<lambda>e. gt (key e) hi)
           (step_back (\<lambda>e. gt lo (key e)) (tl_lower_bound L lo c)) []
         = filter (\<lambda>e. \<not> lt (key e) lo \<and> \<not> lt hi (key e)) (elems L c)"
proof -
  obtain bs as where lb: "tl_lower_bound L lo c = (bs, as)"
    by fastforce
  note split = lower_bound_split [OF assms(1) lb]
  have stay: "step_back (\<lambda>e. gt lo (key e)) (bs, as) = (bs, as)"
    using split by (auto simp: step_back_def gt iter_prev_def iter_next_def split: list.splits)
  have asc: "sorted_wrt (\<lambda>a b. \<not> lt (key b) (key a)) as"
    using ascending [OF assms(1)] split by (simp add: sorted_wrt_append)
  have "filter (\<lambda>e. \<not> lt (key e) lo \<and> \<not> lt hi (key e)) (elems L c)
      = filter (\<lambda>e. \<not> lt hi (key e)) as"
    using split by (auto simp: filter_empty_conv intro: filter_cong)
  then show ?thesis
    unfolding lb stay by (simp add: scan_loop_eq gt takeWhile_upto [OF asc])
qed

lemma lower_bound_end:
  assumes "ok c" "tl_lower_bound L lo c = (bs, [])"
  shows "filter (\<lambda>e. \<not> lt (key e) lo \<and> P e) (elems L c) = []"
  using lower_bound_split [OF assms] by (auto simp: filter_empty_conv)

lemma find_cases:
  assumes "ok c"
  obtains (missing) bs where "tl_find L k c = (bs, [])" "k \<notin> key ` set (elems L c)"
  | (found) bs e as where "tl_find L k c = (bs, e # as)" "key e = k" "elems L c = rev bs @ e # as"
proof -
  obtain bs as where f: "tl_find L k c = (bs, as)" by fastforce
  show thesis
  proof (cases as)
    case Nil
    then show ?thesis
      using missing f find_end [OF assms, of k bs] by simp
  next
    case (Cons e as')
    then show ?thesis
      using found f find_here [OF assms, of k bs e as'] find_split [OF assms f] by simp
  qed
qed

lemma count_erase_pos: "ok c \<Longrightarrow> snd (tl_erase L k c) > 0 \<longleftrightarrow> k \<in> key ` set (elems L c)"
  by (auto simp: count_erase filter_empty_conv)

end

text \<open>A \<open>set\<close>: keys are unique, \<open>insert\<close> adds the key if it is missing.\<close>

locale set_container = tree_container L lt id ok
  for L :: "('k, 'k, 'c) tree_lib" and lt and ok +
  assumes strictly_ascending: "ok c \<Longrightarrow> sorted_wrt lt (elems L c)"
    and ok_insert: "ok c \<Longrightarrow> ok (tl_insert L k c)"
    and set_elems_insert: "ok c \<Longrightarrow> set (elems L (tl_insert L k c)) = insert k (set (elems L c))"

text \<open>A \<open>map\<close>: keys are unique, \<open>insert_or_assign\<close> sets the value of the key.\<close>

locale map_container = tree_container L lt fst ok
  for L :: "('k, 'k \<times> 'v, 'c) tree_lib" and lt and ok +
  assumes keys_ascending: "ok c \<Longrightarrow> sorted_wrt lt (map fst (elems L c))"
    and ok_assign: "ok c \<Longrightarrow> ok (tl_insert_or_assign L (k, v) c)"
    and map_of_assign:
      "ok c \<Longrightarrow> map_of (elems L (tl_insert_or_assign L (k, v) c)) = (map_of (elems L c))(k \<mapsto> v)"

text \<open>A \<open>multimap\<close>: keys may repeat, \<open>insert\<close> always adds the entry.\<close>

locale multimap_container = tree_container L lt fst ok
  for L :: "('k, 'k \<times> 'v, 'c) tree_lib" and lt and ok +
  assumes ok_insert_multi: "ok c \<Longrightarrow> ok (tl_insert L (k, v) c)"
    and mset_elems_insert: "ok c \<Longrightarrow> mset (elems L (tl_insert L (k, v) c)) = add_mset (k, v) (mset (elems L c))"

subsection \<open>Hashed containers\<close>

record ('k, 'v, 'c) hash_lib =
  hl_empty :: "'c"
  hl_size :: "'c \<Rightarrow> nat"
  hl_begin :: "'c \<Rightarrow> ('k \<times> 'v) iter"
  hl_find :: "'k \<Rightarrow> 'c \<Rightarrow> ('k \<times> 'v) iter"
  hl_insert_or_assign :: "'k \<Rightarrow> 'v \<Rightarrow> 'c \<Rightarrow> 'c"
  hl_erase :: "'k \<Rightarrow> 'c \<Rightarrow> 'c \<times> nat"

definition entries :: "('k, 'v, 'c) hash_lib \<Rightarrow> 'c \<Rightarrow> ('k \<times> 'v) list" where
  "entries H c = snd (hl_begin H c)"

text \<open>
  The iteration order of a hashed container is not specified; its keys are unique, and
  \<open>map_of\<close> of its iteration sequence is what it maps.
\<close>

locale hash_container =
  fixes H :: "('k, 'v, 'c) hash_lib"
    and ok :: "'c \<Rightarrow> bool"
  assumes ok_hl_empty: "ok (hl_empty H)"
    and hl_begin_empty: "hl_begin H (hl_empty H) = ([], [])"
    and hl_begin_front: "ok c \<Longrightarrow> fst (hl_begin H c) = []"
    and hl_size_entries: "ok c \<Longrightarrow> hl_size H c = length (entries H c)"
    and distinct_keys: "ok c \<Longrightarrow> distinct (map fst (entries H c))"
    and hl_find_split: "ok c \<Longrightarrow> hl_find H k c = (bs, as) \<Longrightarrow> entries H c = rev bs @ as"
    and hl_find_end: "ok c \<Longrightarrow> hl_find H k c = (bs, []) \<Longrightarrow> k \<notin> fst ` set (entries H c)"
    and hl_find_here: "ok c \<Longrightarrow> hl_find H k c = (bs, e # as) \<Longrightarrow> fst e = k"
    and ok_hl_assign: "ok c \<Longrightarrow> ok (hl_insert_or_assign H k v c)"
    and map_of_hl_assign:
      "ok c \<Longrightarrow> map_of (entries H (hl_insert_or_assign H k v c)) = (map_of (entries H c))(k \<mapsto> v)"
    and ok_hl_erase: "ok c \<Longrightarrow> ok (fst (hl_erase H k c))"
    and map_of_hl_erase:
      "ok c \<Longrightarrow> map_of (entries H (fst (hl_erase H k c))) = (map_of (entries H c))(k := None)"
    and count_hl_erase:
      "ok c \<Longrightarrow> snd (hl_erase H k c) = length (filter (\<lambda>e. fst e = k) (entries H c))"
begin

lemma hl_begin_eq: "ok c \<Longrightarrow> hl_begin H c = ([], entries H c)"
  using hl_begin_front by (simp add: entries_def prod_eq_iff)

lemma entries_empty [simp]: "entries H (hl_empty H) = []"
  by (simp add: entries_def hl_begin_empty)

lemma hl_find_cases:
  assumes "ok c"
  obtains (missing) bs where "hl_find H k c = (bs, [])" "map_of (entries H c) k = None"
  | (found) bs v as where "hl_find H k c = (bs, (k, v) # as)" "map_of (entries H c) k = Some v"
proof -
  obtain bs as where f: "hl_find H k c = (bs, as)" by fastforce
  show thesis
  proof (cases as)
    case Nil
    then show ?thesis
      using missing f hl_find_end [OF assms, of k bs] by (simp add: map_of_eq_None_iff)
  next
    case (Cons e as')
    then have e: "e = (k, snd e)"
      using hl_find_here [OF assms, of k bs e as'] f by (simp add: prod_eq_iff)
    moreover have "(k, snd e) \<in> set (entries H c)"
      using hl_find_split [OF assms f] Cons e by simp
    ultimately show ?thesis
      using found Cons f distinct_keys [OF assms] by (metis map_of_eq_Some_iff)
  qed
qed

lemma count_hl_erase_pos:
  "ok c \<Longrightarrow> snd (hl_erase H k c) > 0 \<longleftrightarrow> map_of (entries H c) k \<noteq> None"
  by (auto simp: count_hl_erase filter_empty_conv map_of_eq_None_iff)

end

end
