(* ===== verification/Container_Ref.thy ===== *)
theory Container_Ref
  imports Container_Lib
begin

section \<open>Lists meet the container contracts\<close>

text \<open>
  Executable containers for the contracts of \<open>Container_Lib\<close>: a list in ascending order of
  its keys is a set, a map or a multimap, a list of entries with distinct keys is a hashed
  map. They show that the contracts can be met, and the closed instances of the properties
  run on them.
\<close>

subsection \<open>Ordered lists\<close>

definition ol_lower_bound :: "('k \<Rightarrow> 'k \<Rightarrow> bool) \<Rightarrow> ('e \<Rightarrow> 'k) \<Rightarrow> 'k \<Rightarrow> 'e list \<Rightarrow> 'e iter" where
  "ol_lower_bound lt key k xs =
     (rev (takeWhile (\<lambda>e. lt (key e) k) xs), dropWhile (\<lambda>e. lt (key e) k) xs)"

definition ol_find :: "('k \<Rightarrow> 'k \<Rightarrow> bool) \<Rightarrow> ('e \<Rightarrow> 'k) \<Rightarrow> 'k \<Rightarrow> 'e list \<Rightarrow> 'e iter" where
  "ol_find lt key k xs =
     (case ol_lower_bound lt key k xs of
        (bs, e # as) \<Rightarrow> if key e = k then (bs, e # as) else (rev xs, [])
      | (bs, []) \<Rightarrow> (rev xs, []))"

definition ol_erase :: "('e \<Rightarrow> 'k) \<Rightarrow> 'k \<Rightarrow> 'e list \<Rightarrow> 'e list \<times> nat" where
  "ol_erase key k xs =
     (filter (\<lambda>e. key e \<noteq> k) xs, length (filter (\<lambda>e. key e = k) xs))"

definition ol_erase_at :: "'e iter \<Rightarrow> 'e list \<Rightarrow> 'e list" where
  "ol_erase_at it xs = (case it of (bs, e # as) \<Rightarrow> rev bs @ as | (bs, []) \<Rightarrow> xs)"

definition ol_insert_new :: "('k \<Rightarrow> 'k \<Rightarrow> bool) \<Rightarrow> ('e \<Rightarrow> 'k) \<Rightarrow> 'e \<Rightarrow> 'e list \<Rightarrow> 'e list" where
  "ol_insert_new lt key x xs =
     (case ol_lower_bound lt key (key x) xs of
        (bs, e # as) \<Rightarrow> if key e = key x then xs else rev bs @ x # e # as
      | (bs, []) \<Rightarrow> rev bs @ [x])"

definition ol_assign :: "('k \<Rightarrow> 'k \<Rightarrow> bool) \<Rightarrow> ('e \<Rightarrow> 'k) \<Rightarrow> 'e \<Rightarrow> 'e list \<Rightarrow> 'e list" where
  "ol_assign lt key x xs =
     (case ol_lower_bound lt key (key x) xs of
        (bs, e # as) \<Rightarrow> if key e = key x then rev bs @ x # as else rev bs @ x # e # as
      | (bs, []) \<Rightarrow> rev bs @ [x])"

definition ol_insert_multi :: "('k \<Rightarrow> 'k \<Rightarrow> bool) \<Rightarrow> ('e \<Rightarrow> 'k) \<Rightarrow> 'e \<Rightarrow> 'e list \<Rightarrow> 'e list" where
  "ol_insert_multi lt key x xs =
     takeWhile (\<lambda>e. \<not> lt (key x) (key e)) xs @ x # dropWhile (\<lambda>e. \<not> lt (key x) (key e)) xs"

definition ol_lib ::
  "('k \<Rightarrow> 'k \<Rightarrow> bool) \<Rightarrow> ('e \<Rightarrow> 'k) \<Rightarrow> ('e \<Rightarrow> 'e list \<Rightarrow> 'e list) \<Rightarrow> ('k, 'e, 'e list) tree_lib"
  where
  "ol_lib lt key ins =
     \<lparr>tl_empty = [], tl_size = length, tl_begin = (\<lambda>xs. ([], xs)), tl_find = ol_find lt key,
      tl_lower_bound = ol_lower_bound lt key, tl_insert = ins,
      tl_insert_or_assign = ol_assign lt key, tl_erase = ol_erase key, tl_erase_at = ol_erase_at\<rparr>"

definition list_set_lib :: "('k \<Rightarrow> 'k \<Rightarrow> bool) \<Rightarrow> ('k, 'k, 'k list) tree_lib" where
  "list_set_lib lt = ol_lib lt id (ol_insert_new lt id)"

definition list_map_lib :: "('k \<Rightarrow> 'k \<Rightarrow> bool) \<Rightarrow> ('k, 'k \<times> 'v, ('k \<times> 'v) list) tree_lib" where
  "list_map_lib lt = ol_lib lt fst (ol_insert_multi lt fst)"

lemmas ol_defs = ol_lib_def elems_def list_set_lib_def list_map_lib_def

lemma ol_elems [simp]: "elems (ol_lib lt key ins) xs = xs"
  by (simp add: ol_defs)

lemma list_lib_elems [simp]:
  "elems (list_set_lib lt) xs = xs" "elems (list_map_lib lt) ys = ys"
  "tl_size (list_set_lib lt) xs = length xs" "tl_size (list_map_lib lt) ys = length ys"
  by (simp_all add: ol_defs)

lemma dropWhile_lt_sorted:
  assumes "strict_order lt" "sorted_wrt (\<lambda>a b. \<not> lt (key b) (key a)) xs"
    and "e \<in> set (dropWhile (\<lambda>e. lt (key e) k) xs)"
  shows "\<not> lt (key e) k"
  using assms(2,3)
proof (induction xs)
  case Nil
  then show ?case by simp
next
  case (Cons a xs)
  show ?case
  proof (cases "lt (key a) k")
    case True
    with Cons show ?thesis by simp
  next
    case False
    with Cons.prems have "e = a \<or> \<not> lt (key e) (key a)" by auto
    then show ?thesis
      using False strict_orderD(2,3) [OF assms(1)] by metis
  qed
qed

lemma ol_lower_bound_split:
  assumes "strict_order lt" "sorted_wrt (\<lambda>a b. \<not> lt (key b) (key a)) xs"
    and "ol_lower_bound lt key k xs = (bs, as)"
  shows "xs = rev bs @ as" and "\<forall>e \<in> set bs. lt (key e) k" and "\<forall>e \<in> set as. \<not> lt (key e) k"
proof -
  have bs: "rev bs = takeWhile (\<lambda>e. lt (key e) k) xs"
    and as: "as = dropWhile (\<lambda>e. lt (key e) k) xs"
    using assms(3) by (auto simp: ol_lower_bound_def)
  show "xs = rev bs @ as"
    by (simp add: bs as)
  have "set bs = set (takeWhile (\<lambda>e. lt (key e) k) xs)"
    unfolding bs [symmetric] by simp
  then show "\<forall>e \<in> set bs. lt (key e) k"
    by (auto dest: set_takeWhileD)
  show "\<forall>e \<in> set as. \<not> lt (key e) k"
    unfolding as by (intro ballI) (rule dropWhile_lt_sorted [OF assms(1,2)])
qed

lemma ol_lower_bound_missing:
  assumes "strict_order lt" "sorted_wrt (\<lambda>a b. \<not> lt (key b) (key a)) xs"
    and "ol_lower_bound lt key k xs = (bs, as)"
    and "as = [] \<or> key (hd as) \<noteq> k"
  shows "k \<notin> key ` set xs"
proof -
  note parts = ol_lower_bound_split [OF assms(1,2,3)]
  have low: "key e \<noteq> k" if "e \<in> set bs" for e
    using parts(2) that strict_orderD(1) [OF assms(1)] by fastforce
  have high: "key e \<noteq> k" if "e \<in> set as" for e
  proof -
    obtain a as' where eq: "as = a # as'"
      using \<open>e \<in> set as\<close> by (cases as) auto
    have "lt k (key a)"
      using parts(3) assms(4) eq strict_orderD(3) [OF assms(1), of "key a" k] by auto
    moreover have "e = a \<or> \<not> lt (key e) (key a)"
      using assms(2) parts(1) that by (auto simp: eq sorted_wrt_append)
    ultimately show ?thesis
      using assms(4) eq strict_orderD(4) [OF assms(1)] by auto
  qed
  show ?thesis
    using low high parts(1) by auto
qed

lemma ol_find_here: "ol_find lt key k xs = (bs, e # as) \<Longrightarrow>
    key e = k \<and> ol_lower_bound lt key k xs = (bs, e # as)"
  by (auto simp: ol_find_def split: prod.splits list.splits if_splits)

lemma ol_find_end:
  assumes "strict_order lt" "sorted_wrt (\<lambda>a b. \<not> lt (key b) (key a)) xs"
    and "ol_find lt key k xs = (bs, [])"
  shows "k \<notin> key ` set xs" and "bs = rev xs"
proof -
  obtain bs' as' where lb: "ol_lower_bound lt key k xs = (bs', as')" by fastforce
  have "as' = [] \<or> key (hd as') \<noteq> k"
    using assms(3) lb by (auto simp: ol_find_def split: list.splits if_splits)
  then show "k \<notin> key ` set xs"
    by (rule ol_lower_bound_missing [OF assms(1,2) lb])
  show "bs = rev xs"
    using assms(3) lb by (auto simp: ol_find_def split: list.splits if_splits)
qed

text \<open>
  The laws all ordered lists share, for any order of the elements that is at least the
  ascending one: it is ascending itself for a multimap, strictly so for a set or a map.
\<close>

lemma ol_tree_container:
  assumes lt: "strict_order lt"
    and R: "\<And>a b. R a b \<Longrightarrow> \<not> lt (key b) (key a)"
  shows "tree_container (ol_lib lt key ins) lt key (sorted_wrt R)"
proof -
  have asc: "sorted_wrt (\<lambda>a b. \<not> lt (key b) (key a)) xs" if "sorted_wrt R xs" for xs
    by (rule sorted_wrt_mono_rel [OF _ that]) (rule R)
  note lb = ol_lower_bound_split [OF lt asc]
  show ?thesis
  proof (unfold_locales, goal_cases)
    case (7 c k bs as)
    show ?case
    proof (cases as)
      case Nil
      then show ?thesis
        using 7 ol_find_end(2) [OF lt asc, of c k bs] by (simp add: ol_defs)
    next
      case (Cons e as')
      then show ?thesis
        using 7 ol_find_here [of lt key k c bs e as'] lb(1) [of c k bs "e # as'"]
        by (simp add: ol_defs)
    qed
  next
    case (8 c k bs)
    then show ?case
      using ol_find_end(1) [OF lt asc, of c k bs] by (simp add: ol_defs)
  next
    case (10 c k bs as)
    then show ?case
      using lb [of c k bs as] by (simp add: ol_defs)
  next
    case (14 c bs e as)
    then show ?case
      by (simp add: ol_defs ol_erase_at_def sorted_wrt_append)
  qed (auto simp: ol_defs lt asc ol_erase_def ol_erase_at_def sorted_wrt_filter
      dest: ol_find_here)
qed

lemma ol_insert_between:
  assumes "strict_order lt" "sorted_wrt (\<lambda>a b. lt (key a) (key b)) xs"
    and "xs = rev bs @ as" "\<forall>e \<in> set bs. lt (key e) (key x)"
    and "\<forall>e \<in> set as. \<not> lt (key e) (key x)" "as = [] \<or> key (hd as) \<noteq> key x"
  shows "sorted_wrt (\<lambda>a b. lt (key a) (key b)) (rev bs @ x # as)"
proof -
  have "lt (key x) (key e)" if "e \<in> set as" for e
  proof -
    obtain a as' where eq: "as = a # as'"
      using \<open>e \<in> set as\<close> by (cases as) auto
    have a: "lt (key x) (key a)"
      using assms(5,6) eq strict_orderD(3) [OF assms(1), of "key a" "key x"] by auto
    have "e = a \<or> lt (key a) (key e)"
      using assms(2,3) that by (auto simp: eq sorted_wrt_append)
    then show ?thesis
      using a strict_orderD(2) [OF assms(1)] by blast
  qed
  then show ?thesis
    using assms(2,3,4) by (auto simp: sorted_wrt_append)
qed

lemma ascending_of_strict:
  assumes "strict_order lt" "sorted_wrt (\<lambda>a b. lt (key a) (key b)) xs"
  shows "sorted_wrt (\<lambda>a b. \<not> lt (key b) (key a)) xs"
  by (rule sorted_wrt_mono_rel [OF _ assms(2)]) (rule strict_orderD(4) [OF assms(1)])

lemma ol_insert_new:
  assumes lt: "strict_order lt" and c: "sorted_wrt (\<lambda>a b. lt (key a) (key b)) c"
    and lb: "ol_lower_bound lt key (key x) c = (bs, as)"
    and new: "as = [] \<or> key (hd as) \<noteq> key x"
  shows "sorted_wrt (\<lambda>a b. lt (key a) (key b)) (rev bs @ x # as)"
  using ol_lower_bound_split [OF lt ascending_of_strict [OF lt c] lb] new
  by (intro ol_insert_between [OF lt c])

lemma list_set_container:
  assumes lt: "strict_order lt"
  shows "set_container (list_set_lib lt) lt (sorted_wrt lt)"
proof (rule set_container.intro)
  show "tree_container (list_set_lib lt) lt id (sorted_wrt lt)"
    unfolding list_set_lib_def
    by (rule ol_tree_container [OF lt]) (simp add: strict_orderD(4) [OF lt])
  have main: "sorted_wrt lt (ol_insert_new lt id k c) \<and>
      set (ol_insert_new lt id k c) = insert k (set c)" if c: "sorted_wrt lt c" for c k
  proof -
    obtain bs as where lb: "ol_lower_bound lt id k c = (bs, as)" by fastforce
    have "c = rev bs @ as"
      using ol_lower_bound_split(1) [where key = id, OF lt _ lb] c
        ascending_of_strict [where key = id, OF lt] by simp
    then show ?thesis
      using ol_insert_new [where key = id, OF lt, of c k bs as] lb c
      by (cases as) (auto simp: ol_insert_new_def)
  qed
  show "set_container_axioms (list_set_lib lt) lt (sorted_wrt lt)"
    by unfold_locales (use main in \<open>auto simp: ol_defs\<close>)
qed

lemma map_of_strict_key:
  assumes lt: "strict_order lt" and c: "sorted_wrt (\<lambda>a b. lt (fst a) (fst b)) (bs @ as)"
    and e: "e \<in> set as"
  shows "fst e \<notin> fst ` set bs"
  using c e strict_orderD(1) [OF lt] by (fastforce simp: sorted_wrt_append)

lemma map_of_assign_split:
  "k \<notin> fst ` set bs \<Longrightarrow> map_of (bs @ (k, v) # as) = (map_of (bs @ as))(k \<mapsto> v)"
  by (induction bs) (auto simp: fun_eq_iff)

lemma map_of_replace_split:
  "k \<notin> fst ` set bs \<Longrightarrow> map_of (bs @ (k, v) # as) = (map_of (bs @ (k, w) # as))(k \<mapsto> v)"
  by (induction bs) (auto simp: fun_eq_iff)

lemma ol_assign_laws:
  assumes lt: "strict_order lt" and c: "sorted_wrt (\<lambda>a b. lt (fst a) (fst b)) c"
  shows "sorted_wrt (\<lambda>a b. lt (fst a) (fst b)) (ol_assign lt fst (k, v) c)"
    and "map_of (ol_assign lt fst (k, v) c) = (map_of c)(k \<mapsto> v)"
proof -
  note asc = ascending_of_strict [OF lt c]
  obtain bs as where lb: "ol_lower_bound lt fst k c = (bs, as)" by fastforce
  have lb': "ol_lower_bound lt fst (fst (k, v)) c = (bs, as)" using lb by simp
  note c_eq = ol_lower_bound_split(1) [OF lt asc lb]
  have goal: "sorted_wrt (\<lambda>a b. lt (fst a) (fst b)) (ol_assign lt fst (k, v) c) \<and>
      map_of (ol_assign lt fst (k, v) c) = (map_of c)(k \<mapsto> v)"
  proof (cases "as = [] \<or> fst (hd as) \<noteq> k")
    case True
    have eq: "ol_assign lt fst (k, v) c = rev bs @ (k, v) # as"
      using True lb by (cases as) (auto simp: ol_assign_def)
    have "k \<notin> fst ` set (rev bs @ as)"
      using ol_lower_bound_missing [OF lt asc lb True] by (simp add: c_eq)
    moreover have "sorted_wrt (\<lambda>a b. lt (fst a) (fst b)) (rev bs @ (k, v) # as)"
      by (rule ol_insert_new [OF lt c lb']) (use True in simp)
    ultimately show ?thesis
      unfolding eq by (simp add: c_eq image_Un map_of_assign_split del: map_of_append)
  next
    case False
    then obtain w as' where as: "as = (k, w) # as'" by (cases as) auto
    have eq: "ol_assign lt fst (k, v) c = rev bs @ (k, v) # as'"
      using lb by (simp add: ol_assign_def as)
    have c': "c = rev bs @ (k, w) # as'" by (simp add: c_eq as)
    have "sorted_wrt (\<lambda>a b. lt (fst a) (fst b)) (rev bs @ (k, v) # as')"
      using c by (simp add: c' sorted_wrt_append)
    moreover have "k \<notin> fst ` set (rev bs)"
      using map_of_strict_key [OF lt, of "rev bs" "(k, w) # as'" "(k, w)"] c by (simp add: c')
    ultimately show ?thesis
      using map_of_replace_split [of k "rev bs" v as' w]
      unfolding eq by (simp add: c' del: map_of_append)
  qed
  show "sorted_wrt (\<lambda>a b. lt (fst a) (fst b)) (ol_assign lt fst (k, v) c)"
    and "map_of (ol_assign lt fst (k, v) c) = (map_of c)(k \<mapsto> v)"
    using goal by blast+
qed

lemma list_map_container:
  assumes lt: "strict_order lt"
  shows "map_container (list_map_lib lt) lt (sorted_wrt (\<lambda>a b. lt (fst a) (fst b)))"
proof (rule map_container.intro)
  show "tree_container (list_map_lib lt) lt fst (sorted_wrt (\<lambda>a b. lt (fst a) (fst b)))"
    unfolding list_map_lib_def
    by (rule ol_tree_container [OF lt]) (simp add: strict_orderD(4) [OF lt])
  show "map_container_axioms (list_map_lib lt) lt (sorted_wrt (\<lambda>a b. lt (fst a) (fst b)))"
    by unfold_locales (use ol_assign_laws [OF lt] in \<open>auto simp: ol_defs sorted_wrt_map\<close>)
qed

lemma ol_insert_multi_ascending:
  assumes lt: "strict_order lt" and c: "sorted_wrt (\<lambda>a b. \<not> lt (key b) (key a)) c"
  shows "sorted_wrt (\<lambda>a b. \<not> lt (key b) (key a)) (ol_insert_multi lt key x c)"
proof -
  define bs as where "bs = takeWhile (\<lambda>e. \<not> lt (key x) (key e)) c"
    and "as = dropWhile (\<lambda>e. \<not> lt (key x) (key e)) c"
  have low: "\<forall>e \<in> set bs. \<not> lt (key x) (key e)"
    by (auto simp: bs_def dest: set_takeWhileD)
  have c': "sorted_wrt (\<lambda>a b. \<not> lt (key b) (key a)) (bs @ as)"
    using c by (simp add: bs_def as_def)
  have first: "as = a # as' \<Longrightarrow> lt (key x) (key a)" for a as'
    using hd_dropWhile [of "\<lambda>e. \<not> lt (key x) (key e)" c] by (simp add: as_def)
  have high: "\<not> lt (key e) (key x)" if e: "e \<in> set as" for e
  proof -
    obtain a as' where eq: "as = a # as'"
      using e by (cases as) auto
    have "e = a \<or> \<not> lt (key e) (key a)"
      using c' e by (auto simp: eq sorted_wrt_append)
    then show ?thesis
      using first [OF eq] strict_orderD(2,4) [OF lt] by metis
  qed
  have "ol_insert_multi lt key x c = bs @ x # as"
    by (simp add: ol_insert_multi_def bs_def as_def)
  then show ?thesis
    using low high c' by (auto simp: sorted_wrt_append)
qed

lemma mset_ol_insert_multi: "mset (ol_insert_multi lt key x c) = add_mset x (mset c)"
  by (simp add: ol_insert_multi_def) (metis mset_append takeWhile_dropWhile_id)

lemma list_multimap_container:
  assumes lt: "strict_order lt"
  shows "multimap_container (list_map_lib lt) lt (sorted_wrt (\<lambda>a b. \<not> lt (fst b) (fst a)))"
proof (rule multimap_container.intro)
  show "tree_container (list_map_lib lt) lt fst (sorted_wrt (\<lambda>a b. \<not> lt (fst b) (fst a)))"
    unfolding list_map_lib_def by (rule ol_tree_container [OF lt])
  show "multimap_container_axioms (list_map_lib lt) (sorted_wrt (\<lambda>a b. \<not> lt (fst b) (fst a)))"
    by unfold_locales
      (simp_all add: ol_defs ol_insert_multi_ascending [OF lt] mset_ol_insert_multi)
qed

interpretation list_set: set_container
  "list_set_lib ((<) :: 'k::linorder \<Rightarrow> 'k \<Rightarrow> bool)" "(<)" "sorted_wrt (<)"
  by (rule list_set_container [OF strict_order_less])

interpretation list_map: map_container
  "list_map_lib ((<) :: 'k::linorder \<Rightarrow> 'k \<Rightarrow> bool)" "(<)" "sorted_wrt (\<lambda>a b. fst a < fst b)"
  by (rule list_map_container [OF strict_order_less])

interpretation list_multimap: multimap_container
  "list_map_lib ((<) :: 'k::linorder \<Rightarrow> 'k \<Rightarrow> bool)" "(<)" "sorted_wrt (\<lambda>a b. \<not> fst b < fst a)"
  by (rule list_multimap_container [OF strict_order_less])

subsection \<open>Association lists\<close>

definition al_find :: "'k \<Rightarrow> ('k \<times> 'v) list \<Rightarrow> ('k \<times> 'v) iter" where
  "al_find k xs = (rev (takeWhile (\<lambda>e. fst e \<noteq> k) xs), dropWhile (\<lambda>e. fst e \<noteq> k) xs)"

definition al_assign :: "'k \<Rightarrow> 'v \<Rightarrow> ('k \<times> 'v) list \<Rightarrow> ('k \<times> 'v) list" where
  "al_assign k v xs = (k, v) # filter (\<lambda>e. fst e \<noteq> k) xs"

definition list_hash_lib :: "('k, 'v, ('k \<times> 'v) list) hash_lib" where
  "list_hash_lib =
     \<lparr>hl_empty = [], hl_size = length, hl_begin = (\<lambda>xs. ([], xs)), hl_find = al_find,
      hl_insert_or_assign = al_assign, hl_erase = ol_erase fst\<rparr>"

lemma dropWhile_neq_hd: "dropWhile (\<lambda>e. fst e \<noteq> k) xs = e # as \<Longrightarrow> fst e = k"
  using hd_dropWhile [of "\<lambda>e. fst e \<noteq> k" xs] by simp

interpretation list_hash: hash_container list_hash_lib "\<lambda>xs. distinct (map fst xs)"
proof (unfold_locales, goal_cases)
  case (6 c k bs as)
  then show ?case
    by (auto simp: list_hash_lib_def entries_def al_find_def)
next
  case (7 c k bs)
  then show ?case
    by (auto simp: list_hash_lib_def entries_def al_find_def)
next
  case (8 c k bs e as)
  then have "dropWhile (\<lambda>e. fst e \<noteq> k) c = e # as"
    by (simp add: list_hash_lib_def al_find_def)
  then show ?case
    by (rule dropWhile_neq_hd)
next
  case (9 c k v)
  then show ?case
    by (auto simp: list_hash_lib_def al_assign_def distinct_map_filter)
next
  case (11 c k)
  then show ?case
    by (auto simp: list_hash_lib_def ol_erase_def distinct_map_filter)
qed (auto simp: list_hash_lib_def entries_def al_assign_def ol_erase_def map_of_filter_neq
    fun_eq_iff)

end
