(* ===== verification/Sample_Cluster.thy ===== *)
theory Sample_Cluster
  imports Partition Container_Ref
begin

section \<open>A cluster to run closed instances on\<close>

text \<open>
  Three servers, reached over \<open>loopback_net\<close>, and clients of them: next to a server
  (\<open>on_node\<close>) or remote. The key type is \<open>nat\<close>, its hash the key itself. The closed
  instances of the properties run here.
\<close>

definition sample_servers :: "string list" where
  "sample_servers = [''node0'', ''node1'', ''node2'']"

definition sample_env :: "('k, 'v, 'c) registry \<Rightarrow> ('k, 'v, 'c) env" where
  "sample_env reg =
     \<lparr>env_build = rpclib_only, env_conf = ConfigurationManager rpclib_only RPCLIB 0 1,
      env_resolve = id, env_net = loopback_net 8080 sample_servers reg\<rparr>"

definition sample_object :: "string \<Rightarrow> u16 \<Rightarrow> bool \<Rightarrow> container" where
  "sample_object nam my_server on_node =
     \<lparr>obj_comm_size = 1, obj_my_rank = 0, obj_num_servers = 3, obj_my_server = my_server,
      obj_rpc = \<lparr>server_port = 8080, server_list = sample_servers, rpclib_server = None,
                 engine_init_str = None\<rparr>,
      obj_memory_allocated = 1024, obj_is_server = False,
      obj_name = nam @ ''_'' @ to_string (uint my_server), obj_func_prefix = nam,
      obj_server_on_node = on_node,
      obj_backed_file = ''/dev/shm/'' @ nam @ ''_'' @ to_string (uint my_server)\<rparr>"

definition sample_client ::
  "string \<Rightarrow> ('k, 'v, 'c) registry \<Rightarrow> u16 \<Rightarrow> bool \<Rightarrow> ('k, 'v, 'c) client" where
  "sample_client nam reg my_server on_node = (sample_env reg, sample_object nam my_server on_node)"

definition sample_keys :: "nat key_ops" where
  "sample_keys =
     \<lparr>keyHash = of_nat, key_gt = (\<lambda>a b. a > b), key_ge = (\<lambda>a b. a \<ge> b), key_Contains = (=)\<rparr>"

lemma rpclib_only_compiled [simp]: "compiled_in rpclib_only RPCLIB"
  by (simp add: compiled_in_def rpclib_only_def)

lemma sample_joined_pair:
  "unat my < 3 \<Longrightarrow> joined 3 nam reg (sample_env reg, sample_object nam my on_node)"
  using loopback_net_ok [of 8080 sample_servers reg]
  by (simp add: joined_def client_ok_def servers_run_def n_servers_def
      sample_object_def sample_env_def sample_servers_def rpclib_env_def rpclib_only_def
      ConfigurationManager_def)

lemma sample_joined: "unat my < 3 \<Longrightarrow> joined 3 nam reg (sample_client nam reg my on_node)"
  by (simp add: sample_client_def sample_joined_pair)

lemma sample_keys_simps [simp]:
  "keyHash sample_keys = of_nat" "key_gt sample_keys = (\<lambda>a b. a > b)"
  "key_ge sample_keys = (\<lambda>a b. a \<ge> b)"
  by (simp_all add: sample_keys_def)

text \<open>
  Every object of the cluster has served calls, over rpclib and, for the same servers started
  with Thallium, over TCP.
\<close>

definition sample_tcp_env :: "('k, 'v, 'c) registry \<Rightarrow> ('k, 'v, 'c) env" where
  "sample_tcp_env reg =
     \<lparr>env_build = tcp_only, env_conf = ConfigurationManager tcp_only THALLIUM_TCP 0 1,
      env_resolve = id,
      env_net = loopback_tcp (TCP_CONF (ConfigurationManager tcp_only THALLIUM_TCP 0 1)) id 8080
                  sample_servers reg\<rparr>"

definition sample_tcp_client ::
  "string \<Rightarrow> ('k, 'v, 'c) registry \<Rightarrow> u16 \<Rightarrow> bool \<Rightarrow> ('k, 'v, 'c) client" where
  "sample_tcp_client nam reg my_server on_node =
     (sample_tcp_env reg, sample_object nam my_server on_node)"

lemma tcp_only_compiled [simp]: "compiled_in tcp_only THALLIUM_TCP"
  by (simp add: compiled_in_def tcp_only_def)

lemma sample_servers_run:
  "servers_run (sample_env reg) (sample_object nam my on_node) reg"
  "servers_run (sample_tcp_env reg) (sample_object nam my on_node) reg"
  using loopback_net_ok [of 8080 sample_servers reg] loopback_tcp_ok
  by (simp_all add: servers_run_def n_servers_def sample_object_def sample_env_def sample_tcp_env_def
      rpclib_env_def tcp_env_def rpclib_only_def tcp_only_def ConfigurationManager_def
      sample_servers_def)

interpretation sample_rpclib: served_calls "sample_env reg" "obj_rpc (sample_object nam my on_node)" reg
  for reg nam my on_node
  by (rule servers_run_served [OF sample_servers_run(1)])

interpretation sample_tcp: served_calls "sample_tcp_env reg" "obj_rpc (sample_object nam my on_node)" reg
  for reg nam my on_node
  by (rule servers_run_served [OF sample_servers_run(2)])

lemma sample_tcp_joined:
  "unat my < 3 \<Longrightarrow> joined 3 nam reg (sample_tcp_client nam reg my on_node)"
  using sample_servers_run(2) [of reg nam my on_node]
  by (simp add: sample_tcp_client_def joined_def client_ok_def n_servers_def sample_object_def
      sample_servers_def)

end
