(* ===== verification/Ordered_Map.thy ===== *)
theory Ordered_Map
  imports Sample_Cluster
begin

section \<open>basket::map\<close>

text \<open>
  \<open>include/basket/map/map.cpp\<close>: the ordered map. \<open>L\<close> is the \<open>boost::interprocess::map\<close> of
  the instance, ordered by the template argument \<open>Compare\<close>. The comparisons the class
  itself makes use \<open>operator>\<close> of the key type, \<open>key_gt K\<close>. \<open>dflt\<close> is \<open>MappedType()\<close>.
\<close>

subsection \<open>Operations on the local structure\<close>

definition map_LocalPut ::
  "('k, 'k \<times> 'v, 'c) tree_lib \<Rightarrow> 'k \<Rightarrow> 'v \<Rightarrow> 'c \<Rightarrow> bool \<times> 'c" where
  "map_LocalPut L k data mymap = (True, tl_insert_or_assign L (k, data) mymap)"

definition map_LocalGet ::
  "('k, 'k \<times> 'v, 'c) tree_lib \<Rightarrow> 'v \<Rightarrow> 'k \<Rightarrow> 'c \<Rightarrow> (bool \<times> 'v) \<times> 'c" where
  "map_LocalGet L dflt k mymap =
     (case tl_find L k mymap of
        (_, e # _) \<Rightarrow> ((True, snd e), mymap)
      | (_, []) \<Rightarrow> ((False, dflt), mymap))"

definition map_LocalErase ::
  "('k, 'k \<times> 'v, 'c) tree_lib \<Rightarrow> 'v \<Rightarrow> 'k \<Rightarrow> 'c \<Rightarrow> (bool \<times> 'v) \<times> 'c" where
  "map_LocalErase L dflt k mymap =
     (case tl_erase L k mymap of (mymap', s) \<Rightarrow> ((s > 0, dflt), mymap'))"

definition map_LocalContainsInServer ::
  "'k key_ops \<Rightarrow> ('k, 'k \<times> 'v, 'c) tree_lib \<Rightarrow> 'k \<Rightarrow> 'k \<Rightarrow> 'c \<Rightarrow> ('k \<times> 'v) list \<times> 'c" where
  "map_LocalContainsInServer K L key_start key_end mymap =
     (if tl_size L mymap = 0 then ([], mymap)
      else if tl_size L mymap = 1 then
        (case tl_begin L mymap of
           (_, e # _) \<Rightarrow> (if key_gt K (fst e) key_start then [e] else [], mymap)
         | (_, []) \<Rightarrow> ([], mymap))
      else
        let lower_bound = tl_lower_bound L key_start mymap
        in if snd lower_bound = [] then ([], mymap)
           else (scan_loop (\<lambda>e. key_gt K (fst e) key_end)
                   (step_back (\<lambda>e. key_gt K key_start (fst e)) lower_bound) [], mymap))"

definition map_LocalGetAllDataInServer ::
  "('k, 'k \<times> 'v, 'c) tree_lib \<Rightarrow> 'c \<Rightarrow> ('k \<times> 'v) list \<times> 'c" where
  "map_LocalGetAllDataInServer L mymap = (scan_loop (\<lambda>_. False) (tl_begin L mymap) [], mymap)"

subsection \<open>Construction\<close>

definition map_bindings ::
  "build \<Rightarrow> 'k key_ops \<Rightarrow> ('k, 'k \<times> 'v, 'c) tree_lib \<Rightarrow> 'v \<Rightarrow> RPCImplementation \<Rightarrow> string \<Rightarrow>
     ('k, 'v, 'c) registry \<Rightarrow> ('k, 'v, 'c) registry" where
  "map_bindings B K L dflt impl func_prefix reg =
     RPC_bind B impl (func_prefix @ ''_Contains'')
       (handle_key_key WPairs (map_LocalContainsInServer K L))
    (RPC_bind B impl (func_prefix @ ''_GetAllData'')
       (handle0 WPairs (map_LocalGetAllDataInServer L))
    (RPC_bind B impl (func_prefix @ ''_Erase'')
       (handle_key (\<lambda>(b, v). WFoundVal b v) (map_LocalErase L dflt))
    (RPC_bind B impl (func_prefix @ ''_Get'')
       (handle_key (\<lambda>(b, v). WFoundVal b v) (map_LocalGet L dflt))
    (RPC_bind B impl (func_prefix @ ''_Put'')
       (handle_key_val WBool (map_LocalPut L)) reg))))"

definition map_new ::
  "build \<Rightarrow> (string \<Rightarrow> string option) \<Rightarrow> int \<times> int \<Rightarrow> 'k key_ops \<Rightarrow>
     ('k, 'k \<times> 'v, 'c) tree_lib \<Rightarrow> 'v \<Rightarrow> string \<Rightarrow> config \<times> rpc_factory \<Rightarrow>
     'c node \<times> ('k, 'v, 'c) registry \<Rightarrow>
     (container \<times> string option \<times> (config \<times> rpc_factory) \<times> 'c node \<times> ('k, 'v, 'c) registry) result"
  where
  "map_new B files mpi K L dflt nam st sys =
     construct_container B files mpi nam obj_name (tl_empty L) (map_bindings B K L dflt) st sys"

subsection \<open>The distributed operations\<close>

definition map_Put ::
  "('k, 'v, 'c) env \<Rightarrow> 'k key_ops \<Rightarrow> ('k, 'k \<times> 'v, 'c) tree_lib \<Rightarrow> container \<Rightarrow> 'k \<Rightarrow> 'v \<Rightarrow>
     'c world \<Rightarrow> bool result \<times> 'c world" where
  "map_Put E K L obj k data =
     with_route (route_size (keyHash K k) (obj_num_servers obj)) (\<lambda>key_int w.
       if is_local obj key_int then run_local (map_LocalPut L k data) (obj_my_server obj) w
       else RPC_CALL_WRAPPER E (obj_rpc obj) (obj_func_prefix obj) ''_Put'' key_int as_bool
              [WKey k, WVal data] w)"

definition map_Get ::
  "('k, 'v, 'c) env \<Rightarrow> 'k key_ops \<Rightarrow> ('k, 'k \<times> 'v, 'c) tree_lib \<Rightarrow> 'v \<Rightarrow> container \<Rightarrow> 'k \<Rightarrow>
     'c world \<Rightarrow> (bool \<times> 'v) result \<times> 'c world" where
  "map_Get E K L dflt obj k =
     with_route (route_size (keyHash K k) (obj_num_servers obj)) (\<lambda>key_int w.
       if is_local obj key_int then run_local (map_LocalGet L dflt k) (obj_my_server obj) w
       else RPC_CALL_WRAPPER E (obj_rpc obj) (obj_func_prefix obj) ''_Get'' key_int as_found_val
              [WKey k] w)"

definition map_Erase ::
  "('k, 'v, 'c) env \<Rightarrow> 'k key_ops \<Rightarrow> ('k, 'k \<times> 'v, 'c) tree_lib \<Rightarrow> 'v \<Rightarrow> container \<Rightarrow> 'k \<Rightarrow>
     'c world \<Rightarrow> (bool \<times> 'v) result \<times> 'c world" where
  "map_Erase E K L dflt obj k =
     with_route (route_size (keyHash K k) (obj_num_servers obj)) (\<lambda>key_int w.
       if is_local obj key_int then run_local (map_LocalErase L dflt k) (obj_my_server obj) w
       else RPC_CALL_WRAPPER E (obj_rpc obj) (obj_func_prefix obj) ''_Erase'' key_int as_found_val
              [WKey k] w)"

definition map_ContainsInServer ::
  "('k, 'v, 'c) env \<Rightarrow> 'k key_ops \<Rightarrow> ('k, 'k \<times> 'v, 'c) tree_lib \<Rightarrow> container \<Rightarrow> 'k \<Rightarrow> 'k \<Rightarrow>
     'c world \<Rightarrow> ('k \<times> 'v) list result \<times> 'c world" where
  "map_ContainsInServer E K L obj key_start key_end w =
     (if obj_server_on_node obj
      then run_local (map_LocalContainsInServer K L key_start key_end) (obj_my_server obj) w
      else RPC_CALL_WRAPPER E (obj_rpc obj) (obj_func_prefix obj) ''_Contains'' (obj_my_server obj)
             as_pairs [WKey key_start, WKey key_end] w)"

definition map_Contains ::
  "('k, 'v, 'c) env \<Rightarrow> 'k key_ops \<Rightarrow> ('k, 'k \<times> 'v, 'c) tree_lib \<Rightarrow> container \<Rightarrow> 'k \<Rightarrow> 'k \<Rightarrow>
     'c world \<Rightarrow> ('k \<times> 'v) list result \<times> 'c world" where
  "map_Contains E K L obj key_start key_end =
     gather_all
       (\<lambda>i. RPC_CALL_WRAPPER E (obj_rpc obj) (obj_func_prefix obj) ''_Contains'' i as_pairs
              [WKey key_start, WKey key_end])
       (map_ContainsInServer E K L obj key_start key_end) obj"

definition map_GetAllDataInServer ::
  "('k, 'v, 'c) env \<Rightarrow> ('k, 'k \<times> 'v, 'c) tree_lib \<Rightarrow> container \<Rightarrow>
     'c world \<Rightarrow> ('k \<times> 'v) list result \<times> 'c world" where
  "map_GetAllDataInServer E L obj w =
     (if obj_server_on_node obj
      then run_local (map_LocalGetAllDataInServer L) (obj_my_server obj) w
      else RPC_CALL_WRAPPER E (obj_rpc obj) (obj_func_prefix obj) ''_GetAllData''
             (obj_my_server obj) as_pairs [] w)"

definition map_GetAllData ::
  "('k, 'v, 'c) env \<Rightarrow> ('k, 'k \<times> 'v, 'c) tree_lib \<Rightarrow> container \<Rightarrow>
     'c world \<Rightarrow> ('k \<times> 'v) list result \<times> 'c world" where
  "map_GetAllData E L obj =
     gather_all
       (\<lambda>i. RPC_CALL_WRAPPER E (obj_rpc obj) (obj_func_prefix obj) ''_GetAllData'' i as_pairs [])
       (map_GetAllDataInServer E L obj) obj"

fun map_request ::
  "'k key_ops \<Rightarrow> ('k, 'k \<times> 'v, 'c) tree_lib \<Rightarrow> 'v \<Rightarrow>
     ('k, 'v, 'c) client \<times> ('k, 'v) request \<Rightarrow> 'c world \<Rightarrow> 'v response result \<times> 'c world" where
  "map_request K L dflt ((E, obj), PutReq k v) w = map_outcome PutResp (map_Put E K L obj k v w)"
| "map_request K L dflt ((E, obj), GetReq k) w = map_outcome GetResp (map_Get E K L dflt obj k w)"
| "map_request K L dflt ((E, obj), EraseReq k) w =
     map_outcome EraseResp (map_Erase E K L dflt obj k w)"

subsection \<open>Every operation runs on the key's server\<close>

lemma map_answers:
  assumes "compiled_in B impl"
  shows "answers (map_bindings B K L dflt impl p reg) (p @ ''_Put'') [WKey k, WVal v] as_bool
           (map_LocalPut L k v)"
    and "answers (map_bindings B K L dflt impl p reg) (p @ ''_Get'') [WKey k] as_found_val
           (map_LocalGet L dflt k)"
    and "answers (map_bindings B K L dflt impl p reg) (p @ ''_Erase'') [WKey k] as_found_val
           (map_LocalErase L dflt k)"
    and "answers (map_bindings B K L dflt impl p reg) (p @ ''_GetAllData'') [] as_pairs
           (map_LocalGetAllDataInServer L)"
    and "answers (map_bindings B K L dflt impl p reg) (p @ ''_Contains'') [WKey lo, WKey hi] as_pairs
           (map_LocalContainsInServer K L lo hi)"
  using assms by (simp_all add: answers_def map_bindings_def RPC_bind_def split_beta)

lemma map_request_home:
  assumes "joined n p (map_bindings B K L dflt impl p reg) cl" "compiled_in B impl"
  shows "map_request K L dflt (cl, q) w
           = home_request (map_LocalPut L) (map_LocalGet L dflt) (map_LocalErase L dflt)
               (\<lambda>k. home n (keyHash K k)) q w"
proof -
  obtain E obj where cl: "cl = (E, obj)" by fastforce
  note run = dispatch_size [OF assms(1) [unfolded cl]] map_answers [OF assms(2)]
  show ?thesis
    by (cases q) (simp_all add: cl map_Put_def map_Get_def map_Erase_def run)
qed

subsection \<open>The local operations keep the contract\<close>

definition map_view :: "('k, 'k \<times> 'v, 'c) tree_lib \<Rightarrow> 'c \<Rightarrow> 'k \<Rightarrow> 'v option" where
  "map_view L c = map_of (elems L c)"

context map_container
begin

lemma distinct_map_keys: "ok c \<Longrightarrow> distinct (map fst (elems L c))"
  using strict_sorted_distinct [OF order] keys_ascending by blast

lemma map_find_cases:
  assumes "ok c"
  obtains (missing) bs where "tl_find L k c = (bs, [])" "map_view L c k = None"
  | (found) bs v as where "tl_find L k c = (bs, (k, v) # as)" "map_view L c k = Some v"
proof (cases rule: find_cases [OF assms, of k])
  case (1 bs)
  then show ?thesis
    using missing by (simp add: map_view_def map_of_eq_None_iff)
next
  case (2 bs e as)
  then have "map_view L c k = Some (snd e)"
    unfolding map_view_def using distinct_map_keys [OF assms]
    by (metis in_set_conv_decomp map_of_eq_Some_iff prod.collapse)
  then show ?thesis
    using found [of bs "snd e" as] 2 by (metis prod.collapse)
qed

lemma map_store:
  "keyed_store (map_LocalPut L) (map_LocalGet L dflt) (map_LocalErase L dflt)
     (map_LocalGetAllDataInServer L) (map_view L) ok dflt"
proof (unfold_locales, goal_cases)
  case (4 c k)
  then show ?case
    by (cases rule: map_find_cases [of c k]) (simp_all add: map_LocalGet_def)
next
  case (5 c k)
  then show ?case
    using count_erase_pos [of c k] dom_map_of_fst [of k "elems L c"]
    by (simp add: map_LocalErase_def map_view_def split_beta)
qed (simp_all add: map_LocalPut_def map_LocalErase_def map_LocalGetAllDataInServer_def
    map_view_def ok_assign map_of_assign ok_erase elems_erase map_of_filter_neq split_beta
    begin_eq scan_loop_all distinct_map_keys)

end

sublocale map_container \<subseteq> store: keyed_store "map_LocalPut L" "map_LocalGet L dflt"
  "map_LocalErase L dflt" "map_LocalGetAllDataInServer L" "map_view L" ok dflt
  for dflt
  by (rule map_store)

interpretation list_map_store: keyed_store
  "map_LocalPut (list_map_lib ((<) :: 'k::linorder \<Rightarrow> 'k \<Rightarrow> bool))"
  "map_LocalGet (list_map_lib (<)) dflt" "map_LocalErase (list_map_lib (<)) dflt"
  "map_LocalGetAllDataInServer (list_map_lib (<))" "map_view (list_map_lib (<))"
  "sorted_wrt (\<lambda>a b. fst a < fst b)" dflt
  for dflt
  by (rule list_map.map_store)

subsection \<open>Range queries\<close>

context map_container
begin

lemma map_range_exact:
  assumes "ok c" "\<And>a b. key_gt K a b \<longleftrightarrow> lt b a" "tl_size L c \<noteq> 1"
  shows "map_LocalContainsInServer K L lo hi c
           = (filter (\<lambda>e. \<not> lt (fst e) lo \<and> \<not> lt hi (fst e)) (elems L c), c)"
proof -
  obtain bs as where lb: "tl_lower_bound L lo c = (bs, as)" by fastforce
  note scan = range_scan [OF assms(1), of "key_gt K" hi lo, OF assms(2), unfolded lb]
  have "tl_size L c = 0 \<Longrightarrow> elems L c = []"
    using size_elems [OF assms(1)] by simp
  moreover have "as = [] \<Longrightarrow>
      filter (\<lambda>e. \<not> lt (fst e) lo \<and> \<not> lt hi (fst e)) (elems L c) = []"
    using lower_bound_end [OF assms(1)] lb by simp
  ultimately show ?thesis
    using assms(3) scan by (auto simp: map_LocalContainsInServer_def Let_def lb)
qed

lemma map_range_view:
  assumes "ok c" "\<And>a b. key_gt K a b \<longleftrightarrow> lt b a" "tl_size L c \<noteq> 1"
  shows "distinct (map fst (fst (map_LocalContainsInServer K L lo hi c))) \<and>
         map_of (fst (map_LocalContainsInServer K L lo hi c))
           = (\<lambda>k. if \<not> lt k lo \<and> \<not> lt hi k then map_view L c k else None)"
  using distinct_map_keys [OF assms(1)]
    map_of_filter [of "elems L c" "\<lambda>k. \<not> lt k lo \<and> \<not> lt hi k"]
  by (auto simp: map_range_exact [OF assms] map_view_def distinct_map_filter fun_eq_iff)

lemma map_range_single:
  assumes "ok c" "elems L c = [e]"
  shows "map_LocalContainsInServer K L lo hi c = (if key_gt K (fst e) lo then [e] else [], c)"
  using size_elems [OF assms(1)] begin_eq [OF assms(1)] assms(2)
  by (simp add: map_LocalContainsInServer_def)

lemma map_range_here:
  assumes "ok c" "\<And>a b. key_gt K a b \<longleftrightarrow> lt b a"
  shows "distinct (map fst (fst (map_LocalContainsInServer K L lo hi c))) \<and>
         map_of (fst (map_LocalContainsInServer K L lo hi c))
           = (\<lambda>k. if (if tl_size L c = 1 then lt lo k else \<not> lt k lo \<and> \<not> lt hi k)
                  then map_view L c k else None)"
proof (cases "tl_size L c = 1")
  case True
  then obtain e where e: "elems L c = [e]"
    using size_elems [OF assms(1)] by (cases "elems L c") auto
  show ?thesis
    by (simp add: map_range_single [OF assms(1) e] map_view_def e assms(2) True fun_eq_iff)
next
  case False
  then show ?thesis using map_range_view [OF assms False] by simp
qed

end

subsection \<open>Properties\<close>

text \<open>
  C1: any sequence of Put, Get and Erase calls, issued by any clients of the servers, local
  or remote, returns what the same calls return on one map, and leaves servers that
  together hold that map, every entry on the server of its key's hash.
\<close>
theorem map_clients_share_one_map:
  assumes "map_container L lt ok" "compiled_in B impl"
    and "\<forall>r \<in> set reqs. joined n p (map_bindings B K L dflt impl p reg) (fst r)"
    and "refines (\<lambda>k. home n (keyHash K k)) ok (map_view L) w m"
  shows "fst (run_requests (map_request K L dflt) reqs w)
           = map Inr (fst (run_requests (spec_request dflt) (map snd reqs) m)) \<and>
         refines (\<lambda>k. home n (keyHash K k)) ok (map_view L)
           (snd (run_requests (map_request K L dflt) reqs w))
           (snd (run_requests (spec_request dflt) (map snd reqs) m))"
proof (rule keyed_store.requests_refine [OF map_container.map_store [OF assms(1)] assms(4)])
  show "map_request K L dflt q w = home_request (map_LocalPut L) (map_LocalGet L dflt)
      (map_LocalErase L dflt) (\<lambda>k. home n (keyHash K k)) (snd q) w"
    if "q \<in> set reqs" for q w
    using map_request_home [OF bspec [OF assms(3) that] assms(2), of "snd q" w] by simp
qed

lemma list_map_empty_refines:
  "refines hm (sorted_wrt (\<lambda>a b. lt (fst a) (fst b))) (map_view (list_map_lib lt)) (\<lambda>_. [])
     (\<lambda>_. None)"
  by (simp add: refines_def placed_def global_view_def map_view_def ol_defs fun_eq_iff)

definition sample_map_reg :: "string \<Rightarrow> (nat, nat, (nat \<times> nat) list) registry" where
  "sample_map_reg nam =
     map_bindings rpclib_only sample_keys (list_map_lib (<)) 0 RPCLIB nam Map.empty"

definition sample_tcp_map_reg :: "string \<Rightarrow> (nat, nat, (nat \<times> nat) list) registry" where
  "sample_tcp_map_reg nam =
     map_bindings tcp_only sample_keys (list_map_lib (<)) 0 THALLIUM_TCP nam Map.empty"

text \<open>The same calls, first by rpclib clients, then by Thallium clients.\<close>

definition sample_map_calls ::
  "(u16 \<Rightarrow> bool \<Rightarrow> 'cl) \<Rightarrow> ('cl \<times> (nat, nat) request) list" where
  "sample_map_calls cl =
     [(cl 0 True, PutReq 4 10), (cl 1 True, GetReq 4), (cl 2 False, EraseReq 4),
      (cl 0 False, GetReq 4)]"

lemma map_clients_share_one_map_witness:
  "fst (run_requests (map_request sample_keys (list_map_lib (<)) 0)
          (sample_map_calls (sample_client ''m'' (sample_map_reg ''m''))) (\<lambda>_. []))
     = [Inr (PutResp True), Inr (GetResp (True, 10)), Inr (EraseResp (True, 0)),
        Inr (GetResp (False, 0))] \<and>
   fst (run_requests (map_request sample_keys (list_map_lib (<)) 0)
          (sample_map_calls (sample_tcp_client ''m'' (sample_tcp_map_reg ''m''))) (\<lambda>_. []))
     = [Inr (PutResp True), Inr (GetResp (True, 10)), Inr (EraseResp (True, 0)),
        Inr (GetResp (False, 0))]"
  using map_clients_share_one_map [OF list_map.map_container_axioms rpclib_only_compiled, of
      "sample_map_calls (sample_client ''m'' (sample_map_reg ''m''))"
      3 "''m''" sample_keys 0 Map.empty "\<lambda>_. []" Map.empty]
    map_clients_share_one_map [OF list_map.map_container_axioms tcp_only_compiled, of
      "sample_map_calls (sample_tcp_client ''m'' (sample_tcp_map_reg ''m''))"
      3 "''m''" sample_keys 0 Map.empty "\<lambda>_. []" Map.empty]
  by (simp add: sample_map_calls_def sample_joined sample_tcp_joined list_map_empty_refines
      flip: sample_map_reg_def sample_tcp_map_reg_def)

text \<open>
  GetAllData, called by any client, answers the whole map: every key once, with the
  value the map gives it, and changes nothing.
\<close>
theorem map_GetAllData_whole_map:
  assumes "map_container L lt ok" "compiled_in B impl"
    and J: "joined n p (map_bindings B K L dflt impl p reg) (E, obj)"
    and "refines (\<lambda>k. home n (keyHash K k)) ok (map_view L) w m"
  shows "\<exists>xs. map_GetAllData E L obj w = (Inr xs, w) \<and> distinct (map fst xs) \<and> map_of xs = m"
proof -
  note ans = map_answers(4) [OF assms(2)]
  note store = map_container.map_store [OF assms(1)]
  have same: "snd (map_LocalGetAllDataInServer L c) = c" for c
    by (simp add: map_LocalGetAllDataInServer_def)
  show ?thesis
    unfolding map_GetAllData_def
    by (rule gather_refines [OF J ans _ assms(4), where P = "\<lambda>_. True", simplified])
      (simp_all add: same map_GetAllDataInServer_def dispatch_in_server [OF J ans]
        keyed_store.all_distinct [OF store] keyed_store.all_lookup [OF store])
qed

definition sample_map_world :: "(nat \<times> nat) list world" where
  "sample_map_world i = (if i = 2 then [(2, 20), (5, 50), (8, 80)] else [])"

lemma sample_map_world_refines:
  "refines (\<lambda>k. home 3 (keyHash sample_keys k)) (sorted_wrt (\<lambda>a b. fst a < fst b))
     (map_view (list_map_lib (<))) sample_map_world [2 \<mapsto> 20, 5 \<mapsto> 50, 8 \<mapsto> 80]"
  by (auto simp: sample_map_world_def refines_def placed_def global_view_def map_view_def ol_defs
      home_def fun_eq_iff)

lemma sample_map_joined:
  "unat my < 3 \<Longrightarrow>
     joined 3 nam (map_bindings rpclib_only sample_keys (list_map_lib (<)) 0 RPCLIB nam Map.empty)
       (sample_env (sample_map_reg nam), sample_object nam my on_node)"
  using sample_joined_pair by (simp add: sample_map_reg_def)

lemma map_GetAllData_whole_map_witness:
  "\<exists>xs. map_GetAllData (sample_env (sample_map_reg ''m'')) (list_map_lib (<))
           (sample_object ''m'' 1 True) sample_map_world = (Inr xs, sample_map_world) \<and>
     distinct (map fst xs) \<and> map_of xs = [2 \<mapsto> 20, 5 \<mapsto> 50, 8 \<mapsto> 80]"
  by (rule map_GetAllData_whole_map [OF list_map.map_container_axioms rpclib_only_compiled
        sample_map_joined sample_map_world_refines]) simp

text \<open>
  C28: for a key type whose \<open>operator>\<close> agrees with \<open>Compare\<close>, Contains gathers from all servers,
  each key once. From a server that holds no or more than one entry it answers exactly the
  entries between the two bounds, both included; from a server that holds exactly one, that
  entry exactly if its key lies strictly above the lower bound, whatever the upper bound.
\<close>
theorem map_Contains_range:
  assumes "map_container L lt ok" "compiled_in B impl"
    and J: "joined n p (map_bindings B K L dflt impl p reg) (E, obj)"
    and "refines (\<lambda>k. home n (keyHash K k)) ok (map_view L) w m"
    and "\<And>a b. key_gt K a b \<longleftrightarrow> lt b a"
  shows "\<exists>xs. map_Contains E K L obj lo hi w = (Inr xs, w) \<and> distinct (map fst xs) \<and>
           map_of xs = (\<lambda>k. if (if tl_size L (w (home n (keyHash K k))) = 1 then lt lo k
                               else \<not> lt k lo \<and> \<not> lt hi k)
                            then m k else None)"
proof -
  note ans = map_answers(5) [OF assms(2)]
  have same: "snd (map_LocalContainsInServer K L lo hi c) = c" for c
    by (simp add: map_LocalContainsInServer_def Let_def split: list.splits prod.splits)
  have elsewhere: "map_view L (w i) k = None" if "i \<noteq> home n (keyHash K k)" for i k
    using that assms(4) unfolding refines_def placed_def by metis
  let ?keep = "\<lambda>i k. if tl_size L (w i) = 1 then lt lo k else \<not> lt k lo \<and> \<not> lt hi k"
  have keep: "(\<lambda>k. if ?keep i k then map_view L (w i) k else None)
      = (\<lambda>k. if ?keep (home n (keyHash K k)) k then map_view L (w i) k else None)" for i
  proof
    fix k
    show "(if ?keep i k then map_view L (w i) k else None)
        = (if ?keep (home n (keyHash K k)) k then map_view L (w i) k else None)"
      using elsewhere [of i k] by (cases "i = home n (keyHash K k)") simp_all
  qed
  have data: "distinct (map fst (fst (map_LocalContainsInServer K L lo hi (w i)))) \<and>
      map_of (fst (map_LocalContainsInServer K L lo hi (w i)))
        = (\<lambda>k. if ?keep (home n (keyHash K k)) k then map_view L (w i) k else None)" if "ok (w i)" for i
    using map_container.map_range_here [OF assms(1) that assms(5), of lo hi] unfolding keep .
  show ?thesis
    unfolding map_Contains_def
    by (rule gather_refines [OF J ans _ assms(4)])
      (simp_all add: same map_ContainsInServer_def dispatch_in_server [OF J ans] data)
qed

text \<open>Server 2 holds three entries, server 1 one, above the bounds.\<close>

definition sample_wide_world :: "(nat \<times> nat) list world" where
  "sample_wide_world = sample_map_world(1 := [(10, 100)])"

lemma sample_wide_world_refines:
  "refines (\<lambda>k. home 3 (keyHash sample_keys k)) (sorted_wrt (\<lambda>a b. fst a < fst b))
     (map_view (list_map_lib (<))) sample_wide_world [2 \<mapsto> 20, 5 \<mapsto> 50, 8 \<mapsto> 80, 10 \<mapsto> 100]"
  by (auto simp: sample_wide_world_def sample_map_world_def refines_def placed_def global_view_def
      map_view_def ol_defs home_def fun_eq_iff)

lemma map_Contains_range_witness:
  "\<exists>xs. map_Contains (sample_env (sample_map_reg ''m'')) sample_keys (list_map_lib (<))
           (sample_object ''m'' 0 False) 3 8 sample_wide_world = (Inr xs, sample_wide_world) \<and>
     distinct (map fst xs) \<and> map_of xs = [5 \<mapsto> 50, 8 \<mapsto> 80, 10 \<mapsto> 100]"
proof -
  obtain xs where xs: "map_Contains (sample_env (sample_map_reg ''m'')) sample_keys (list_map_lib (<))
       (sample_object ''m'' 0 False) 3 8 sample_wide_world = (Inr xs, sample_wide_world)" "distinct (map fst xs)"
    "map_of xs = (\<lambda>k. if (if tl_size (list_map_lib (<)) (sample_wide_world (home 3 (keyHash sample_keys k))) = 1
                         then 3 < k else \<not> k < 3 \<and> \<not> 8 < k)
                      then [2 \<mapsto> 20, 5 \<mapsto> 50, 8 \<mapsto> 80, 10 \<mapsto> 100] k else None)"
    using map_Contains_range [OF list_map.map_container_axioms rpclib_only_compiled
        sample_map_joined [of 0 "''m''" False] sample_wide_world_refines, of 3 8] by auto
  have "map_of xs = [5 \<mapsto> 50, 8 \<mapsto> 80, 10 \<mapsto> 100]"
    unfolding xs(3) by (auto simp: fun_eq_iff sample_wide_world_def sample_map_world_def home_def ol_defs)
  with xs(1,2) show ?thesis by blast
qed

text \<open>
  On a server that holds exactly one entry the range query looks at the lower bound
  only, and strictly: an entry above the upper bound is answered, one equal to the lower
  bound is not.
\<close>
lemma map_single_entry_ignores_upper_bound:
  assumes "map_container L lt ok" "ok c" "elems L c = [e]"
    and "\<And>a b. key_gt K a b \<longleftrightarrow> lt b a"
  shows "map_LocalContainsInServer K L lo hi c = (if lt lo (fst e) then [e] else [], c)"
  using map_container.map_range_single [OF assms(1-3), of K lo hi] assms(4) by simp

end
