(* ===== verification/Unordered_Map.thy ===== *)
theory Unordered_Map
  imports Sample_Cluster
begin

section \<open>basket::unordered_map\<close>

text \<open>
  \<open>include/basket/unordered_map/unordered_map.cpp\<close>: the hashed map. \<open>H\<close> is the
  \<open>boost::unordered_map\<close> of the instance, \<open>dflt\<close> is \<open>MappedType()\<close>. Put chooses the server
  from the low 16 bits of the hash, Get and Erase from the whole hash.
\<close>

subsection \<open>Operations on the local structure\<close>

definition umap_LocalPut ::
  "('k, 'v, 'c) hash_lib \<Rightarrow> 'k \<Rightarrow> 'v \<Rightarrow> 'c \<Rightarrow> bool \<times> 'c" where
  "umap_LocalPut H k data myHashMap = (True, hl_insert_or_assign H k data myHashMap)"

definition umap_LocalGet ::
  "('k, 'v, 'c) hash_lib \<Rightarrow> 'v \<Rightarrow> 'k \<Rightarrow> 'c \<Rightarrow> (bool \<times> 'v) \<times> 'c" where
  "umap_LocalGet H dflt k myHashMap =
     (case hl_find H k myHashMap of
        (_, e # _) \<Rightarrow> ((True, snd e), myHashMap)
      | (_, []) \<Rightarrow> ((False, dflt), myHashMap))"

definition umap_LocalErase ::
  "('k, 'v, 'c) hash_lib \<Rightarrow> 'v \<Rightarrow> 'k \<Rightarrow> 'c \<Rightarrow> (bool \<times> 'v) \<times> 'c" where
  "umap_LocalErase H dflt k myHashMap =
     (case hl_erase H k myHashMap of (myHashMap', s) \<Rightarrow> ((s > 0, dflt), myHashMap'))"

definition umap_LocalGetAllDataInServer ::
  "('k, 'v, 'c) hash_lib \<Rightarrow> 'c \<Rightarrow> ('k \<times> 'v) list \<times> 'c" where
  "umap_LocalGetAllDataInServer H myHashMap =
     (if hl_size H myHashMap > 0
      then (scan_loop (\<lambda>_. False) (hl_begin H myHashMap) [], myHashMap)
      else ([], myHashMap))"

subsection \<open>Construction\<close>

definition umap_bindings ::
  "build \<Rightarrow> ('k, 'v, 'c) hash_lib \<Rightarrow> 'v \<Rightarrow> RPCImplementation \<Rightarrow> string \<Rightarrow>
     ('k, 'v, 'c) registry \<Rightarrow> ('k, 'v, 'c) registry" where
  "umap_bindings B H dflt impl func_prefix reg =
     RPC_bind B impl (func_prefix @ ''_GetAllData'')
       (handle0 WPairs (umap_LocalGetAllDataInServer H))
    (RPC_bind B impl (func_prefix @ ''_Erase'')
       (handle_key (\<lambda>(b, v). WFoundVal b v) (umap_LocalErase H dflt))
    (RPC_bind B impl (func_prefix @ ''_Get'')
       (handle_key (\<lambda>(b, v). WFoundVal b v) (umap_LocalGet H dflt))
    (RPC_bind B impl (func_prefix @ ''_Put'')
       (handle_key_val WBool (umap_LocalPut H)) reg)))"

definition umap_new ::
  "build \<Rightarrow> (string \<Rightarrow> string option) \<Rightarrow> int \<times> int \<Rightarrow> ('k, 'v, 'c) hash_lib \<Rightarrow> 'v \<Rightarrow> string \<Rightarrow>
     config \<times> rpc_factory \<Rightarrow> 'c node \<times> ('k, 'v, 'c) registry \<Rightarrow>
     (container \<times> string option \<times> (config \<times> rpc_factory) \<times> 'c node \<times> ('k, 'v, 'c) registry) result"
  where
  "umap_new B files mpi H dflt nam st sys =
     construct_container B files mpi nam obj_name (hl_empty H) (umap_bindings B H dflt) st sys"

subsection \<open>The distributed operations\<close>

definition umap_Put ::
  "('k, 'v, 'c) env \<Rightarrow> 'k key_ops \<Rightarrow> ('k, 'v, 'c) hash_lib \<Rightarrow> container \<Rightarrow> 'k \<Rightarrow> 'v \<Rightarrow>
     'c world \<Rightarrow> bool result \<times> 'c world" where
  "umap_Put E K H obj k data =
     with_route (route_u16 (keyHash K k) (obj_num_servers obj)) (\<lambda>key_int w.
       if is_local obj key_int then run_local (umap_LocalPut H k data) (obj_my_server obj) w
       else RPC_CALL_WRAPPER E (obj_rpc obj) (obj_func_prefix obj) ''_Put'' key_int as_bool
              [WKey k, WVal data] w)"

definition umap_Get ::
  "('k, 'v, 'c) env \<Rightarrow> 'k key_ops \<Rightarrow> ('k, 'v, 'c) hash_lib \<Rightarrow> 'v \<Rightarrow> container \<Rightarrow> 'k \<Rightarrow>
     'c world \<Rightarrow> (bool \<times> 'v) result \<times> 'c world" where
  "umap_Get E K H dflt obj k =
     with_route (route_size (keyHash K k) (obj_num_servers obj)) (\<lambda>key_int w.
       if is_local obj key_int then run_local (umap_LocalGet H dflt k) (obj_my_server obj) w
       else RPC_CALL_WRAPPER E (obj_rpc obj) (obj_func_prefix obj) ''_Get'' key_int as_found_val
              [WKey k] w)"

definition umap_Erase ::
  "('k, 'v, 'c) env \<Rightarrow> 'k key_ops \<Rightarrow> ('k, 'v, 'c) hash_lib \<Rightarrow> 'v \<Rightarrow> container \<Rightarrow> 'k \<Rightarrow>
     'c world \<Rightarrow> (bool \<times> 'v) result \<times> 'c world" where
  "umap_Erase E K H dflt obj k =
     with_route (route_size (keyHash K k) (obj_num_servers obj)) (\<lambda>key_int w.
       if is_local obj key_int then run_local (umap_LocalErase H dflt k) (obj_my_server obj) w
       else RPC_CALL_WRAPPER E (obj_rpc obj) (obj_func_prefix obj) ''_Erase'' key_int as_found_val
              [WKey k] w)"

definition umap_GetAllDataInServer ::
  "('k, 'v, 'c) env \<Rightarrow> ('k, 'v, 'c) hash_lib \<Rightarrow> container \<Rightarrow>
     'c world \<Rightarrow> ('k \<times> 'v) list result \<times> 'c world" where
  "umap_GetAllDataInServer E H obj w =
     (if obj_server_on_node obj
      then run_local (umap_LocalGetAllDataInServer H) (obj_my_server obj) w
      else RPC_CALL_WRAPPER E (obj_rpc obj) (obj_func_prefix obj) ''_GetAllData''
             (obj_my_server obj) as_pairs [] w)"

definition umap_GetAllData ::
  "('k, 'v, 'c) env \<Rightarrow> ('k, 'v, 'c) hash_lib \<Rightarrow> container \<Rightarrow>
     'c world \<Rightarrow> ('k \<times> 'v) list result \<times> 'c world" where
  "umap_GetAllData E H obj =
     gather_all
       (\<lambda>i. RPC_CALL_WRAPPER E (obj_rpc obj) (obj_func_prefix obj) ''_GetAllData'' i as_pairs [])
       (umap_GetAllDataInServer E H obj) obj"

fun umap_request ::
  "'k key_ops \<Rightarrow> ('k, 'v, 'c) hash_lib \<Rightarrow> 'v \<Rightarrow>
     ('k, 'v, 'c) client \<times> ('k, 'v) request \<Rightarrow> 'c world \<Rightarrow> 'v response result \<times> 'c world" where
  "umap_request K H dflt ((E, obj), PutReq k v) w = map_outcome PutResp (umap_Put E K H obj k v w)"
| "umap_request K H dflt ((E, obj), GetReq k) w =
     map_outcome GetResp (umap_Get E K H dflt obj k w)"
| "umap_request K H dflt ((E, obj), EraseReq k) w =
     map_outcome EraseResp (umap_Erase E K H dflt obj k w)"

subsection \<open>Which server each operation runs on\<close>

definition put_home :: "nat \<Rightarrow> u64 \<Rightarrow> u16" where
  "put_home n h = word_of_nat (unat h mod 65536 mod n)"

lemma unat_put_home: "0 < n \<Longrightarrow> n \<le> 65536 \<Longrightarrow> unat (put_home n h) = unat h mod 65536 mod n"
proof -
  assume n: "0 < n" "n \<le> 65536"
  then have "unat h mod 65536 mod n < 65536"
    by (meson less_le_trans mod_less_divisor)
  then show ?thesis by (simp add: put_home_def unat_of_nat)
qed

lemma put_home_eq_home:
  "0 < n \<Longrightarrow> n \<le> 65536 \<Longrightarrow>
     put_home n h = home n h \<longleftrightarrow> unat h mod 65536 mod n = unat h mod n"
  by (metis unat_home unat_put_home word_unat_eq_iff)

lemma umap_answers:
  assumes "compiled_in B impl"
  shows "answers (umap_bindings B H dflt impl p reg) (p @ ''_Put'') [WKey k, WVal v] as_bool
           (umap_LocalPut H k v)"
    and "answers (umap_bindings B H dflt impl p reg) (p @ ''_Get'') [WKey k] as_found_val
           (umap_LocalGet H dflt k)"
    and "answers (umap_bindings B H dflt impl p reg) (p @ ''_Erase'') [WKey k] as_found_val
           (umap_LocalErase H dflt k)"
    and "answers (umap_bindings B H dflt impl p reg) (p @ ''_GetAllData'') [] as_pairs
           (umap_LocalGetAllDataInServer H)"
  using assms by (simp_all add: answers_def umap_bindings_def RPC_bind_def split_beta)

lemma umap_Put_home:
  assumes "joined n p (umap_bindings B H dflt impl p reg) (E, obj)" "compiled_in B impl"
  shows "umap_Put E K H obj k v w
           = run_local (umap_LocalPut H k v) (put_home n (keyHash K k)) w"
proof -
  note J = joinedD [OF assms(1)]
  have r: "route_u16 (keyHash K k) (obj_num_servers obj) = Inr (put_home n (keyHash K k))"
    using J by (simp add: client_ok_def route_u16_home put_home_def)
  have "unat (put_home n (keyHash K k)) < n"
    using J(5,6) by (simp add: unat_put_home)
  then show ?thesis
    using dispatch_home [OF assms(1) umap_answers(1) [OF assms(2)]]
    by (simp add: umap_Put_def r)
qed

lemma umap_Get_home:
  assumes "joined n p (umap_bindings B H dflt impl p reg) (E, obj)" "compiled_in B impl"
  shows "umap_Get E K H dflt obj k w
           = run_local (umap_LocalGet H dflt k) (home n (keyHash K k)) w"
  unfolding umap_Get_def by (rule dispatch_size [OF assms(1) umap_answers(2) [OF assms(2)]])

lemma umap_Erase_home:
  assumes "joined n p (umap_bindings B H dflt impl p reg) (E, obj)" "compiled_in B impl"
  shows "umap_Erase E K H dflt obj k w
           = run_local (umap_LocalErase H dflt k) (home n (keyHash K k)) w"
  unfolding umap_Erase_def by (rule dispatch_size [OF assms(1) umap_answers(3) [OF assms(2)]])

lemma umap_request_home:
  assumes "joined n p (umap_bindings B H dflt impl p reg) cl" "compiled_in B impl"
    and "\<And>k. unat (keyHash K k) mod 65536 mod n = unat (keyHash K k) mod n"
  shows "umap_request K H dflt (cl, q) w
           = home_request (umap_LocalPut H) (umap_LocalGet H dflt) (umap_LocalErase H dflt)
               (\<lambda>k. home n (keyHash K k)) q w"
proof -
  obtain E obj where cl: "cl = (E, obj)" by fastforce
  note J = assms(1) [unfolded cl]
  have "put_home n (keyHash K k) = home n (keyHash K k)" for k
    using put_home_eq_home joinedD(5,6) [OF J] assms(3) by blast
  then show ?thesis
    by (cases q)
      (simp_all add: cl umap_Put_home [OF J assms(2)] umap_Get_home [OF J assms(2)]
        umap_Erase_home [OF J assms(2)])
qed

subsection \<open>The local operations keep the contract\<close>

definition umap_view :: "('k, 'v, 'c) hash_lib \<Rightarrow> 'c \<Rightarrow> 'k \<Rightarrow> 'v option" where
  "umap_view H c = map_of (entries H c)"

context hash_container
begin

lemma umap_LocalGetAll_eq:
  "ok c \<Longrightarrow> umap_LocalGetAllDataInServer H c = (entries H c, c)"
  using hl_size_entries [of c] hl_begin_eq [of c]
  by (auto simp: umap_LocalGetAllDataInServer_def scan_loop_all)

lemma umap_store:
  "keyed_store (umap_LocalPut H) (umap_LocalGet H dflt) (umap_LocalErase H dflt)
     (umap_LocalGetAllDataInServer H) (umap_view H) ok dflt"
proof (unfold_locales, goal_cases)
  case (4 c k)
  then show ?case
    by (cases rule: hl_find_cases [of c k]) (simp_all add: umap_LocalGet_def umap_view_def)
next
  case (5 c k)
  then show ?case
    using count_hl_erase_pos [of c k] by (simp add: umap_LocalErase_def umap_view_def split_beta)
qed (simp_all add: umap_LocalPut_def umap_LocalErase_def umap_LocalGetAll_eq umap_view_def
    ok_hl_assign map_of_hl_assign ok_hl_erase map_of_hl_erase split_beta distinct_keys)

end

sublocale hash_container \<subseteq> ustore: keyed_store "umap_LocalPut H" "umap_LocalGet H dflt"
  "umap_LocalErase H dflt" "umap_LocalGetAllDataInServer H" "umap_view H" ok dflt
  for dflt
  by (rule umap_store)

interpretation list_hash_store: keyed_store "umap_LocalPut list_hash_lib"
  "umap_LocalGet list_hash_lib dflt" "umap_LocalErase list_hash_lib dflt"
  "umap_LocalGetAllDataInServer list_hash_lib" "umap_view list_hash_lib"
  "\<lambda>xs. distinct (map fst xs)" dflt
  for dflt
  by (rule list_hash.umap_store)

subsection \<open>Properties\<close>

text \<open>
  Put and the other operations of the hashed map choose the same server for every hash
  exactly when the number of servers divides 65536. For 3 servers they do not.
\<close>
theorem umap_routes_agree_iff:
  assumes "0 < n" "n \<le> 65536"
  shows "(\<forall>h. route_u16 h (int n) = route_size h (int n)) \<longleftrightarrow> n dvd 65536"
proof
  assume "\<forall>h. route_u16 h (int n) = route_size h (int n)"
  then have "put_home n 65536 = home n 65536"
    unfolding put_home_def route_u16_home [OF assms] route_size_home [OF assms] by blast
  then show "n dvd 65536"
    using put_home_eq_home [OF assms, of 65536] by (simp add: dvd_eq_mod_eq_0)
next
  assume "n dvd 65536"
  then have "put_home n h = home n h" for h
    using put_home_eq_home [OF assms] by (simp add: mod_mod_cancel)
  then show "\<forall>h. route_u16 h (int n) = route_size h (int n)"
    using assms by (simp add: route_u16_home route_size_home put_home_def)
qed

lemma umap_routes_agree_iff_witness:
  "\<not> (\<forall>h. route_u16 h 3 = route_size h 3) \<and> (\<forall>h. route_u16 h 4 = route_size h 4)"
  using umap_routes_agree_iff [of 3] umap_routes_agree_iff [of 4] by (simp add: dvd_eq_mod_eq_0)

text \<open>
  C27: where the two routes of a key differ, a Put by any client is not seen by a Get by any
  client: it goes to one server, and the Get asks another, which does not hold the key.
\<close>
theorem umap_Put_not_seen_by_Get:
  assumes "hash_container H ok" "compiled_in B impl"
    and put: "joined n p (umap_bindings B H dflt impl p reg) (E, obj)"
    and get: "joined n p (umap_bindings B H dflt impl p reg) (E', obj')"
    and differ: "route_u16 (keyHash K k) (int n) \<noteq> route_size (keyHash K k) (int n)"
    and "ok (w (home n (keyHash K k)))" "umap_view H (w (home n (keyHash K k))) k = None"
  shows "fst (umap_Put E K H obj k v w) = Inr True \<and>
         fst (umap_Get E' K H dflt obj' k (snd (umap_Put E K H obj k v w))) = Inr (False, dflt)"
proof -
  note store = hash_container.umap_store [OF assms(1)]
  have "put_home n (keyHash K k) \<noteq> home n (keyHash K k)"
    using differ joinedD(5,6) [OF put] by (simp add: route_u16_home route_size_home put_home_def)
  then show ?thesis
    using keyed_store.get_eq [OF store assms(6)] assms(7)
    by (simp add: umap_Put_home [OF put assms(2)] umap_Get_home [OF get assms(2)] run_local_def
        umap_LocalPut_def)
qed

definition sample_umap_reg :: "string \<Rightarrow> (nat, nat, (nat \<times> nat) list) registry" where
  "sample_umap_reg nam = umap_bindings rpclib_only list_hash_lib 0 RPCLIB nam Map.empty"

lemma sample_umap_joined:
  "unat my < 3 \<Longrightarrow>
     joined 3 nam (umap_bindings rpclib_only list_hash_lib 0 RPCLIB nam Map.empty)
       (sample_env (sample_umap_reg nam), sample_object nam my on_node)"
  using sample_joined_pair by (simp add: sample_umap_reg_def)

lemma umap_Put_not_seen_by_Get_witness:
  "fst (umap_Get (sample_env (sample_umap_reg ''h'')) sample_keys list_hash_lib 0
          (sample_object ''h'' 0 True) 65536
          (snd (umap_Put (sample_env (sample_umap_reg ''h'')) sample_keys list_hash_lib
                  (sample_object ''h'' 0 True) 65536 7 (\<lambda>_. []))))
     = Inr (False, 0)"
  by (rule umap_Put_not_seen_by_Get [OF list_hash.hash_container_axioms rpclib_only_compiled
        sample_umap_joined sample_umap_joined, THEN conjunct2])
    (simp_all add: route_u16_def route_size_def umap_view_def entries_def list_hash_lib_def)

text \<open>
  C18: where the two routes agree on every key, any sequence of Put, Get and Erase calls by
  any clients returns what the same calls return on one map, and leaves servers that
  together hold that map.
\<close>
theorem umap_clients_share_one_map:
  assumes "hash_container H ok" "compiled_in B impl"
    and "\<forall>r \<in> set reqs. joined n p (umap_bindings B H dflt impl p reg) (fst r)"
    and "\<And>k. unat (keyHash K k) mod 65536 mod n = unat (keyHash K k) mod n"
    and "refines (\<lambda>k. home n (keyHash K k)) ok (umap_view H) w m"
  shows "fst (run_requests (umap_request K H dflt) reqs w)
           = map Inr (fst (run_requests (spec_request dflt) (map snd reqs) m)) \<and>
         refines (\<lambda>k. home n (keyHash K k)) ok (umap_view H)
           (snd (run_requests (umap_request K H dflt) reqs w))
           (snd (run_requests (spec_request dflt) (map snd reqs) m))"
proof (rule keyed_store.requests_refine [OF hash_container.umap_store [OF assms(1)] assms(5)])
  show "umap_request K H dflt q w = home_request (umap_LocalPut H) (umap_LocalGet H dflt)
      (umap_LocalErase H dflt) (\<lambda>k. home n (keyHash K k)) (snd q) w"
    if "q \<in> set reqs" for q w
    using umap_request_home [OF bspec [OF assms(3) that] assms(2,4), of "snd q" w] by simp
qed

text \<open>A hash function of 16 bits: every route agrees.\<close>

definition short_keys :: "nat key_ops" where
  "short_keys = sample_keys\<lparr>keyHash := \<lambda>k. of_nat (k mod 65536)\<rparr>"

lemma short_keys_hash: "unat (keyHash short_keys k) = k mod 65536"
  by (simp add: short_keys_def unat_of_nat)

lemma list_hash_empty_refines:
  "refines hm (\<lambda>xs. distinct (map fst xs)) (umap_view list_hash_lib) (\<lambda>_. []) (\<lambda>_. None)"
  by (simp add: refines_def placed_def global_view_def umap_view_def entries_def list_hash_lib_def
      fun_eq_iff)

lemma umap_clients_share_one_map_witness:
  "fst (run_requests (umap_request short_keys list_hash_lib 0)
          [(sample_client ''h'' (sample_umap_reg ''h'') 0 True, PutReq 70000 1),
           (sample_client ''h'' (sample_umap_reg ''h'') 1 False, PutReq 70000 2),
           (sample_client ''h'' (sample_umap_reg ''h'') 2 True, GetReq 70000)] (\<lambda>_. []))
     = [Inr (PutResp True), Inr (PutResp True), Inr (GetResp (True, 2))]"
  using umap_clients_share_one_map [OF list_hash.hash_container_axioms rpclib_only_compiled, of
      "[(sample_client ''h'' (sample_umap_reg ''h'') 0 True, PutReq 70000 1),
        (sample_client ''h'' (sample_umap_reg ''h'') 1 False, PutReq 70000 2),
        (sample_client ''h'' (sample_umap_reg ''h'') 2 True, GetReq 70000)]"
      3 "''h''" 0 Map.empty short_keys "\<lambda>_. []" Map.empty]
  by (simp add: sample_joined short_keys_hash list_hash_empty_refines flip: sample_umap_reg_def)

text \<open>
  GetAllData of the hashed map, called by any client, answers every key once with the
  value the whole map gives it.
\<close>
theorem umap_GetAllData_whole_map:
  assumes "hash_container H ok" "compiled_in B impl"
    and J: "joined n p (umap_bindings B H dflt impl p reg) (E, obj)"
    and "refines (\<lambda>k. home n (keyHash K k)) ok (umap_view H) w m"
  shows "\<exists>xs. umap_GetAllData E H obj w = (Inr xs, w) \<and> distinct (map fst xs) \<and> map_of xs = m"
proof -
  note ans = umap_answers(4) [OF assms(2)]
  note store = hash_container.umap_store [OF assms(1)]
  have same: "snd (umap_LocalGetAllDataInServer H c) = c" for c
    by (simp add: umap_LocalGetAllDataInServer_def)
  show ?thesis
    unfolding umap_GetAllData_def
    by (rule gather_refines [OF J ans _ assms(4), where P = "\<lambda>_. True", simplified])
      (simp_all add: same umap_GetAllDataInServer_def dispatch_in_server [OF J ans]
        keyed_store.all_distinct [OF store] keyed_store.all_lookup [OF store])
qed

definition sample_umap_world :: "(nat \<times> nat) list world" where
  "sample_umap_world i = (if i = 2 then [(8, 80), (2, 20)] else if i = 0 then [(3, 30)] else [])"

lemma umap_GetAllData_whole_map_witness:
  "\<exists>xs. umap_GetAllData (sample_env (sample_umap_reg ''h'')) list_hash_lib
           (sample_object ''h'' 1 False) sample_umap_world = (Inr xs, sample_umap_world) \<and>
     distinct (map fst xs) \<and> map_of xs = [8 \<mapsto> 80, 2 \<mapsto> 20, 3 \<mapsto> 30]"
proof (rule umap_GetAllData_whole_map [OF list_hash.hash_container_axioms rpclib_only_compiled
        sample_umap_joined])
  show "refines (\<lambda>k. home 3 (keyHash sample_keys k)) (\<lambda>xs. distinct (map fst xs))
      (umap_view list_hash_lib) sample_umap_world [8 \<mapsto> 80, 2 \<mapsto> 20, 3 \<mapsto> 30]"
    by (auto simp: sample_umap_world_def refines_def placed_def global_view_def umap_view_def
        entries_def list_hash_lib_def home_def fun_eq_iff)
qed simp

end
