(* ===== verification/Ordered_Set.thy ===== *)
theory Ordered_Set
  imports Sample_Cluster
begin

section \<open>basket::set\<close>

text \<open>
  \<open>include/basket/set/set.cpp\<close>: the ordered set, with the operations on the first element
  of one server's part. \<open>L\<close> is the \<open>boost::interprocess::set\<close> of the instance; \<open>dflt\<close> is
  \<open>KeyType()\<close>.
\<close>

subsection \<open>Operations on the local structure\<close>

definition set_LocalPut :: "('k, 'k, 'c) tree_lib \<Rightarrow> 'k \<Rightarrow> 'c \<Rightarrow> bool \<times> 'c" where
  "set_LocalPut L k myset = (True, tl_insert L k myset)"

definition set_LocalGet :: "('k, 'k, 'c) tree_lib \<Rightarrow> 'k \<Rightarrow> 'c \<Rightarrow> bool \<times> 'c" where
  "set_LocalGet L k myset =
     (case tl_find L k myset of (_, e # _) \<Rightarrow> (True, myset) | (_, []) \<Rightarrow> (False, myset))"

definition set_LocalErase :: "('k, 'k, 'c) tree_lib \<Rightarrow> 'k \<Rightarrow> 'c \<Rightarrow> bool \<times> 'c" where
  "set_LocalErase L k myset = (case tl_erase L k myset of (myset', s) \<Rightarrow> (s > 0, myset'))"

definition set_LocalContainsInServer ::
  "'k key_ops \<Rightarrow> ('k, 'k, 'c) tree_lib \<Rightarrow> 'k \<Rightarrow> 'k \<Rightarrow> 'c \<Rightarrow> 'k list \<times> 'c" where
  "set_LocalContainsInServer K L key_start key_end myset =
     (if tl_size L myset = 0 then ([], myset)
      else if tl_size L myset = 1 then
        (case tl_begin L myset of
           (_, e # _) \<Rightarrow> (if key_ge K e key_start then [e] else [], myset)
         | (_, []) \<Rightarrow> ([], myset))
      else
        let lower_bound = tl_lower_bound L key_start myset
        in if snd lower_bound = [] then ([], myset)
           else (scan_loop (\<lambda>e. key_gt K e key_end)
                   (step_back (\<lambda>e. key_gt K key_start e) lower_bound) [], myset))"

definition set_LocalGetAllDataInServer :: "('k, 'k, 'c) tree_lib \<Rightarrow> 'c \<Rightarrow> 'k list \<times> 'c" where
  "set_LocalGetAllDataInServer L myset = (scan_loop (\<lambda>_. False) (tl_begin L myset) [], myset)"

definition set_LocalSeekFirst :: "('k, 'k, 'c) tree_lib \<Rightarrow> 'k \<Rightarrow> 'c \<Rightarrow> (bool \<times> 'k) \<times> 'c" where
  "set_LocalSeekFirst L dflt myset =
     (if tl_size L myset > 0
      then (case tl_begin L myset of
              (_, value # _) \<Rightarrow> ((True, value), myset)
            | (_, []) \<Rightarrow> ((False, dflt), myset))
      else ((False, dflt), myset))"

text \<open>
  \<open>i < n\<close> compares an \<open>int\<close> with a \<open>uint32_t\<close>: the \<open>int\<close> is converted to 32 unsigned bits.
\<close>

fun seek_loop :: "'k iter \<Rightarrow> int \<Rightarrow> u32 \<Rightarrow> 'k list \<Rightarrow> int \<times> 'k list" where
  "seek_loop (bs, []) i n ks = (i, ks)"
| "seek_loop (bs, e # as) i n ks =
     (if (word_of_int i :: u32) < n then seek_loop (iter_next (bs, e # as)) (i + 1) n (ks @ [e])
      else (i, ks))"

definition set_LocalSeekFirstN ::
  "('k, 'k, 'c) tree_lib \<Rightarrow> u32 \<Rightarrow> 'c \<Rightarrow> (bool \<times> 'k list) \<times> 'c" where
  "set_LocalSeekFirstN L n myset =
     (case seek_loop (tl_begin L myset) 0 n [] of (i, ks) \<Rightarrow> ((i > 0, ks), myset))"

definition set_LocalPopFirst :: "('k, 'k, 'c) tree_lib \<Rightarrow> 'k \<Rightarrow> 'c \<Rightarrow> (bool \<times> 'k) \<times> 'c" where
  "set_LocalPopFirst L dflt myset =
     (if tl_size L myset > 0
      then (case tl_begin L myset of
              (bs, value # as) \<Rightarrow> ((True, value), tl_erase_at L (bs, value # as) myset)
            | (_, []) \<Rightarrow> ((False, dflt), myset))
      else ((False, dflt), myset))"

definition set_LocalSize :: "('k, 'k, 'c) tree_lib \<Rightarrow> 'c \<Rightarrow> u64 \<times> 'c" where
  "set_LocalSize L myset = (word_of_nat (tl_size L myset), myset)"

subsection \<open>Construction\<close>

text \<open>
  The Thallium case leaves \<open>_SeekFirstN\<close> unbound.
\<close>

definition set_binds ::
  "'k key_ops \<Rightarrow> ('k, 'k, 'c) tree_lib \<Rightarrow> 'k \<Rightarrow> RPCImplementation \<Rightarrow>
     (string \<times> ('k, 'v, 'c) handler) list" where
  "set_binds K L dflt impl =
     [(''_Put'', handle_key WBool (set_LocalPut L)),
      (''_Get'', handle_key WBool (set_LocalGet L)),
      (''_Erase'', handle_key WBool (set_LocalErase L)),
      (''_GetAllData'', handle0 WKeys (set_LocalGetAllDataInServer L)),
      (''_Contains'', handle_key_key WKeys (set_LocalContainsInServer K L)),
      (''_SeekFirst'', handle0 (\<lambda>(b, k). WFoundKey b k) (set_LocalSeekFirst L dflt)),
      (''_PopFirst'', handle0 (\<lambda>(b, k). WFoundKey b k) (set_LocalPopFirst L dflt))] @
     (if impl = RPCLIB
      then [(''_SeekFirstN'', handle_u32 (\<lambda>(b, ks). WFoundKeys b ks) (set_LocalSeekFirstN L))]
      else []) @
     [(''_Size'', handle0 WSize (set_LocalSize L))]"

definition set_bindings ::
  "build \<Rightarrow> 'k key_ops \<Rightarrow> ('k, 'k, 'c) tree_lib \<Rightarrow> 'k \<Rightarrow> RPCImplementation \<Rightarrow> string \<Rightarrow>
     ('k, 'v, 'c) registry \<Rightarrow> ('k, 'v, 'c) registry" where
  "set_bindings B K L dflt impl func_prefix reg =
     bind_all B impl func_prefix (set_binds K L dflt impl) reg"

definition set_new ::
  "build \<Rightarrow> (string \<Rightarrow> string option) \<Rightarrow> int \<times> int \<Rightarrow> 'k key_ops \<Rightarrow>
     ('k, 'k, 'c) tree_lib \<Rightarrow> 'k \<Rightarrow> string \<Rightarrow> config \<times> rpc_factory \<Rightarrow>
     'c node \<times> ('k, 'v, 'c) registry \<Rightarrow>
     (container \<times> string option \<times> (config \<times> rpc_factory) \<times> 'c node \<times> ('k, 'v, 'c) registry) result"
  where
  "set_new B files mpi K L dflt nam st sys =
     construct_container B files mpi nam obj_name (tl_empty L) (set_bindings B K L dflt) st sys"

subsection \<open>The distributed operations\<close>

definition set_Put ::
  "('k, 'v, 'c) env \<Rightarrow> 'k key_ops \<Rightarrow> ('k, 'k, 'c) tree_lib \<Rightarrow> container \<Rightarrow> 'k \<Rightarrow>
     'c world \<Rightarrow> bool result \<times> 'c world" where
  "set_Put E K L obj k =
     with_route (route_size (keyHash K k) (obj_num_servers obj)) (\<lambda>key_int w.
       if is_local obj key_int then run_local (set_LocalPut L k) (obj_my_server obj) w
       else RPC_CALL_WRAPPER E (obj_rpc obj) (obj_func_prefix obj) ''_Put'' key_int as_bool
              [WKey k] w)"

definition set_Get ::
  "('k, 'v, 'c) env \<Rightarrow> 'k key_ops \<Rightarrow> ('k, 'k, 'c) tree_lib \<Rightarrow> container \<Rightarrow> 'k \<Rightarrow>
     'c world \<Rightarrow> bool result \<times> 'c world" where
  "set_Get E K L obj k =
     with_route (route_size (keyHash K k) (obj_num_servers obj)) (\<lambda>key_int w.
       if is_local obj key_int then run_local (set_LocalGet L k) (obj_my_server obj) w
       else RPC_CALL_WRAPPER E (obj_rpc obj) (obj_func_prefix obj) ''_Get'' key_int as_bool
              [WKey k] w)"

definition set_Erase ::
  "('k, 'v, 'c) env \<Rightarrow> 'k key_ops \<Rightarrow> ('k, 'k, 'c) tree_lib \<Rightarrow> container \<Rightarrow> 'k \<Rightarrow>
     'c world \<Rightarrow> bool result \<times> 'c world" where
  "set_Erase E K L obj k =
     with_route (route_size (keyHash K k) (obj_num_servers obj)) (\<lambda>key_int w.
       if is_local obj key_int then run_local (set_LocalErase L k) (obj_my_server obj) w
       else RPC_CALL_WRAPPER E (obj_rpc obj) (obj_func_prefix obj) ''_Erase'' key_int as_bool
              [WKey k] w)"

definition set_ContainsInServer ::
  "('k, 'v, 'c) env \<Rightarrow> 'k key_ops \<Rightarrow> ('k, 'k, 'c) tree_lib \<Rightarrow> container \<Rightarrow> 'k \<Rightarrow> 'k \<Rightarrow>
     'c world \<Rightarrow> 'k list result \<times> 'c world" where
  "set_ContainsInServer E K L obj key_start key_end w =
     (if obj_server_on_node obj
      then run_local (set_LocalContainsInServer K L key_start key_end) (obj_my_server obj) w
      else RPC_CALL_WRAPPER E (obj_rpc obj) (obj_func_prefix obj) ''_Contains'' (obj_my_server obj)
             as_keys [WKey key_start, WKey key_end] w)"

definition set_Contains ::
  "('k, 'v, 'c) env \<Rightarrow> 'k key_ops \<Rightarrow> ('k, 'k, 'c) tree_lib \<Rightarrow> container \<Rightarrow> 'k \<Rightarrow> 'k \<Rightarrow>
     'c world \<Rightarrow> 'k list result \<times> 'c world" where
  "set_Contains E K L obj key_start key_end =
     gather_all
       (\<lambda>i. RPC_CALL_WRAPPER E (obj_rpc obj) (obj_func_prefix obj) ''_Contains'' i as_keys
              [WKey key_start, WKey key_end])
       (set_ContainsInServer E K L obj key_start key_end) obj"

definition set_GetAllDataInServer ::
  "('k, 'v, 'c) env \<Rightarrow> ('k, 'k, 'c) tree_lib \<Rightarrow> container \<Rightarrow>
     'c world \<Rightarrow> 'k list result \<times> 'c world" where
  "set_GetAllDataInServer E L obj w =
     (if obj_server_on_node obj
      then run_local (set_LocalGetAllDataInServer L) (obj_my_server obj) w
      else RPC_CALL_WRAPPER E (obj_rpc obj) (obj_func_prefix obj) ''_GetAllData''
             (obj_my_server obj) as_keys [] w)"

definition set_GetAllData ::
  "('k, 'v, 'c) env \<Rightarrow> ('k, 'k, 'c) tree_lib \<Rightarrow> container \<Rightarrow>
     'c world \<Rightarrow> 'k list result \<times> 'c world" where
  "set_GetAllData E L obj =
     gather_all
       (\<lambda>i. RPC_CALL_WRAPPER E (obj_rpc obj) (obj_func_prefix obj) ''_GetAllData'' i as_keys [])
       (set_GetAllDataInServer E L obj) obj"

definition set_SeekFirst ::
  "('k, 'v, 'c) env \<Rightarrow> ('k, 'k, 'c) tree_lib \<Rightarrow> 'k \<Rightarrow> container \<Rightarrow> u16 \<Rightarrow>
     'c world \<Rightarrow> (bool \<times> 'k) result \<times> 'c world" where
  "set_SeekFirst E L dflt obj key_int w =
     (if is_local obj key_int then run_local (set_LocalSeekFirst L dflt) (obj_my_server obj) w
      else RPC_CALL_WRAPPER E (obj_rpc obj) (obj_func_prefix obj) ''_SeekFirst'' key_int
             as_found_key [] w)"

definition set_PopFirst ::
  "('k, 'v, 'c) env \<Rightarrow> ('k, 'k, 'c) tree_lib \<Rightarrow> 'k \<Rightarrow> container \<Rightarrow> u16 \<Rightarrow>
     'c world \<Rightarrow> (bool \<times> 'k) result \<times> 'c world" where
  "set_PopFirst E L dflt obj key_int w =
     (if is_local obj key_int then run_local (set_LocalPopFirst L dflt) (obj_my_server obj) w
      else RPC_CALL_WRAPPER E (obj_rpc obj) (obj_func_prefix obj) ''_PopFirst'' key_int
             as_found_key [] w)"

definition set_Size ::
  "('k, 'v, 'c) env \<Rightarrow> ('k, 'k, 'c) tree_lib \<Rightarrow> container \<Rightarrow> u16 \<Rightarrow>
     'c world \<Rightarrow> u64 result \<times> 'c world" where
  "set_Size E L obj key_int w =
     (if is_local obj key_int then run_local (set_LocalSize L) (obj_my_server obj) w
      else RPC_CALL_WRAPPER E (obj_rpc obj) (obj_func_prefix obj) ''_Size'' key_int as_size [] w)"

text \<open>Requests of the set: the values are of type \<open>unit\<close>.\<close>

fun set_request ::
  "'k key_ops \<Rightarrow> ('k, 'k, 'c) tree_lib \<Rightarrow>
     ('k, 'v, 'c) client \<times> ('k, unit) request \<Rightarrow> 'c world \<Rightarrow> unit response result \<times> 'c world"
  where
  "set_request K L ((E, obj), PutReq k _) w = map_outcome PutResp (set_Put E K L obj k w)"
| "set_request K L ((E, obj), GetReq k) w =
     map_outcome (\<lambda>b. GetResp (b, ())) (set_Get E K L obj k w)"
| "set_request K L ((E, obj), EraseReq k) w =
     map_outcome (\<lambda>b. EraseResp (b, ())) (set_Erase E K L obj k w)"

subsection \<open>Every operation runs on the key's server\<close>

lemma set_answers:
  assumes "compiled_in B impl"
  shows "answers (set_bindings B K L dflt impl p reg) (p @ ''_Put'') [WKey k] as_bool
           (set_LocalPut L k)"
    and "answers (set_bindings B K L dflt impl p reg) (p @ ''_Get'') [WKey k] as_bool
           (set_LocalGet L k)"
    and "answers (set_bindings B K L dflt impl p reg) (p @ ''_Erase'') [WKey k] as_bool
           (set_LocalErase L k)"
    and "answers (set_bindings B K L dflt impl p reg) (p @ ''_GetAllData'') [] as_keys
           (set_LocalGetAllDataInServer L)"
    and "answers (set_bindings B K L dflt impl p reg) (p @ ''_Contains'') [WKey lo, WKey hi] as_keys
           (set_LocalContainsInServer K L lo hi)"
    and "answers (set_bindings B K L dflt impl p reg) (p @ ''_SeekFirst'') [] as_found_key
           (set_LocalSeekFirst L dflt)"
    and "answers (set_bindings B K L dflt impl p reg) (p @ ''_PopFirst'') [] as_found_key
           (set_LocalPopFirst L dflt)"
    and "answers (set_bindings B K L dflt impl p reg) (p @ ''_Size'') [] as_size
           (set_LocalSize L)"
  unfolding set_bindings_def
  by (rule bind_all_answers [OF assms], (auto simp: set_binds_def)[1], simp add: set_binds_def,
      auto split: prod.splits)+

lemma set_request_home:
  assumes "joined n p (set_bindings B K L dflt impl p reg) cl" "compiled_in B impl"
  shows "set_request K L (cl, q) w
           = home_request (\<lambda>k _. set_LocalPut L k) (\<lambda>k. with_unit (set_LocalGet L k))
               (\<lambda>k. with_unit (set_LocalErase L k)) (\<lambda>k. home n (keyHash K k)) q w"
proof -
  obtain E obj where cl: "cl = (E, obj)" by fastforce
  note run = dispatch_size [OF assms(1) [unfolded cl]] set_answers [OF assms(2)]
  show ?thesis
    by (cases q)
      (simp_all add: cl set_Put_def set_Get_def set_Erase_def run run_local_with_unit comp_def)
qed

lemma set_PopFirst_home:
  assumes "joined n p (set_bindings B K L dflt impl p reg) (E, obj)" "compiled_in B impl"
    and "unat i < n"
  shows "set_PopFirst E L dflt obj i w = run_local (set_LocalPopFirst L dflt) i w"
  unfolding set_PopFirst_def
  by (rule dispatch_home [OF assms(1) set_answers(7) [OF assms(2)] assms(3)])

subsection \<open>The local operations keep the contract\<close>

definition set_view :: "('k, 'k, 'c) tree_lib \<Rightarrow> 'c \<Rightarrow> 'k \<Rightarrow> unit option" where
  "set_view L c k = (if k \<in> set (elems L c) then Some () else None)"

lemma seek_loop_eq:
  "0 \<le> i \<Longrightarrow> i + int (length (snd it)) < 2 ^ 32 \<Longrightarrow>
     seek_loop it i n ks
       = (i + int (length (take (unat n - nat i) (snd it))), ks @ take (unat n - nat i) (snd it))"
proof (induction it i n ks rule: seek_loop.induct)
  case (1 bs i n ks)
  then show ?case by simp
next
  case (2 bs e as i n ks)
  have "unat (word_of_int i :: u32) = nat i"
    using "2.prems" by (simp add: unat_eq_nat_uint uint_word_of_int)
  then have less: "(word_of_int i :: u32) < n \<longleftrightarrow> nat i < unat n"
    by (simp add: word_less_nat_alt)
  show ?case
  proof (cases "nat i < unat n")
    case True
    then have "unat n - nat i = Suc (unat n - nat (i + 1))"
      using 2 by simp
    then show ?thesis
      using 2 True less by simp
  next
    case False
    then show ?thesis using less by simp
  qed
qed

context set_container
begin

lemma distinct_set_elems: "ok c \<Longrightarrow> distinct (elems L c)"
  using strict_sorted_distinct [OF order] strictly_ascending by blast

lemma set_store:
  "keyed_store (\<lambda>k _. set_LocalPut L k) (\<lambda>k. with_unit (set_LocalGet L k))
     (\<lambda>k. with_unit (set_LocalErase L k))
     (\<lambda>c. (map (\<lambda>k. (k, ())) (fst (set_LocalGetAllDataInServer L c)), c)) (set_view L) ok ()"
proof (unfold_locales, goal_cases)
  case (4 c k)
  then show ?case
    by (cases rule: find_cases [of c k])
      (auto simp: with_unit_def set_LocalGet_def set_view_def)
next
  case (5 c k)
  then show ?case
    using count_erase_pos [of c k]
    by (simp add: with_unit_def set_LocalErase_def set_view_def split_beta)
qed (auto simp: set_LocalPut_def set_LocalErase_def set_LocalGetAllDataInServer_def with_unit_def
    set_view_def ok_insert set_elems_insert ok_erase elems_erase split_beta begin_eq
    scan_loop_all distinct_set_elems map_of_unit comp_def fun_eq_iff)

lemma set_range_exact:
  assumes "ok c" "\<And>a b. key_gt K a b \<longleftrightarrow> lt b a" "tl_size L c \<noteq> 1"
  shows "set_LocalContainsInServer K L lo hi c
           = (filter (\<lambda>e. \<not> lt e lo \<and> \<not> lt hi e) (elems L c), c)"
proof -
  obtain bs as where lb: "tl_lower_bound L lo c = (bs, as)" by fastforce
  note scan = range_scan [OF assms(1), of "key_gt K" hi lo, OF assms(2), unfolded lb]
  have "tl_size L c = 0 \<Longrightarrow> elems L c = []"
    using size_elems [OF assms(1)] by simp
  moreover have "as = [] \<Longrightarrow> filter (\<lambda>e. \<not> lt e lo \<and> \<not> lt hi e) (elems L c) = []"
    using lower_bound_end [OF assms(1)] lb by simp
  ultimately show ?thesis
    using assms(3) scan by (auto simp: set_LocalContainsInServer_def Let_def lb)
qed

lemma set_PopFirst_cases:
  assumes "ok c"
  shows "set_LocalPopFirst L dflt c
           = (case elems L c of
                [] \<Rightarrow> ((False, dflt), c)
              | k # ks \<Rightarrow> ((True, k), tl_erase_at L ([], k # ks) c))"
    and "ok (snd (set_LocalPopFirst L dflt c))"
    and "elems L (snd (set_LocalPopFirst L dflt c)) = tl (elems L c)"
  using size_elems [OF assms] begin_eq [OF assms] assms ok_erase_at [OF assms, of "[]"]
    elems_erase_at [OF assms, of "[]"]
  by (auto simp: set_LocalPopFirst_def split: list.splits)

end

sublocale set_container \<subseteq> sstore: keyed_store "\<lambda>k _. set_LocalPut L k"
  "\<lambda>k. with_unit (set_LocalGet L k)" "\<lambda>k. with_unit (set_LocalErase L k)"
  "\<lambda>c. (map (\<lambda>k. (k, ())) (fst (set_LocalGetAllDataInServer L c)), c)" "set_view L" ok "()"
  by (rule set_store)

interpretation list_set_store: keyed_store
  "\<lambda>k _. set_LocalPut (list_set_lib ((<) :: 'k::linorder \<Rightarrow> 'k \<Rightarrow> bool)) k"
  "\<lambda>k. with_unit (set_LocalGet (list_set_lib (<)) k)"
  "\<lambda>k. with_unit (set_LocalErase (list_set_lib (<)) k)"
  "\<lambda>c. (map (\<lambda>k. (k, ())) (fst (set_LocalGetAllDataInServer (list_set_lib (<)) c)), c)"
  "set_view (list_set_lib (<))" "sorted_wrt (<)" "()"
  by (rule list_set.set_store)

subsection \<open>Properties\<close>

text \<open>
  C2: any sequence of Put, Get and Erase calls on the set, by any clients, returns what the
  same calls return on one set (a map to \<open>unit\<close>), and leaves servers that together hold it.
\<close>
theorem set_clients_share_one_set:
  assumes "set_container L lt ok" "compiled_in B impl"
    and "\<forall>r \<in> set reqs. joined n p (set_bindings B K L dflt impl p reg) (fst r)"
    and "refines (\<lambda>k. home n (keyHash K k)) ok (set_view L) w m"
  shows "fst (run_requests (set_request K L) reqs w)
           = map Inr (fst (run_requests (spec_request ()) (map snd reqs) m)) \<and>
         refines (\<lambda>k. home n (keyHash K k)) ok (set_view L)
           (snd (run_requests (set_request K L) reqs w))
           (snd (run_requests (spec_request ()) (map snd reqs) m))"
proof (rule keyed_store.requests_refine [OF set_container.set_store [OF assms(1)] assms(4)])
  show "set_request K L q w = home_request (\<lambda>k _. set_LocalPut L k)
      (\<lambda>k. with_unit (set_LocalGet L k)) (\<lambda>k. with_unit (set_LocalErase L k))
      (\<lambda>k. home n (keyHash K k)) (snd q) w"
    if "q \<in> set reqs" for q w
    using set_request_home [OF bspec [OF assms(3) that] assms(2), of "snd q" w] by simp
qed

definition sample_set_reg :: "string \<Rightarrow> (nat, nat, nat list) registry" where
  "sample_set_reg nam =
     set_bindings rpclib_only sample_keys (list_set_lib (<)) 0 RPCLIB nam Map.empty"

lemma sample_set_joined:
  "unat my < 3 \<Longrightarrow>
     joined 3 nam (set_bindings rpclib_only sample_keys (list_set_lib (<)) 0 RPCLIB nam Map.empty)
       (sample_env (sample_set_reg nam), sample_object nam my on_node)"
  using sample_joined_pair by (simp add: sample_set_reg_def)

lemma list_set_empty_refines:
  "refines hm (sorted_wrt lt) (set_view (list_set_lib lt)) (\<lambda>_. []) (\<lambda>_. None)"
  by (simp add: refines_def placed_def global_view_def set_view_def ol_defs fun_eq_iff)

lemma set_clients_share_one_set_witness:
  "fst (run_requests (set_request sample_keys (list_set_lib (<)))
          [(sample_client ''s'' (sample_set_reg ''s'') 0 True, PutReq 7 ()),
           (sample_client ''s'' (sample_set_reg ''s'') 1 False, GetReq 7),
           (sample_client ''s'' (sample_set_reg ''s'') 2 True, EraseReq 8),
           (sample_client ''s'' (sample_set_reg ''s'') 1 True, EraseReq 7)] (\<lambda>_. []))
     = [Inr (PutResp True), Inr (GetResp (True, ())), Inr (EraseResp (False, ())),
        Inr (EraseResp (True, ()))]"
  using set_clients_share_one_set [OF list_set.set_container_axioms rpclib_only_compiled, of
      "[(sample_client ''s'' (sample_set_reg ''s'') 0 True, PutReq 7 ()),
        (sample_client ''s'' (sample_set_reg ''s'') 1 False, GetReq 7),
        (sample_client ''s'' (sample_set_reg ''s'') 2 True, EraseReq 8),
        (sample_client ''s'' (sample_set_reg ''s'') 1 True, EraseReq 7)]"
      3 "''s''" sample_keys 0 Map.empty "\<lambda>_. []" Map.empty]
  by (simp add: sample_joined list_set_empty_refines flip: sample_set_reg_def)

definition sample_set_world :: "nat list world" where
  "sample_set_world i = (if i = 2 then [2, 5, 8] else if i = 0 then [3, 6] else [])"

lemma sample_set_world_refines:
  "refines (\<lambda>k. home 3 (keyHash sample_keys k)) (sorted_wrt (<)) (set_view (list_set_lib (<)))
     sample_set_world [2 \<mapsto> (), 5 \<mapsto> (), 8 \<mapsto> (), 3 \<mapsto> (), 6 \<mapsto> ()]"
  by (auto simp: sample_set_world_def refines_def placed_def global_view_def set_view_def ol_defs
      home_def fun_eq_iff)

text \<open>
  Contains of the set answers exactly the keys of the whole set between the two bounds,
  both included, each once, provided that no server holds exactly one key and \<open>operator>\<close>
  agrees with \<open>Compare\<close>.
\<close>
theorem set_Contains_range:
  assumes "set_container L lt ok" "compiled_in B impl"
    and J: "joined n p (set_bindings B K L dflt impl p reg) (E, obj)"
    and "refines (\<lambda>k. home n (keyHash K k)) ok (set_view L) w m"
    and "\<And>a b. key_gt K a b \<longleftrightarrow> lt b a" and "\<And>i. tl_size L (w i) \<noteq> 1"
  shows "\<exists>xs. set_Contains E K L obj lo hi w = (Inr xs, w) \<and> distinct xs \<and>
           set xs = {k. (\<not> lt k lo \<and> \<not> lt hi k) \<and> m k \<noteq> None}"
proof -
  note ans = set_answers(5) [OF assms(2)]
  have same: "snd (set_LocalContainsInServer K L lo hi c) = c" for c
    by (simp add: set_LocalContainsInServer_def Let_def split: list.splits prod.splits)
  show ?thesis
    unfolding set_Contains_def
    by (rule gather_refines_keys [OF J ans _ assms(4)])
      (auto simp: same set_ContainsInServer_def dispatch_in_server [OF J ans] set_view_def
        set_container.set_range_exact [OF assms(1) _ assms(5,6)]
        set_container.distinct_set_elems [OF assms(1)])
qed

lemma set_Contains_range_witness:
  "\<exists>xs. set_Contains (sample_env (sample_set_reg ''s'')) sample_keys (list_set_lib (<))
           (sample_object ''s'' 1 True) 3 7 sample_set_world = (Inr xs, sample_set_world) \<and>
     distinct xs \<and>
     set xs = {k. (\<not> k < 3 \<and> \<not> 7 < k) \<and>
       [2 \<mapsto> (), 5 \<mapsto> (), 8 \<mapsto> (), 3 \<mapsto> (), 6 \<mapsto> ()] k \<noteq> None}"
  by (rule set_Contains_range [OF list_set.set_container_axioms rpclib_only_compiled
        sample_set_joined sample_set_world_refines])
    (simp_all add: sample_set_world_def ol_defs)

text \<open>
  GetAllData of the set, called by any client, answers every key of the whole set once.
\<close>
theorem set_GetAllData_whole_set:
  assumes "set_container L lt ok" "compiled_in B impl"
    and J: "joined n p (set_bindings B K L dflt impl p reg) (E, obj)"
    and "refines (\<lambda>k. home n (keyHash K k)) ok (set_view L) w m"
  shows "\<exists>xs. set_GetAllData E L obj w = (Inr xs, w) \<and> distinct xs \<and> set xs = dom m"
proof -
  note ans = set_answers(4) [OF assms(2)]
  have all: "set_LocalGetAllDataInServer L c = (elems L c, c)" for c
    by (simp add: set_LocalGetAllDataInServer_def scan_loop_all elems_def)
  have "\<exists>xs. set_GetAllData E L obj w = (Inr xs, w) \<and> distinct xs \<and> set xs = {k. True \<and> m k \<noteq> None}"
    unfolding set_GetAllData_def
    by (rule gather_refines_keys [OF J ans _ assms(4)])
      (auto simp: all set_GetAllDataInServer_def dispatch_in_server [OF J ans] set_view_def
        set_container.distinct_set_elems [OF assms(1)])
  then show ?thesis by (auto simp: dom_def)
qed

lemma set_GetAllData_whole_set_witness:
  "\<exists>xs. set_GetAllData (sample_env (sample_set_reg ''s'')) (list_set_lib (<))
           (sample_object ''s'' 0 False) sample_set_world = (Inr xs, sample_set_world) \<and>
     distinct xs \<and> set xs = {2, 3, 5, 6, 8}"
  using set_GetAllData_whole_set [OF list_set.set_container_axioms rpclib_only_compiled
      sample_set_joined sample_set_world_refines, of 0 "''s''" False]
  by (auto simp: insert_commute)

text \<open>
  PopFirst calls on one server, by any clients, drain its part of the set in ascending
  order, one element each; further calls answer \<open>false\<close>. The other servers are untouched.
\<close>
theorem set_PopFirst_drains_in_order:
  assumes "set_container L lt ok" "compiled_in B impl"
    and "\<forall>cl \<in> set cls. joined n p (set_bindings B K L dflt impl p reg) cl"
    and "unat i < n" "ok (w i)"
  shows "fst (run_requests (\<lambda>cl. set_PopFirst (fst cl) L dflt (snd cl) i) cls w)
           = map Inr (pops (length cls) dflt (elems L (w i))) \<and>
         sorted_wrt lt (elems L (w i)) \<and>
         elems L (snd (run_requests (\<lambda>cl. set_PopFirst (fst cl) L dflt (snd cl) i) cls w) i)
           = drop (length cls) (elems L (w i)) \<and>
         (\<forall>j. j = i \<or>
           snd (run_requests (\<lambda>cl. set_PopFirst (fst cl) L dflt (snd cl) i) cls w) j = w j)"
  using assms(3,5)
proof (induction cls arbitrary: w)
  case Nil
  then show ?case
    using set_container.strictly_ascending [OF assms(1)] by simp
next
  case (Cons cl cls)
  note IH = Cons.IH and prems = Cons.prems
  note pop = set_container.set_PopFirst_cases [OF assms(1) Cons.prems(2), of dflt]
  obtain E obj where cl: "cl = (E, obj)" by fastforce
  have J: "joined n p (set_bindings B K L dflt impl p reg) (E, obj)"
    using Cons.prems(1) cl by simp
  have step: "set_PopFirst E L dflt obj i w = run_local (set_LocalPopFirst L dflt) i w"
    by (rule set_PopFirst_home [OF J assms(2,4)])
  have sorted: "sorted_wrt lt (elems L (w i))"
    by (rule set_container.strictly_ascending [OF assms(1) Cons.prems(2)])
  show ?case
  proof (cases "elems L (w i)")
    case Nil
    then have "set_PopFirst E L dflt obj i w = (Inr (False, dflt), w)"
      using pop(1) by (simp add: step run_local_def)
    then show ?thesis
      using IH [of w] prems Nil by (simp add: cl split_beta)
  next
    case (Cons k ks)
    define c where "c = tl_erase_at L ([], k # ks) (w i)"
    have p: "set_LocalPopFirst L dflt (w i) = ((True, k), c)" "ok c" "elems L c = ks"
      using pop Cons by (simp_all add: c_def)
    then have "set_PopFirst E L dflt obj i w = (Inr (True, k), w(i := c))"
      by (simp add: step run_local_def)
    moreover have "(\<forall>j. j = i \<or> v j = (w(i := c)) j) \<longleftrightarrow> (\<forall>j. j = i \<or> v j = w j)" for v
      by auto
    ultimately show ?thesis
      using IH [of "w(i := c)"] prems(1) p(2,3) Cons sorted
      by (simp add: cl split_beta del: fun_upd_apply) simp
  qed
qed

lemma set_PopFirst_drains_in_order_witness:
  "fst (run_requests (\<lambda>cl. set_PopFirst (fst cl) (list_set_lib (<)) 0 (snd cl) 0)
          [sample_client ''s'' (sample_set_reg ''s'') 0 True,
           sample_client ''s'' (sample_set_reg ''s'') 1 True,
           sample_client ''s'' (sample_set_reg ''s'') 2 False] sample_set_world)
     = [Inr (True, 3), Inr (True, 6), Inr (False, 0)]"
  using set_PopFirst_drains_in_order [OF list_set.set_container_axioms rpclib_only_compiled, of
      "[sample_client ''s'' (sample_set_reg ''s'') 0 True,
        sample_client ''s'' (sample_set_reg ''s'') 1 True,
        sample_client ''s'' (sample_set_reg ''s'') 2 False]"
      3 "''s''" sample_keys 0 Map.empty 0 sample_set_world]
  by (simp add: sample_joined sample_set_world_def del: run_requests.simps
      flip: sample_set_reg_def)

text \<open>
  SeekFirst answers the least key of the server's part and leaves it there; SeekFirstN
  answers the \<open>n\<close> least keys in order, fewer only if there are fewer (for parts of less than
  \<open>2 ^ 31\<close> keys, so that the loop's \<open>int\<close> counter does not overflow).
\<close>
theorem set_SeekFirst_least:
  assumes "set_container L lt ok" "ok c" "length (elems L c) < 2 ^ 31"
  shows "(case elems L c of
            [] \<Rightarrow> set_LocalSeekFirst L dflt c = ((False, dflt), c)
          | k # ks \<Rightarrow> set_LocalSeekFirst L dflt c = ((True, k), c) \<and> list_all (lt k) ks) \<and>
         set_LocalSeekFirstN L n c
           = ((elems L c \<noteq> [] \<and> n \<noteq> 0, take (unat n) (elems L c)), c)"
proof -
  note C = assms(1) [unfolded set_container_def]
  have b: "tl_begin L c = ([], elems L c)" "tl_size L c = length (elems L c)"
    using C assms(2) tree_container.begin_eq tree_container.size_elems by metis+
  have "sorted_wrt lt (elems L c)"
    using set_container.strictly_ascending [OF assms(1,2)] .
  moreover have "n = 0 \<longleftrightarrow> unat n = 0"
    by (simp add: unat_eq_0)
  ultimately show ?thesis
    using assms(3) seek_loop_eq [of 0 "([], elems L c)" n "[]"]
    by (auto simp: set_LocalSeekFirst_def set_LocalSeekFirstN_def b list_all_iff
        split: list.splits)
qed

lemma set_SeekFirst_least_witness:
  "set_LocalSeekFirst (list_set_lib (<)) 0 [3 :: nat, 6, 9] = ((True, 3), [3, 6, 9]) \<and>
   set_LocalSeekFirstN (list_set_lib (<)) 2 [3 :: nat, 6, 9] = ((True, [3, 6]), [3, 6, 9])"
  using set_SeekFirst_least [OF list_set.set_container_axioms, of "[3 :: nat, 6, 9]" 0 2]
  by simp

text \<open>
  On a server that holds exactly one key the range query looks at the lower bound only:
  a key above the upper bound is answered.
\<close>
lemma set_single_key_ignores_upper_bound:
  assumes "set_container L lt ok" "ok c" "elems L c = [e]"
    and "\<And>a b. key_ge K a b \<longleftrightarrow> \<not> lt a b"
  shows "set_LocalContainsInServer K L lo hi c = (if lt e lo then [] else [e], c)"
proof -
  note C = assms(1) [unfolded set_container_def]
  have "tl_begin L c = ([], [e])" "tl_size L c = 1"
    using C assms(2,3) tree_container.begin_eq tree_container.size_elems
    by (metis, metis length_Cons list.size(3) One_nat_def)
  then show ?thesis
    by (simp add: set_LocalContainsInServer_def assms(4))
qed

end
