(* ===== verification/Multi_Map.thy ===== *)
theory Multi_Map
  imports Sample_Cluster
begin

section \<open>basket::multimap\<close>

text \<open>
  \<open>include/basket/multimap/multimap.cpp\<close>. \<open>L\<close> is the \<open>boost::interprocess::multimap\<close> of the
  instance. Put erases the entry it finds under the key before it inserts. The search by
  key uses the key type's \<open>Contains\<close> method, \<open>key_Contains K\<close>.
\<close>

subsection \<open>Operations on the local structure\<close>

definition mmap_LocalPut ::
  "('k, 'k \<times> 'v, 'c) tree_lib \<Rightarrow> 'k \<Rightarrow> 'v \<Rightarrow> 'c \<Rightarrow> bool \<times> 'c" where
  "mmap_LocalPut L k data mymap =
     (let erased = (case tl_find L k mymap of
                      (bs, e # as) \<Rightarrow> tl_erase_at L (bs, e # as) mymap
                    | (_, []) \<Rightarrow> mymap)
      in (True, tl_insert L (k, data) erased))"

definition mmap_LocalGet ::
  "('k, 'k \<times> 'v, 'c) tree_lib \<Rightarrow> 'v \<Rightarrow> 'k \<Rightarrow> 'c \<Rightarrow> (bool \<times> 'v) \<times> 'c" where
  "mmap_LocalGet L dflt k mymap =
     (case tl_find L k mymap of
        (_, e # _) \<Rightarrow> ((True, snd e), mymap)
      | (_, []) \<Rightarrow> ((False, dflt), mymap))"

definition mmap_LocalErase ::
  "('k, 'k \<times> 'v, 'c) tree_lib \<Rightarrow> 'v \<Rightarrow> 'k \<Rightarrow> 'c \<Rightarrow> (bool \<times> 'v) \<times> 'c" where
  "mmap_LocalErase L dflt k mymap =
     (case tl_erase L k mymap of (mymap', s) \<Rightarrow> ((s > 0, dflt), mymap'))"

definition mmap_LocalContainsInServer ::
  "'k key_ops \<Rightarrow> ('k, 'k \<times> 'v, 'c) tree_lib \<Rightarrow> 'k \<Rightarrow> 'c \<Rightarrow> ('k \<times> 'v) list \<times> 'c" where
  "mmap_LocalContainsInServer K L k mymap =
     (if tl_size L mymap = 0 then ([], mymap)
      else if tl_size L mymap = 1 then
        (case tl_begin L mymap of (_, e # _) \<Rightarrow> ([e], mymap) | (_, []) \<Rightarrow> ([], mymap))
      else
        let lower_bound = tl_lower_bound L k mymap
        in if snd lower_bound = [] then ([], mymap)
           else (scan_loop (\<lambda>e. \<not> (key_Contains K k (fst e) \<or> key_Contains K (fst e) k))
                   (step_back (\<lambda>e. \<not> key_Contains K k (fst e)) lower_bound) [], mymap))"

definition mmap_LocalGetAllDataInServer ::
  "('k, 'k \<times> 'v, 'c) tree_lib \<Rightarrow> 'c \<Rightarrow> ('k \<times> 'v) list \<times> 'c" where
  "mmap_LocalGetAllDataInServer L mymap = (scan_loop (\<lambda>_. False) (tl_begin L mymap) [], mymap)"

subsection \<open>Construction\<close>

definition mmap_bindings ::
  "build \<Rightarrow> 'k key_ops \<Rightarrow> ('k, 'k \<times> 'v, 'c) tree_lib \<Rightarrow> 'v \<Rightarrow> RPCImplementation \<Rightarrow> string \<Rightarrow>
     ('k, 'v, 'c) registry \<Rightarrow> ('k, 'v, 'c) registry" where
  "mmap_bindings B K L dflt impl func_prefix reg =
     RPC_bind B impl (func_prefix @ ''_Contains'')
       (handle_key WPairs (mmap_LocalContainsInServer K L))
    (RPC_bind B impl (func_prefix @ ''_GetAllData'')
       (handle0 WPairs (mmap_LocalGetAllDataInServer L))
    (RPC_bind B impl (func_prefix @ ''_Erase'')
       (handle_key (\<lambda>(b, v). WFoundVal b v) (mmap_LocalErase L dflt))
    (RPC_bind B impl (func_prefix @ ''_Get'')
       (handle_key (\<lambda>(b, v). WFoundVal b v) (mmap_LocalGet L dflt))
    (RPC_bind B impl (func_prefix @ ''_Put'')
       (handle_key_val WBool (mmap_LocalPut L)) reg))))"

definition mmap_new ::
  "build \<Rightarrow> (string \<Rightarrow> string option) \<Rightarrow> int \<times> int \<Rightarrow> 'k key_ops \<Rightarrow>
     ('k, 'k \<times> 'v, 'c) tree_lib \<Rightarrow> 'v \<Rightarrow> string \<Rightarrow> config \<times> rpc_factory \<Rightarrow>
     'c node \<times> ('k, 'v, 'c) registry \<Rightarrow>
     (container \<times> string option \<times> (config \<times> rpc_factory) \<times> 'c node \<times> ('k, 'v, 'c) registry) result"
  where
  "mmap_new B files mpi K L dflt nam st sys =
     construct_container B files mpi nam obj_name (tl_empty L) (mmap_bindings B K L dflt) st sys"

subsection \<open>The distributed operations\<close>

definition mmap_Put ::
  "('k, 'v, 'c) env \<Rightarrow> 'k key_ops \<Rightarrow> ('k, 'k \<times> 'v, 'c) tree_lib \<Rightarrow> container \<Rightarrow> 'k \<Rightarrow> 'v \<Rightarrow>
     'c world \<Rightarrow> bool result \<times> 'c world" where
  "mmap_Put E K L obj k data =
     with_route (route_size (keyHash K k) (obj_num_servers obj)) (\<lambda>key_int w.
       if is_local obj key_int then run_local (mmap_LocalPut L k data) (obj_my_server obj) w
       else RPC_CALL_WRAPPER E (obj_rpc obj) (obj_func_prefix obj) ''_Put'' key_int as_bool
              [WKey k, WVal data] w)"

definition mmap_Get ::
  "('k, 'v, 'c) env \<Rightarrow> 'k key_ops \<Rightarrow> ('k, 'k \<times> 'v, 'c) tree_lib \<Rightarrow> 'v \<Rightarrow> container \<Rightarrow> 'k \<Rightarrow>
     'c world \<Rightarrow> (bool \<times> 'v) result \<times> 'c world" where
  "mmap_Get E K L dflt obj k =
     with_route (route_size (keyHash K k) (obj_num_servers obj)) (\<lambda>key_int w.
       if is_local obj key_int then run_local (mmap_LocalGet L dflt k) (obj_my_server obj) w
       else RPC_CALL_WRAPPER E (obj_rpc obj) (obj_func_prefix obj) ''_Get'' key_int as_found_val
              [WKey k] w)"

definition mmap_Erase ::
  "('k, 'v, 'c) env \<Rightarrow> 'k key_ops \<Rightarrow> ('k, 'k \<times> 'v, 'c) tree_lib \<Rightarrow> 'v \<Rightarrow> container \<Rightarrow> 'k \<Rightarrow>
     'c world \<Rightarrow> (bool \<times> 'v) result \<times> 'c world" where
  "mmap_Erase E K L dflt obj k =
     with_route (route_size (keyHash K k) (obj_num_servers obj)) (\<lambda>key_int w.
       if is_local obj key_int then run_local (mmap_LocalErase L dflt k) (obj_my_server obj) w
       else RPC_CALL_WRAPPER E (obj_rpc obj) (obj_func_prefix obj) ''_Erase'' key_int as_found_val
              [WKey k] w)"

definition mmap_ContainsInServer ::
  "('k, 'v, 'c) env \<Rightarrow> 'k key_ops \<Rightarrow> ('k, 'k \<times> 'v, 'c) tree_lib \<Rightarrow> container \<Rightarrow> 'k \<Rightarrow>
     'c world \<Rightarrow> ('k \<times> 'v) list result \<times> 'c world" where
  "mmap_ContainsInServer E K L obj k w =
     (if obj_server_on_node obj
      then run_local (mmap_LocalContainsInServer K L k) (obj_my_server obj) w
      else RPC_CALL_WRAPPER E (obj_rpc obj) (obj_func_prefix obj) ''_Contains'' (obj_my_server obj)
             as_pairs [WKey k] w)"

definition mmap_Contains ::
  "('k, 'v, 'c) env \<Rightarrow> 'k key_ops \<Rightarrow> ('k, 'k \<times> 'v, 'c) tree_lib \<Rightarrow> container \<Rightarrow> 'k \<Rightarrow>
     'c world \<Rightarrow> ('k \<times> 'v) list result \<times> 'c world" where
  "mmap_Contains E K L obj k =
     gather_all
       (\<lambda>i. RPC_CALL_WRAPPER E (obj_rpc obj) (obj_func_prefix obj) ''_Contains'' i as_pairs
              [WKey k])
       (mmap_ContainsInServer E K L obj k) obj"

definition mmap_GetAllDataInServer ::
  "('k, 'v, 'c) env \<Rightarrow> ('k, 'k \<times> 'v, 'c) tree_lib \<Rightarrow> container \<Rightarrow>
     'c world \<Rightarrow> ('k \<times> 'v) list result \<times> 'c world" where
  "mmap_GetAllDataInServer E L obj w =
     (if obj_server_on_node obj
      then run_local (mmap_LocalGetAllDataInServer L) (obj_my_server obj) w
      else RPC_CALL_WRAPPER E (obj_rpc obj) (obj_func_prefix obj) ''_GetAllData''
             (obj_my_server obj) as_pairs [] w)"

definition mmap_GetAllData ::
  "('k, 'v, 'c) env \<Rightarrow> ('k, 'k \<times> 'v, 'c) tree_lib \<Rightarrow> container \<Rightarrow>
     'c world \<Rightarrow> ('k \<times> 'v) list result \<times> 'c world" where
  "mmap_GetAllData E L obj =
     gather_all
       (\<lambda>i. RPC_CALL_WRAPPER E (obj_rpc obj) (obj_func_prefix obj) ''_GetAllData'' i as_pairs [])
       (mmap_GetAllDataInServer E L obj) obj"

fun mmap_request ::
  "'k key_ops \<Rightarrow> ('k, 'k \<times> 'v, 'c) tree_lib \<Rightarrow> 'v \<Rightarrow>
     ('k, 'v, 'c) client \<times> ('k, 'v) request \<Rightarrow> 'c world \<Rightarrow> 'v response result \<times> 'c world" where
  "mmap_request K L dflt ((E, obj), PutReq k v) w = map_outcome PutResp (mmap_Put E K L obj k v w)"
| "mmap_request K L dflt ((E, obj), GetReq k) w = map_outcome GetResp (mmap_Get E K L dflt obj k w)"
| "mmap_request K L dflt ((E, obj), EraseReq k) w =
     map_outcome EraseResp (mmap_Erase E K L dflt obj k w)"

subsection \<open>Every operation runs on the key's server\<close>

lemma mmap_answers:
  assumes "compiled_in B impl"
  shows "answers (mmap_bindings B K L dflt impl p reg) (p @ ''_Put'') [WKey k, WVal v] as_bool
           (mmap_LocalPut L k v)"
    and "answers (mmap_bindings B K L dflt impl p reg) (p @ ''_Get'') [WKey k] as_found_val
           (mmap_LocalGet L dflt k)"
    and "answers (mmap_bindings B K L dflt impl p reg) (p @ ''_Erase'') [WKey k] as_found_val
           (mmap_LocalErase L dflt k)"
    and "answers (mmap_bindings B K L dflt impl p reg) (p @ ''_GetAllData'') [] as_pairs
           (mmap_LocalGetAllDataInServer L)"
    and "answers (mmap_bindings B K L dflt impl p reg) (p @ ''_Contains'') [WKey k] as_pairs
           (mmap_LocalContainsInServer K L k)"
  using assms by (simp_all add: answers_def mmap_bindings_def RPC_bind_def split_beta)

lemma mmap_request_home:
  assumes "joined n p (mmap_bindings B K L dflt impl p reg) cl" "compiled_in B impl"
  shows "mmap_request K L dflt (cl, q) w
           = home_request (mmap_LocalPut L) (mmap_LocalGet L dflt) (mmap_LocalErase L dflt)
               (\<lambda>k. home n (keyHash K k)) q w"
proof -
  obtain E obj where cl: "cl = (E, obj)" by fastforce
  note run = dispatch_size [OF assms(1) [unfolded cl]] mmap_answers [OF assms(2)]
  show ?thesis
    by (cases q) (simp_all add: cl mmap_Put_def mmap_Get_def mmap_Erase_def run)
qed

subsection \<open>The local operations keep the contract\<close>

text \<open>The invariant Put and Erase keep: every key at most once.\<close>

definition mmap_ok :: "('k, 'k \<times> 'v, 'c) tree_lib \<Rightarrow> ('c \<Rightarrow> bool) \<Rightarrow> 'c \<Rightarrow> bool" where
  "mmap_ok L ok c \<longleftrightarrow> ok c \<and> distinct (map fst (elems L c))"

definition mmap_view :: "('k, 'k \<times> 'v, 'c) tree_lib \<Rightarrow> 'c \<Rightarrow> 'k \<Rightarrow> 'v option" where
  "mmap_view L c = map_of (elems L c)"

context multimap_container
begin

lemma mmap_erased:
  assumes "mmap_ok L ok c"
  obtains c' where "mmap_LocalPut L k v c = (True, tl_insert L (k, v) c')" "ok c'"
    and "elems L c' = filter (\<lambda>e. fst e \<noteq> k) (elems L c)"
proof -
  have c: "ok c" "distinct (map fst (elems L c))"
    using assms by (simp_all add: mmap_ok_def)
  show thesis
  proof (cases rule: find_cases [OF c(1), of k])
    case (1 bs)
    then have "filter (\<lambda>e. fst e \<noteq> k) (elems L c) = elems L c"
      by (auto simp: filter_id_conv)
    then show ?thesis
      using that [of c] 1 c(1) by (simp add: mmap_LocalPut_def)
  next
    case (2 bs e as)
    then have "filter (\<lambda>e. fst e \<noteq> k) (elems L c) = rev bs @ as"
      using c(2) filter_key_split [of "rev bs" e as] by simp
    then show ?thesis
      using that [of "tl_erase_at L (bs, e # as) c"] 2 ok_erase_at [OF c(1) 2(3)]
        elems_erase_at [OF c(1) 2(3)]
      by (simp add: mmap_LocalPut_def)
  qed
qed

lemma mmap_put:
  assumes "mmap_ok L ok c"
  shows "fst (mmap_LocalPut L k v c) = True" and "mmap_ok L ok (snd (mmap_LocalPut L k v c))"
    and "mmap_view L (snd (mmap_LocalPut L k v c)) = (mmap_view L c)(k \<mapsto> v)"
proof -
  obtain c' where c': "mmap_LocalPut L k v c = (True, tl_insert L (k, v) c')" "ok c'"
    "elems L c' = filter (\<lambda>e. fst e \<noteq> k) (elems L c)"
    by (rule mmap_erased [OF assms])
  have "distinct (map fst (elems L c'))"
    using assms by (simp add: c'(3) mmap_ok_def distinct_map_filter)
  moreover have "k \<notin> fst ` set (elems L c')"
    by (auto simp: c'(3))
  ultimately have "distinct (map fst (elems L (tl_insert L (k, v) c')))"
    "map_of (elems L (tl_insert L (k, v) c')) = (map_of (elems L c'))(k \<mapsto> v)"
    using add_entry [OF mset_elems_insert [OF c'(2)]] by blast+
  then show "fst (mmap_LocalPut L k v c) = True" "mmap_ok L ok (snd (mmap_LocalPut L k v c))"
    "mmap_view L (snd (mmap_LocalPut L k v c)) = (mmap_view L c)(k \<mapsto> v)"
    using ok_insert_multi [OF c'(2)]
    by (simp_all add: c'(1,3) mmap_ok_def mmap_view_def map_of_filter_neq)
qed

lemma mmap_store:
  "keyed_store (mmap_LocalPut L) (mmap_LocalGet L dflt) (mmap_LocalErase L dflt)
     (mmap_LocalGetAllDataInServer L) (mmap_view L) (mmap_ok L ok) dflt"
proof (unfold_locales, goal_cases)
  case (4 c k)
  then have c: "ok c" "distinct (map fst (elems L c))"
    by (simp_all add: mmap_ok_def)
  show ?case
  proof (cases rule: find_cases [OF c(1), of k])
    case (1 bs)
    then have "mmap_view L c k = None"
      by (simp add: mmap_view_def map_of_eq_None_iff)
    then show ?thesis
      using 1 by (simp add: mmap_LocalGet_def)
  next
    case (2 bs e as)
    then have "mmap_view L c k = Some (snd e)"
      unfolding mmap_view_def using c(2)
      by (metis in_set_conv_decomp map_of_eq_Some_iff prod.collapse)
    then show ?thesis
      using 2 by (simp add: mmap_LocalGet_def)
  qed
next
  case (5 c k)
  then show ?case
    using count_erase_pos [of c k] dom_map_of_fst [of k "elems L c"]
    by (simp add: mmap_LocalErase_def mmap_view_def mmap_ok_def split_beta)
qed (simp_all add: mmap_put, simp_all add: mmap_LocalErase_def mmap_LocalGetAllDataInServer_def
    mmap_view_def mmap_ok_def ok_erase elems_erase map_of_filter_neq split_beta
    begin_eq scan_loop_all distinct_map_filter)

end

sublocale multimap_container \<subseteq> mstore: keyed_store "mmap_LocalPut L" "mmap_LocalGet L dflt"
  "mmap_LocalErase L dflt" "mmap_LocalGetAllDataInServer L" "mmap_view L" "mmap_ok L ok" dflt
  for dflt
  by (rule mmap_store)

interpretation list_multimap_store: keyed_store
  "mmap_LocalPut (list_map_lib ((<) :: 'k::linorder \<Rightarrow> 'k \<Rightarrow> bool))"
  "mmap_LocalGet (list_map_lib (<)) dflt" "mmap_LocalErase (list_map_lib (<)) dflt"
  "mmap_LocalGetAllDataInServer (list_map_lib (<))" "mmap_view (list_map_lib (<))"
  "mmap_ok (list_map_lib (<)) (sorted_wrt (\<lambda>a b. \<not> fst b < fst a))" dflt
  for dflt
  by (rule list_multimap.mmap_store)

subsection \<open>The search by key\<close>

context multimap_container
begin

text \<open>
  Where \<open>Contains\<close> is equality of keys and the server does not hold exactly one entry, the
  search answers the entries of the key.
\<close>

lemma mmap_contains_exact:
  assumes "ok c" and eq: "\<And>a b. key_Contains K a b \<longleftrightarrow> a = b" and "tl_size L c \<noteq> 1"
  shows "mmap_LocalContainsInServer K L k c = (filter (\<lambda>e. fst e = k) (elems L c), c)"
proof -
  obtain bs as where lb: "tl_lower_bound L k c = (bs, as)" by fastforce
  note split = lower_bound_split [OF assms(1) lb]
  have low: "fst b \<noteq> k" if "b \<in> set bs" for b
    using split that strict_orderD(1) [OF order, of k] by fastforce
  then have stay: "step_back (\<lambda>e. k \<noteq> fst e) (bs, as) = (bs, as)"
    using low [of "hd bs"] by (cases bs) (auto simp: step_back_def)
  have either: "k = x \<or> x = k \<longleftrightarrow> x = k" for x
    by auto
  have asc: "sorted_wrt (\<lambda>a b. \<not> lt (fst b) (fst a)) as"
    using ascending [OF assms(1)] split by (simp add: sorted_wrt_append)
  have "takeWhile (\<lambda>e. fst e = k) as = takeWhile (\<lambda>e. \<not> lt k (fst e)) as"
    by (rule takeWhile_cong) (use split strict_orderD(1,3) [OF order] in blast)+
  also have "\<dots> = filter (\<lambda>e. \<not> lt k (fst e)) as"
    by (rule takeWhile_upto [OF asc])
  also have "\<dots> = filter (\<lambda>e. fst e = k) as"
    by (rule filter_cong) (use split strict_orderD(1,3) [OF order] in blast)+
  finally have tw: "takeWhile (\<lambda>e. fst e = k) as = filter (\<lambda>e. fst e = k) as" .
  have all: "filter (\<lambda>e. fst e = k) (elems L c) = filter (\<lambda>e. fst e = k) as"
    using split low by (auto simp: filter_empty_conv)
  have "elems L c = []" if "tl_size L c = 0"
    using size_elems [OF assms(1)] that by simp
  then show ?thesis
    using assms(3) all tw
    by (auto simp: mmap_LocalContainsInServer_def Let_def lb stay scan_loop_eq eq either)
qed

lemma mmap_contains_view:
  assumes "mmap_ok L ok c" "\<And>a b. key_Contains K a b \<longleftrightarrow> a = b" "tl_size L c \<noteq> 1"
  shows "distinct (map fst (fst (mmap_LocalContainsInServer K L k c))) \<and>
         map_of (fst (mmap_LocalContainsInServer K L k c))
           = (\<lambda>x. if x = k then mmap_view L c x else None)"
  using assms(1) map_of_filter [of "elems L c" "\<lambda>x. x = k"]
  unfolding mmap_view_def mmap_ok_def
  by (simp add: mmap_contains_exact [OF _ assms(2,3)] distinct_map_filter)

end

subsection \<open>Properties\<close>

text \<open>
  C17: the multimap holds at most one value per key: any sequence of Put, Get and Erase calls
  by any clients returns what the same calls return on one map, in which a Put replaces the
  value before it.
\<close>
theorem mmap_clients_share_one_map:
  assumes "multimap_container L lt ok" "compiled_in B impl"
    and "\<forall>r \<in> set reqs. joined n p (mmap_bindings B K L dflt impl p reg) (fst r)"
    and "refines (\<lambda>k. home n (keyHash K k)) (mmap_ok L ok) (mmap_view L) w m"
  shows "fst (run_requests (mmap_request K L dflt) reqs w)
           = map Inr (fst (run_requests (spec_request dflt) (map snd reqs) m)) \<and>
         refines (\<lambda>k. home n (keyHash K k)) (mmap_ok L ok) (mmap_view L)
           (snd (run_requests (mmap_request K L dflt) reqs w))
           (snd (run_requests (spec_request dflt) (map snd reqs) m))"
proof (rule keyed_store.requests_refine [OF multimap_container.mmap_store [OF assms(1)] assms(4)])
  show "mmap_request K L dflt q w = home_request (mmap_LocalPut L) (mmap_LocalGet L dflt)
      (mmap_LocalErase L dflt) (\<lambda>k. home n (keyHash K k)) (snd q) w"
    if "q \<in> set reqs" for q w
    using mmap_request_home [OF bspec [OF assms(3) that] assms(2), of "snd q" w] by simp
qed

definition sample_mmap_reg :: "string \<Rightarrow> (nat, nat, (nat \<times> nat) list) registry" where
  "sample_mmap_reg nam =
     mmap_bindings rpclib_only sample_keys (list_map_lib (<)) 0 RPCLIB nam Map.empty"

lemma sample_mmap_joined:
  "unat my < 3 \<Longrightarrow>
     joined 3 nam (mmap_bindings rpclib_only sample_keys (list_map_lib (<)) 0 RPCLIB nam Map.empty)
       (sample_env (sample_mmap_reg nam), sample_object nam my on_node)"
  using sample_joined_pair by (simp add: sample_mmap_reg_def)

definition sample_mmap_world :: "(nat \<times> nat) list world" where
  "sample_mmap_world i = (if i = 2 then [(2, 20), (5, 50), (8, 80)] else [])"

lemma sample_mmap_world_refines:
  "refines (\<lambda>k. home 3 (keyHash sample_keys k))
     (mmap_ok (list_map_lib (<)) (sorted_wrt (\<lambda>a b. \<not> fst b < fst a)))
     (mmap_view (list_map_lib (<))) sample_mmap_world [2 \<mapsto> 20, 5 \<mapsto> 50, 8 \<mapsto> 80]"
  by (auto simp: sample_mmap_world_def refines_def placed_def global_view_def mmap_view_def
      mmap_ok_def home_def fun_eq_iff)

lemma mmap_clients_share_one_map_witness:
  "fst (run_requests (mmap_request sample_keys (list_map_lib (<)) 0)
          [(sample_client ''mm'' (sample_mmap_reg ''mm'') 0 True, PutReq 5 51),
           (sample_client ''mm'' (sample_mmap_reg ''mm'') 1 False, GetReq 5),
           (sample_client ''mm'' (sample_mmap_reg ''mm'') 2 True, EraseReq 5),
           (sample_client ''mm'' (sample_mmap_reg ''mm'') 2 False, GetReq 5)] sample_mmap_world)
     = [Inr (PutResp True), Inr (GetResp (True, 51)), Inr (EraseResp (True, 0)),
        Inr (GetResp (False, 0))]"
  using mmap_clients_share_one_map [OF list_multimap.multimap_container_axioms rpclib_only_compiled
      _ sample_mmap_world_refines, of
      "[(sample_client ''mm'' (sample_mmap_reg ''mm'') 0 True, PutReq 5 51),
        (sample_client ''mm'' (sample_mmap_reg ''mm'') 1 False, GetReq 5),
        (sample_client ''mm'' (sample_mmap_reg ''mm'') 2 True, EraseReq 5),
        (sample_client ''mm'' (sample_mmap_reg ''mm'') 2 False, GetReq 5)]"
      "''mm''" 0 Map.empty]
  by (simp add: sample_joined flip: sample_mmap_reg_def)

text \<open>
  Where \<open>Contains\<close> of the key type is equality and no server holds exactly one entry, the
  multimap's Contains answers the whole map's entry of the key, and nothing else.
\<close>
theorem mmap_Contains_key:
  assumes "multimap_container L lt ok" "compiled_in B impl"
    and J: "joined n p (mmap_bindings B K L dflt impl p reg) (E, obj)"
    and "refines (\<lambda>k. home n (keyHash K k)) (mmap_ok L ok) (mmap_view L) w m"
    and "\<And>a b. key_Contains K a b \<longleftrightarrow> a = b" and "\<And>i. tl_size L (w i) \<noteq> 1"
  shows "mmap_Contains E K L obj k w
           = (Inr (case m k of None \<Rightarrow> [] | Some v \<Rightarrow> [(k, v)]), w)"
proof -
  note ans = mmap_answers(5) [OF assms(2)]
  have same: "snd (mmap_LocalContainsInServer K L k c) = c" for c
    by (simp add: mmap_LocalContainsInServer_def Let_def split: list.splits prod.splits)
  have "\<exists>xs. mmap_Contains E K L obj k w = (Inr xs, w) \<and> distinct (map fst xs) \<and>
      map_of xs = (\<lambda>x. if x = k then m x else None)"
    unfolding mmap_Contains_def
    by (rule gather_refines [OF J ans _ assms(4)])
      (simp_all add: same mmap_ContainsInServer_def dispatch_in_server [OF J ans]
        multimap_container.mmap_contains_view [OF assms(1) _ assms(5,6)])
  then obtain xs where xs: "mmap_Contains E K L obj k w = (Inr xs, w)" "distinct (map fst xs)"
    "map_of xs = (\<lambda>x. if x = k then m x else None)"
    by blast
  have "(x, v) \<in> set xs \<longleftrightarrow> x = k \<and> m k = Some v" for x v
    using xs(2,3) by (simp add: map_of_eq_Some_iff [symmetric])
  then have "set xs = set (case m k of None \<Rightarrow> [] | Some v \<Rightarrow> [(k, v)])"
    by (auto split: option.splits)
  moreover have "distinct xs"
    using xs(2) by (simp add: distinct_map)
  ultimately have "xs = (case m k of None \<Rightarrow> [] | Some v \<Rightarrow> [(k, v)])"
    using distinct_set_singleton [of xs] by (auto split: option.splits)
  then show ?thesis using xs(1) by simp
qed

lemma mmap_Contains_key_witness:
  "mmap_Contains (sample_env (sample_mmap_reg ''mm'')) sample_keys (list_map_lib (<))
     (sample_object ''mm'' 1 False) 5 sample_mmap_world = (Inr [(5, 50)], sample_mmap_world)"
  using mmap_Contains_key [OF list_multimap.multimap_container_axioms rpclib_only_compiled
      sample_mmap_joined sample_mmap_world_refines, of 1 "''mm''" False 5]
  by (simp add: sample_mmap_world_def sample_keys_def)

text \<open>
  On a server that holds exactly one entry the search answers that entry, whatever key is
  searched for.
\<close>
lemma mmap_single_entry_always_found:
  assumes "multimap_container L lt ok" "ok c" "elems L c = [e]"
  shows "mmap_LocalContainsInServer K L k c = ([e], c)"
proof -
  note C = assms(1) [unfolded multimap_container_def]
  have "tl_begin L c = ([], [e])" "tl_size L c = 1"
    using C assms(2,3) tree_container.begin_eq tree_container.size_elems
    by (metis, metis length_Cons list.size(3) One_nat_def)
  then show ?thesis
    by (simp add: mmap_LocalContainsInServer_def)
qed

end
