(* ===== verification/Fifo_Queue.thy ===== *)
theory Fifo_Queue
  imports Sample_Cluster
begin

section \<open>basket::queue\<close>

text \<open>
  \<open>include/basket/queue/queue.cpp\<close>: one FIFO queue per server; the caller names the server.
  \<open>Q\<close> is the \<open>boost::interprocess::deque\<close> of the instance, a record of the operations the
  class calls; its documented behaviour is the locale \<open>deque_container\<close>. \<open>dflt\<close> is
  \<open>MappedType()\<close>.
\<close>

subsection \<open>The deque\<close>

record ('v, 'c) deque_lib =
  dq_empty :: "'c"
  dq_size :: "'c \<Rightarrow> nat"
  dq_front :: "'c \<Rightarrow> 'v"
  dq_push_back :: "'v \<Rightarrow> 'c \<Rightarrow> 'c"
  dq_pop_front :: "'c \<Rightarrow> 'c"

locale deque_container =
  fixes Q :: "('v, 'c) deque_lib"
    and items :: "'c \<Rightarrow> 'v list"
  assumes items_empty: "items (dq_empty Q) = []"
    and size_items: "dq_size Q c = length (items c)"
    and front_items: "items c \<noteq> [] \<Longrightarrow> dq_front Q c = hd (items c)"
    and items_push: "items (dq_push_back Q v c) = items c @ [v]"
    and items_pop: "items c \<noteq> [] \<Longrightarrow> items (dq_pop_front Q c) = tl (items c)"

definition list_deque_lib :: "('v, 'v list) deque_lib" where
  "list_deque_lib =
     \<lparr>dq_empty = [], dq_size = length, dq_front = hd, dq_push_back = (\<lambda>v xs. xs @ [v]),
      dq_pop_front = tl\<rparr>"

interpretation list_deque: deque_container list_deque_lib id
  by unfold_locales (simp_all add: list_deque_lib_def)

subsection \<open>Operations on the local structure\<close>

definition queue_LocalPush :: "('v, 'c) deque_lib \<Rightarrow> 'v \<Rightarrow> 'c \<Rightarrow> bool \<times> 'c" where
  "queue_LocalPush Q data my_queue = (True, dq_push_back Q data my_queue)"

definition queue_LocalPop :: "('v, 'c) deque_lib \<Rightarrow> 'v \<Rightarrow> 'c \<Rightarrow> (bool \<times> 'v) \<times> 'c" where
  "queue_LocalPop Q dflt my_queue =
     (if dq_size Q my_queue > 0
      then let value = dq_front Q my_queue in ((True, value), dq_pop_front Q my_queue)
      else ((False, dflt), my_queue))"

definition queue_LocalSize :: "('v, 'c) deque_lib \<Rightarrow> 'c \<Rightarrow> u64 \<times> 'c" where
  "queue_LocalSize Q my_queue = (word_of_nat (dq_size Q my_queue), my_queue)"

text \<open>
  \<open>LocalWaitForElement\<close> polls the size without the lock until it is not zero, and sleeps
  after each poll that finds nothing. \<open>polls cnt\<close> is the queue at poll number \<open>cnt\<close>, as
  other processes have left it by then, at whatever moments the polls fall. After the first poll
  the loop prints a line; it counts the polls in an \<open>int\<close>, and the increment of the largest
  \<open>int\<close> is undefined. The value is the outcome with the lines printed.
\<close>

function queue_wait_loop ::
  "('v, 'c) deque_lib \<Rightarrow> int \<Rightarrow> (nat \<Rightarrow> 'c) \<Rightarrow> nat \<Rightarrow> string list \<Rightarrow> bool result \<times> string list" where
  "queue_wait_loop Q my_rank polls cnt out =
     (if dq_size Q (polls cnt) = 0
      then let out' = (if cnt = 0
                       then out @ [''Server '' @ to_string my_rank @ '', No Events in Queue'' @ [CHR 0x0A]]
                       else out)
           in if cnt < 2 ^ 31 - 1 then queue_wait_loop Q my_rank polls (cnt + 1) out'
              else (Inl IntOverflow, out')
      else (Inr True, out))"
  by pat_completeness auto
termination by (relation "measure (\<lambda>(Q, my_rank, polls, cnt, out). 2 ^ 31 - cnt)") simp_all

declare queue_wait_loop.simps [simp del]

definition queue_LocalWaitForElement ::
  "('v, 'c) deque_lib \<Rightarrow> int \<Rightarrow> (nat \<Rightarrow> 'c) \<Rightarrow> bool result \<times> string list" where
  "queue_LocalWaitForElement Q my_rank polls = queue_wait_loop Q my_rank polls 0 []"

text \<open>A wait during which nobody changes the queue. Its answer does not depend on the rank.\<close>

definition wait_alone :: "('v, 'c) deque_lib \<Rightarrow> 'c \<Rightarrow> bool result" where
  "wait_alone Q my_queue = fst (queue_LocalWaitForElement Q 0 (\<lambda>_. my_queue))"

text \<open>
  What the loop does is decided by its first \<open>2 ^ 31\<close> polls.
\<close>

lemma wait_loop_outcome:
  "cnt < 2 ^ 31 \<Longrightarrow>
     fst (queue_wait_loop Q my_rank polls cnt out)
       = (if \<exists>j. cnt \<le> j \<and> j < 2 ^ 31 \<and> dq_size Q (polls j) \<noteq> 0 then Inr True else Inl IntOverflow)"
proof (induction Q my_rank polls cnt out rule: queue_wait_loop.induct)
  case (1 Q my_rank polls cnt out)
  have later: "(\<exists>j. cnt \<le> j \<and> j < 2 ^ 31 \<and> dq_size Q (polls j) \<noteq> 0)
      \<longleftrightarrow> (\<exists>j. Suc cnt \<le> j \<and> j < 2 ^ 31 \<and> dq_size Q (polls j) \<noteq> 0)"
    if "dq_size Q (polls cnt) = 0"
    using that by (metis Suc_leD Suc_leI le_neq_implies_less)
  show ?case
  proof (cases "dq_size Q (polls cnt) = 0")
    case True
    then show ?thesis
      using "1.IH" [OF True refl] "1.prems" later [OF True]
      by (subst queue_wait_loop.simps) (auto simp: Let_def)
  next
    case False
    then show ?thesis
      using "1.prems" by (subst queue_wait_loop.simps) auto
  qed
qed

lemma wait_loop_prints:
  "0 < cnt \<Longrightarrow> snd (queue_wait_loop Q my_rank polls cnt out) = out"
  by (induction Q my_rank polls cnt out rule: queue_wait_loop.induct)
    (subst queue_wait_loop.simps, simp add: Let_def)

lemma wait_outcome:
  "fst (queue_LocalWaitForElement Q my_rank polls)
     = (if \<exists>j<2 ^ 31. dq_size Q (polls j) \<noteq> 0 then Inr True else Inl IntOverflow)"
  by (simp add: queue_LocalWaitForElement_def wait_loop_outcome)

lemma wait_prints:
  "snd (queue_LocalWaitForElement Q my_rank polls)
     = (if dq_size Q (polls 0) = 0
        then [''Server '' @ to_string my_rank @ '', No Events in Queue'' @ [CHR 0x0A]] else [])"
  unfolding queue_LocalWaitForElement_def
  by (subst queue_wait_loop.simps) (simp add: Let_def wait_loop_prints)

lemma wait_unchanged:
  "fst (queue_LocalWaitForElement Q my_rank (\<lambda>_. c))
     = (if dq_size Q c = 0 then Inl IntOverflow else Inr True)"
  by (simp add: wait_outcome) (metis zero_less_numeral zero_less_power)

lemma wait_alone_eq: "wait_alone Q c = (if dq_size Q c = 0 then Inl IntOverflow else Inr True)"
  by (simp add: wait_alone_def wait_unchanged)

fun handle_wait :: "('v, 'c) deque_lib \<Rightarrow> ('k, 'v, 'c) handler" where
  "handle_wait Q [] c = (map_sum id WBool (wait_alone Q c), c)"
| "handle_wait Q _ c = (Inl BadCast, c)"

subsection \<open>Construction\<close>

definition queue_binds ::
  "('v, 'c) deque_lib \<Rightarrow> 'v \<Rightarrow> (string \<times> ('k, 'v, 'c) handler) list" where
  "queue_binds Q dflt =
     [(''_Push'', handle_val WBool (queue_LocalPush Q)),
      (''_Pop'', handle0 (\<lambda>(b, v). WFoundVal b v) (queue_LocalPop Q dflt)),
      (''_WaitForElement'', handle_wait Q),
      (''_Size'', handle0 WSize (queue_LocalSize Q))]"

definition queue_bindings ::
  "build \<Rightarrow> ('v, 'c) deque_lib \<Rightarrow> 'v \<Rightarrow> RPCImplementation \<Rightarrow> string \<Rightarrow>
     ('k, 'v, 'c) registry \<Rightarrow> ('k, 'v, 'c) registry" where
  "queue_bindings B Q dflt impl func_prefix reg =
     bind_all B impl func_prefix (queue_binds Q dflt) reg"

text \<open>The structure is constructed and looked up under the fixed name \<open>Queue\<close>.\<close>

definition queue_new ::
  "build \<Rightarrow> (string \<Rightarrow> string option) \<Rightarrow> int \<times> int \<Rightarrow> ('v, 'c) deque_lib \<Rightarrow> 'v \<Rightarrow> string \<Rightarrow>
     config \<times> rpc_factory \<Rightarrow> 'c node \<times> ('k, 'v, 'c) registry \<Rightarrow>
     (container \<times> string option \<times> (config \<times> rpc_factory) \<times> 'c node \<times> ('k, 'v, 'c) registry) result"
  where
  "queue_new B files mpi Q dflt nam st sys =
     construct_container B files mpi nam (\<lambda>_. ''Queue'') (dq_empty Q) (queue_bindings B Q dflt) st sys"

subsection \<open>The distributed operations\<close>

definition queue_Push ::
  "('k, 'v, 'c) env \<Rightarrow> ('v, 'c) deque_lib \<Rightarrow> container \<Rightarrow> 'v \<Rightarrow> u16 \<Rightarrow>
     'c world \<Rightarrow> bool result \<times> 'c world" where
  "queue_Push E Q obj data key_int w =
     (if is_local obj key_int then run_local (queue_LocalPush Q data) (obj_my_server obj) w
      else RPC_CALL_WRAPPER E (obj_rpc obj) (obj_func_prefix obj) ''_Push'' key_int as_bool
             [WVal data] w)"

definition queue_Pop ::
  "('k, 'v, 'c) env \<Rightarrow> ('v, 'c) deque_lib \<Rightarrow> 'v \<Rightarrow> container \<Rightarrow> u16 \<Rightarrow>
     'c world \<Rightarrow> (bool \<times> 'v) result \<times> 'c world" where
  "queue_Pop E Q dflt obj key_int w =
     (if is_local obj key_int then run_local (queue_LocalPop Q dflt) (obj_my_server obj) w
      else RPC_CALL_WRAPPER E (obj_rpc obj) (obj_func_prefix obj) ''_Pop'' key_int as_found_val
             [] w)"

definition queue_WaitForElement ::
  "('k, 'v, 'c) env \<Rightarrow> ('v, 'c) deque_lib \<Rightarrow> container \<Rightarrow> u16 \<Rightarrow>
     'c world \<Rightarrow> bool result \<times> 'c world" where
  "queue_WaitForElement E Q obj key_int w =
     (if is_local obj key_int
      then (fst (queue_LocalWaitForElement Q (obj_my_rank obj) (\<lambda>_. w (obj_my_server obj))), w)
      else RPC_CALL_WRAPPER E (obj_rpc obj) (obj_func_prefix obj) ''_WaitForElement'' key_int
             as_bool [] w)"

definition queue_Size ::
  "('k, 'v, 'c) env \<Rightarrow> ('v, 'c) deque_lib \<Rightarrow> container \<Rightarrow> u16 \<Rightarrow>
     'c world \<Rightarrow> u64 result \<times> 'c world" where
  "queue_Size E Q obj key_int w =
     (if is_local obj key_int then run_local (queue_LocalSize Q) (obj_my_server obj) w
      else RPC_CALL_WRAPPER E (obj_rpc obj) (obj_func_prefix obj) ''_Size'' key_int as_size [] w)"

subsection \<open>Requests and the abstract queues\<close>

datatype 'v qrequest = PushReq 'v | PopReq | SizeReq

datatype 'v qresponse = PushResp bool | PopResp "bool \<times> 'v" | SizeResp u64

fun queue_request ::
  "('v, 'c) deque_lib \<Rightarrow> 'v \<Rightarrow>
     ('k, 'v, 'c) client \<times> u16 \<times> 'v qrequest \<Rightarrow> 'c world \<Rightarrow> 'v qresponse result \<times> 'c world" where
  "queue_request Q dflt ((E, obj), i, PushReq v) w =
     map_outcome PushResp (queue_Push E Q obj v i w)"
| "queue_request Q dflt ((E, obj), i, PopReq) w =
     map_outcome PopResp (queue_Pop E Q dflt obj i w)"
| "queue_request Q dflt ((E, obj), i, SizeReq) w =
     map_outcome SizeResp (queue_Size E Q obj i w)"

text \<open>The same requests on one list per server.\<close>

fun spec_queue ::
  "'v \<Rightarrow> u16 \<times> 'v qrequest \<Rightarrow> (u16 \<Rightarrow> 'v list) \<Rightarrow> 'v qresponse \<times> (u16 \<Rightarrow> 'v list)" where
  "spec_queue dflt (i, PushReq v) a = (PushResp True, a(i := a i @ [v]))"
| "spec_queue dflt (i, PopReq) a =
     (case a i of
        [] \<Rightarrow> (PopResp (False, dflt), a)
      | v # vs \<Rightarrow> (PopResp (True, v), a(i := vs)))"
| "spec_queue dflt (i, SizeReq) a = (SizeResp (word_of_nat (length (a i))), a)"

lemma queue_answers:
  assumes "compiled_in B impl"
  shows "answers (queue_bindings B Q dflt impl p reg) (p @ ''_Push'') [WVal v] as_bool
           (queue_LocalPush Q v)"
    and "answers (queue_bindings B Q dflt impl p reg) (p @ ''_Pop'') [] as_found_val
           (queue_LocalPop Q dflt)"
    and "answers (queue_bindings B Q dflt impl p reg) (p @ ''_Size'') [] as_size
           (queue_LocalSize Q)"
  unfolding queue_bindings_def
  by (rule bind_all_answers [OF assms], (auto simp: queue_binds_def)[1], simp add: queue_binds_def,
      auto split: prod.splits)+

fun queue_home :: "('v, 'c) deque_lib \<Rightarrow> 'v \<Rightarrow> 'v qrequest \<Rightarrow> 'c \<Rightarrow> 'v qresponse \<times> 'c" where
  "queue_home Q dflt (PushReq v) c = map_prod PushResp id (queue_LocalPush Q v c)"
| "queue_home Q dflt PopReq c = map_prod PopResp id (queue_LocalPop Q dflt c)"
| "queue_home Q dflt SizeReq c = map_prod SizeResp id (queue_LocalSize Q c)"

lemma run_local_map_prod:
  "run_local (\<lambda>c. map_prod f id (g c)) i w = map_outcome f (run_local g i w)"
  by (simp add: run_local_def split_beta)

lemma queue_request_home:
  assumes "joined n p (queue_bindings B Q dflt impl p reg) cl" "compiled_in B impl" "unat i < n"
  shows "queue_request Q dflt (cl, i, q) w = run_local (queue_home Q dflt q) i w"
proof -
  obtain E obj where cl: "cl = (E, obj)" by fastforce
  note run = dispatch_home [OF assms(1) [unfolded cl] _ assms(3)] queue_answers [OF assms(2)]
  show ?thesis
    by (cases q)
      (simp_all add: cl queue_Push_def queue_Pop_def queue_Size_def run,
        simp_all add: run_local_def split_beta)
qed

text \<open>The values a list of requests pushes to server \<open>i\<close>, and those its answers popped there.\<close>

fun pushed_at :: "u16 \<Rightarrow> (u16 \<times> 'v qrequest) list \<Rightarrow> 'v list" where
  "pushed_at i [] = []"
| "pushed_at i ((j, q) # qs) =
     (case q of PushReq v \<Rightarrow> if j = i then v # pushed_at i qs else pushed_at i qs
      | _ \<Rightarrow> pushed_at i qs)"

fun popped_at :: "u16 \<Rightarrow> (u16 \<times> 'v qrequest) list \<Rightarrow> 'v qresponse list \<Rightarrow> 'v list" where
  "popped_at i ((j, _) # qs) (r # rs) =
     (case r of
        PopResp (True, v) \<Rightarrow> if j = i then v # popped_at i qs rs else popped_at i qs rs
      | _ \<Rightarrow> popped_at i qs rs)"
| "popped_at i _ _ = []"

lemma spec_queue_no_loss:
  "a i @ pushed_at i qs
     = popped_at i qs (fst (run_requests (spec_queue dflt) qs a)) @
       snd (run_requests (spec_queue dflt) qs a) i"
proof (induction qs arbitrary: a)
  case Nil
  then show ?case by simp
next
  case (Cons jq qs)
  obtain j q where jq: "jq = (j, q)" by fastforce
  have IH: "b i @ pushed_at i qs
      = popped_at i qs (fst (run_requests (spec_queue dflt) qs b)) @
        snd (run_requests (spec_queue dflt) qs b) i" for b
    by (rule Cons.IH)
  show ?case
  proof (cases q)
    case (PushReq v)
    then show ?thesis
      using IH [of "a(j := a j @ [v])"] by (cases "j = i") (simp_all add: jq split_beta)
  next
    case PopReq
    then show ?thesis
      using IH [of "a(j := tl (a j))"] IH [of a]
      by (cases "j = i"; cases "a j") (simp_all add: jq split_beta)
  next
    case SizeReq
    then show ?thesis
      using IH [of a] by (simp add: jq split_beta)
  qed
qed

definition queues_of :: "('c \<Rightarrow> 'v list) \<Rightarrow> 'c world \<Rightarrow> u16 \<Rightarrow> 'v list" where
  "queues_of items w i = items (w i)"

context deque_container
begin

lemma queue_home_spec:
  assumes "a i = items c"
  shows "fst (queue_home Q dflt q c) = fst (spec_queue dflt (i, q) a)"
    and "snd (spec_queue dflt (i, q) a) = a(i := items (snd (queue_home Q dflt q c)))"
  using assms size_items [of c] front_items [of c] items_pop [of c]
  by (cases q; cases "items c";
      auto simp: queue_LocalPush_def queue_LocalPop_def queue_LocalSize_def items_push Let_def)+

lemma queue_run_spec:
  "fst (run_local (queue_home Q dflt q) i w) = Inr (fst (spec_queue dflt (i, q) (queues_of items w)))"
  "queues_of items (snd (run_local (queue_home Q dflt q) i w))
     = snd (spec_queue dflt (i, q) (queues_of items w))"
  using queue_home_spec [of "queues_of items w" i "w i" dflt q]
  by (auto simp: run_local_def split_beta queues_of_def fun_eq_iff)

end

lemma queue_WaitForElement_home:
  assumes "joined n p (queue_bindings B Q dflt impl p reg) (E, obj)" "compiled_in B impl" "unat i < n"
  shows "queue_WaitForElement E Q obj i w = (wait_alone Q (w i), w)"
proof -
  let ?reg = "queue_bindings B Q dflt impl p reg"
  note J = joinedD [OF assms(1)]
  have bound: "?reg (p @ ''_WaitForElement'') = Some (handle_wait Q)"
    unfolding queue_bindings_def
    by (rule bind_all_lookup [OF assms(2)]) (simp_all add: queue_binds_def)
  have i: "unat i < length (server_list (obj_rpc obj))"
    using J(3) assms(3) by (simp add: n_servers_def)
  note served = servers_run_served [OF J(2)]
  note served_calls.wrapper_served [OF served i bound, where as_ret = as_bool and args = "[]" and w = w]
    served_calls.wrapper_fails [OF served i bound, where as_ret = as_bool and args = "[]" and w = w]
  then have "RPC_CALL_WRAPPER E (obj_rpc obj) p ''_WaitForElement'' i as_bool [] w = (wait_alone Q (w i), w)"
    by (cases "wait_alone Q (w i)") auto
  then show ?thesis
    using J by (simp add: queue_WaitForElement_def is_local_def wait_alone_eq wait_unchanged)
qed

lemma queue_run_lists:
  assumes "deque_container Q items" "compiled_in B impl"
    and "\<forall>r \<in> set reqs. joined n p (queue_bindings B Q dflt impl p reg) (fst r) \<and>
           unat (fst (snd r)) < n"
  shows "fst (run_requests (queue_request Q dflt) reqs w)
           = map Inr (fst (run_requests (spec_queue dflt) (map snd reqs) (queues_of items w))) \<and>
         queues_of items (snd (run_requests (queue_request Q dflt) reqs w))
           = snd (run_requests (spec_queue dflt) (map snd reqs) (queues_of items w))"
proof (rule run_simulation [where R = "\<lambda>w a. queues_of items w = a", OF refl])
  fix r w and a :: "u16 \<Rightarrow> _ list"
  assume r: "r \<in> set reqs" and a: "queues_of items w = a"
  obtain cl i q where eq: "r = (cl, i, q)" by (cases r) auto
  have "joined n p (queue_bindings B Q dflt impl p reg) cl" "unat i < n"
    using assms(3) r by (auto simp: eq)
  then have "queue_request Q dflt r w = run_local (queue_home Q dflt q) i w"
    using queue_request_home assms(2) by (simp add: eq)
  then show "fst (queue_request Q dflt r w) = Inr (fst (spec_queue dflt (snd r) a)) \<and>
      queues_of items (snd (queue_request Q dflt r w)) = snd (spec_queue dflt (snd r) a)"
    using deque_container.queue_run_spec [OF assms(1), of dflt q i w] a by (simp add: eq)
qed

subsection \<open>Properties\<close>

text \<open>
  C3: any sequence of Push, Pop and Size calls, by any clients on any of the servers, returns
  what the same calls return on one list per server: Push appends, Pop takes the front. The
  servers end up holding those lists.
\<close>
theorem queue_clients_share_lists:
  assumes "deque_container Q items" "compiled_in B impl"
    and "\<forall>r \<in> set reqs. joined n p (queue_bindings B Q dflt impl p reg) (fst r) \<and>
           unat (fst (snd r)) < n"
  shows "fst (run_requests (queue_request Q dflt) reqs w)
           = map Inr (fst (run_requests (spec_queue dflt) (map snd reqs) (queues_of items w))) \<and>
         queues_of items (snd (run_requests (queue_request Q dflt) reqs w))
           = snd (run_requests (spec_queue dflt) (map snd reqs) (queues_of items w))"
  by (rule queue_run_lists [OF assms])

definition sample_queue_reg :: "string \<Rightarrow> (nat, nat, nat list) registry" where
  "sample_queue_reg nam = queue_bindings rpclib_only list_deque_lib 0 RPCLIB nam Map.empty"

lemma queue_clients_share_lists_witness:
  "fst (run_requests (queue_request list_deque_lib 0)
          [(sample_client ''q'' (sample_queue_reg ''q'') 0 True, 1, PushReq 7),
           (sample_client ''q'' (sample_queue_reg ''q'') 1 True, 1, PushReq 8),
           (sample_client ''q'' (sample_queue_reg ''q'') 2 False, 1, PopReq),
           (sample_client ''q'' (sample_queue_reg ''q'') 2 True, 2, PopReq),
           (sample_client ''q'' (sample_queue_reg ''q'') 2 True, 1, SizeReq)] (\<lambda>_. []))
     = [Inr (PushResp True), Inr (PushResp True), Inr (PopResp (True, 7)),
        Inr (PopResp (False, 0)), Inr (SizeResp 1)]"
  using queue_clients_share_lists [OF list_deque.deque_container_axioms rpclib_only_compiled, of
      "[(sample_client ''q'' (sample_queue_reg ''q'') 0 True, 1, PushReq 7),
        (sample_client ''q'' (sample_queue_reg ''q'') 1 True, 1, PushReq 8),
        (sample_client ''q'' (sample_queue_reg ''q'') 2 False, 1, PopReq),
        (sample_client ''q'' (sample_queue_reg ''q'') 2 True, 2, PopReq),
        (sample_client ''q'' (sample_queue_reg ''q'') 2 True, 1, SizeReq)]"
      3 "''q''" 0 Map.empty "\<lambda>_. []"]
  by (simp add: sample_joined queues_of_def flip: sample_queue_reg_def)

text \<open>
  C31: WaitForElement ends, after at most \<open>2 ^ 31\<close> polls: it answers \<open>true\<close> if one of those
  polls finds an element, and runs into the overflow of its counter if none does. It prints its
  one line exactly if the first poll finds nothing. On a queue that nobody changes, a client
  that waits, in shared memory or by a call, therefore gets \<open>true\<close> if the server's queue has an
  element, and the overflow if it is empty.
\<close>
theorem queue_wait_ends:
  assumes "deque_container Q items" "compiled_in B impl" "unat i < n"
    and "joined n p (queue_bindings B Q dflt impl p reg) (E, obj)"
  shows "queue_LocalWaitForElement Q my_rank polls
           = (if \<exists>j<2 ^ 31. items (polls j) \<noteq> [] then Inr True else Inl IntOverflow,
              if items (polls 0) = []
              then [''Server '' @ to_string my_rank @ '', No Events in Queue'' @ [CHR 0x0A]] else []) \<and>
         queue_WaitForElement E Q obj i w
           = (if items (w i) = [] then Inl IntOverflow else Inr True, w)"
  by (rule conjI, rule prod_eqI)
    (simp_all add: wait_outcome wait_prints queue_WaitForElement_home [OF assms(4,2,3)] wait_alone_eq
      deque_container.size_items [OF assms(1)])

lemma queue_wait_ends_witness:
  "queue_LocalWaitForElement list_deque_lib 4 (\<lambda>t. if t = 2 ^ 31 then [7 :: nat] else [])
     = (Inl IntOverflow, [''Server 4, No Events in Queue'' @ [CHR 0x0A]]) \<and>
   queue_WaitForElement (sample_env (sample_queue_reg ''q'')) list_deque_lib
     (sample_object ''q'' 0 True) 1 ((\<lambda>_. [])(1 := [8]))
     = (Inr True, (\<lambda>_. [])(1 := [8]))"
proof -
  note ends = queue_wait_ends [where n = 3 and p = "''q''" and dflt = 0 and reg = Map.empty and my_rank = 4
      and E = "sample_env (sample_queue_reg ''q'')" and obj = "sample_object ''q'' 0 True" and i = 1
      and polls = "\<lambda>t. if t = 2 ^ 31 then [7] else []" and w = "(\<lambda>_. [])(1 := [8])",
      OF list_deque.deque_container_axioms rpclib_only_compiled, folded sample_queue_reg_def,
      OF _ sample_joined_pair]
  have "to_string 4 = ''4''" by code_simp
  then show ?thesis using ends by simp
qed

text \<open>
  No value is lost, duplicated or reordered on a server: what it held before, followed by
  what the clients push to it, is what they pop from it, in order, followed by what it holds
  afterwards.
\<close>
theorem queue_fifo_no_loss:
  assumes "deque_container Q items" "compiled_in B impl"
    and "\<forall>r \<in> set reqs. joined n p (queue_bindings B Q dflt impl p reg) (fst r) \<and>
           unat (fst (snd r)) < n"
  shows "\<exists>rs w'. run_requests (queue_request Q dflt) reqs w = (map Inr rs, w') \<and>
           items (w i) @ pushed_at i (map snd reqs)
             = popped_at i (map snd reqs) rs @ items (w' i)"
  using queue_run_lists [OF assms, of w] spec_queue_no_loss [of "queues_of items w" i "map snd reqs" dflt]
  by (cases "run_requests (queue_request Q dflt) reqs w") (metis fst_conv snd_conv queues_of_def)

lemma queue_fifo_no_loss_witness:
  "\<exists>rs w'. run_requests (queue_request list_deque_lib 0)
            [(sample_client ''q'' (sample_queue_reg ''q'') 0 True, 1, PushReq 7),
             (sample_client ''q'' (sample_queue_reg ''q'') 2 False, 1, PopReq)] (\<lambda>_. [5])
            = (map Inr rs, w') \<and>
     [5, 7]
       = popped_at 1 [(1, PushReq 7), (1, PopReq)] rs @ w' 1"
  using queue_fifo_no_loss [OF list_deque.deque_container_axioms rpclib_only_compiled, of
      "[(sample_client ''q'' (sample_queue_reg ''q'') 0 True, 1, PushReq 7),
        (sample_client ''q'' (sample_queue_reg ''q'') 2 False, 1, PopReq)]"
      3 "''q''" 0 Map.empty "\<lambda>_. [5]" 1]
  by (simp add: sample_joined del: run_requests.simps popped_at.simps flip: sample_queue_reg_def)

subsection \<open>A wait among the requests of others\<close>

text \<open>
  The clients' requests in the order in which the servers run them; \<open>world_after ... t\<close> is what
  the first \<open>t\<close> of them leave. A waiting process sleeps between its polls, so that any number of
  requests may run between one poll and the next.
\<close>

definition world_after ::
  "('v, 'c) deque_lib \<Rightarrow> 'v \<Rightarrow> (nat \<Rightarrow> ('k, 'v, 'c) client \<times> u16 \<times> 'v qrequest) \<Rightarrow> 'c world \<Rightarrow> nat \<Rightarrow>
     'c world" where
  "world_after Q dflt reqs w t = snd (run_requests (queue_request Q dflt) (map reqs [0..<t]) w)"

lemma queue_after:
  assumes "deque_container Q items" "compiled_in B impl"
    and "\<And>t. joined n p (queue_bindings B Q dflt impl p reg) (fst (reqs t)) \<and> unat (fst (snd (reqs t))) < n"
  shows "items (world_after Q dflt reqs w t i)
           = snd (run_requests (spec_queue dflt) (map (\<lambda>s. snd (reqs s)) [0..<t]) (queues_of items w)) i"
  using queue_run_lists [OF assms(1,2), of "map reqs [0..<t]" n p dflt reg w] assms(3)
  by (simp add: world_after_def queues_of_def comp_def fun_eq_iff)

lemma spec_queue_keeps:
  assumes "(i, PopReq) \<notin> set qs" "a i \<noteq> []"
  shows "snd (run_requests (spec_queue dflt) qs a) i \<noteq> []"
  using assms
proof (induction qs arbitrary: a)
  case (Cons jq qs)
  obtain j q where jq: "jq = (j, q)" by fastforce
  have "snd (spec_queue dflt (j, q) a) i \<noteq> []"
    using Cons.prems by (cases q) (auto simp: jq split: list.splits)
  then show ?case
    using Cons by (simp add: jq split_beta)
qed simp

lemma spec_queue_pushed:
  assumes "qs = before @ (i, PushReq v) # behind" "(i, PopReq) \<notin> set behind"
  shows "snd (run_requests (spec_queue dflt) qs a) i \<noteq> []"
  using spec_queue_keeps [OF assms(2), of "(snd (run_requests (spec_queue dflt) before a))
      (i := snd (run_requests (spec_queue dflt) before a) i @ [v])"]
  by (simp add: assms(1) run_requests_append split_beta)

lemma spec_queue_unpushed:
  assumes "\<forall>v. (i, PushReq v) \<notin> set qs" "a i = []"
  shows "snd (run_requests (spec_queue dflt) qs a) i = []"
proof -
  have "pushed_at i qs = []"
    using assms(1) by (induction qs) (auto split: qrequest.splits)
  then show ?thesis using spec_queue_no_loss [of a i qs dflt] assms(2) by simp
qed

text \<open>
  C29: a process waits on a server while clients send it requests; poll \<open>j\<close> falls after the
  first \<open>moment j\<close> of them. The wait answers \<open>true\<close> exactly if one of its \<open>2 ^ 31\<close> polls falls
  where the requests so far leave an element there. So a Push wakes it if it polls after the
  Push and before the next Pop there; one whose value is popped between two polls is missed.
  If the queue is empty and nobody pushes to that server, the wait runs into the overflow of
  its counter.
\<close>
theorem queue_wait_woken_by_push:
  assumes "deque_container Q items" "compiled_in B impl"
    and "\<And>t. joined n p (queue_bindings B Q dflt impl p reg) (fst (reqs t)) \<and> unat (fst (snd (reqs t))) < n"
    and "result = fst (queue_LocalWaitForElement Q my_rank (\<lambda>j. world_after Q dflt reqs w (moment j) i))"
  shows "(result = Inr True \<longleftrightarrow>
            (\<exists>j<2 ^ 31. snd (run_requests (spec_queue dflt) (map (\<lambda>s. snd (reqs s)) [0..<moment j])
                          (queues_of items w)) i \<noteq> [])) \<and>
         (\<forall>t v j. snd (reqs t) = (i, PushReq v) \<and> j < 2 ^ 31 \<and> t < moment j \<and>
            (\<forall>s. t < s \<and> s < moment j \<longrightarrow> snd (reqs s) \<noteq> (i, PopReq)) \<longrightarrow> result = Inr True) \<and>
         (items (w i) = [] \<and> (\<forall>t v. snd (reqs t) \<noteq> (i, PushReq v)) \<longrightarrow> result = Inl IntOverflow)"
proof -
  let ?qs = "\<lambda>t. map (\<lambda>s. snd (reqs s)) [0..<t]"
  let ?left = "\<lambda>t. snd (run_requests (spec_queue dflt) (?qs t) (queues_of items w)) i"
  have result: "result = (if \<exists>j<2 ^ 31. ?left (moment j) \<noteq> [] then Inr True else Inl IntOverflow)"
    by (simp add: assms(4) wait_outcome deque_container.size_items [OF assms(1)] queue_after [OF assms(1,2,3)])
  have pushed: "?left (moment j) \<noteq> []"
    if "snd (reqs t) = (i, PushReq v)" "t < moment j"
      "\<forall>s. t < s \<and> s < moment j \<longrightarrow> snd (reqs s) \<noteq> (i, PopReq)" for t v j
  proof (rule spec_queue_pushed [where before = "?qs t" and behind = "map (\<lambda>s. snd (reqs s)) [Suc t..<moment j]"])
    have "[0..<moment j] = [0..<t] @ t # [Suc t..<moment j]"
      using that(2) upt_add_eq_append [of 0 t "moment j - t"] by (simp add: upt_conv_Cons)
    then show "?qs (moment j) = ?qs t @ (i, PushReq v) # map (\<lambda>s. snd (reqs s)) [Suc t..<moment j]"
      using that(1) by simp
    show "(i, PopReq) \<notin> set (map (\<lambda>s. snd (reqs s)) [Suc t..<moment j])"
      using that(3) by (auto dest: sym)
  qed
  have unpushed: "?left t = []" if "items (w i) = []" "\<forall>t v. snd (reqs t) \<noteq> (i, PushReq v)" for t
    by (rule spec_queue_unpushed) (use that in \<open>auto simp: queues_of_def dest: sym\<close>)
  from result have woken: "result = Inr True \<longleftrightarrow> (\<exists>j<2 ^ 31. ?left (moment j) \<noteq> [])"
    by simp
  show ?thesis
    unfolding woken using pushed unpushed by (auto simp: result)
qed

text \<open>A Push that a Pop undoes before the process polls again, and one that it finds.\<close>

definition sample_traffic :: "nat \<Rightarrow> (nat, nat, nat list) client \<times> u16 \<times> nat qrequest" where
  "sample_traffic t =
     (sample_client ''q'' (sample_queue_reg ''q'') 0 True, 1,
      if t = 1 then PushReq 7 else if t = 2 then PopReq else if t = 9 then PushReq 8 else SizeReq)"

lemma queue_wait_woken_by_push_witness:
  "fst (queue_LocalWaitForElement list_deque_lib 0
     (\<lambda>j. world_after list_deque_lib 0 sample_traffic (\<lambda>_. []) (4 * j) 1)) = Inr True \<and>
   fst (queue_LocalWaitForElement list_deque_lib 0
     (\<lambda>j. world_after list_deque_lib 0 sample_traffic (\<lambda>_. []) (if j = 0 then 0 else 4) 1)) \<noteq> Inr True"
proof -
  have joined: "joined 3 ''q'' (queue_bindings rpclib_only list_deque_lib 0 RPCLIB ''q'' Map.empty)
      (fst (sample_traffic t)) \<and> unat (fst (snd (sample_traffic t))) < 3" for t
    using sample_joined [of 0 "''q''" "sample_queue_reg ''q''" True]
    by (simp add: sample_traffic_def sample_queue_reg_def)
  note woken = queue_wait_woken_by_push [where reqs = sample_traffic and i = 1 and my_rank = 0
      and w = "\<lambda>_. []", OF list_deque.deque_container_axioms rpclib_only_compiled joined refl]
  have missed: "snd (run_requests (spec_queue 0) (map (\<lambda>s. snd (sample_traffic s)) [0..<if j = 0 then 0 else 4])
      (queues_of id (\<lambda>_. []))) 1 = []" for j :: nat
    by (simp add: sample_traffic_def queues_of_def upt_rec)
  let ?late = "fst (queue_LocalWaitForElement list_deque_lib 0
      (\<lambda>j. world_after list_deque_lib 0 sample_traffic (\<lambda>_. []) (if j = 0 then 0 else 4) 1))"
  have "?late \<noteq> Inr True"
    using woken [where moment = "\<lambda>j. if j = 0 then 0 else 4", THEN conjunct1] by (simp only: missed) simp
  moreover have "snd (sample_traffic 9) = (1, PushReq 8) \<and> (3 :: nat) < 2 ^ 31 \<and> (9 :: nat) < 4 * 3 \<and>
      (\<forall>s. 9 < s \<and> s < 4 * 3 \<longrightarrow> snd (sample_traffic s) \<noteq> (1, PopReq))"
    by (simp add: sample_traffic_def)
  ultimately show ?thesis
    using woken [where moment = "\<lambda>j. 4 * j", THEN conjunct2, THEN conjunct1, rule_format, of 9 8 3] by blast
qed

end
