(* ===== verification/Prio_Queue.thy ===== *)
theory Prio_Queue
  imports Sample_Cluster
begin

section \<open>basket::priority_queue\<close>

text \<open>
  \<open>include/basket/priority_queue/priority_queue.cpp\<close>: one priority queue per server; the
  caller names the server. \<open>P\<close> is the \<open>std::priority_queue\<close> of the instance, a record of the
  operations the class calls; its documented behaviour, with respect to the order \<open>Compare\<close>,
  is the locale \<open>heap_container\<close>. \<open>dflt\<close> is \<open>MappedType()\<close>.
\<close>

subsection \<open>The heap\<close>

record ('v, 'c) heap_lib =
  hp_empty :: "'c"
  hp_size :: "'c \<Rightarrow> nat"
  hp_top :: "'c \<Rightarrow> 'v"
  hp_push :: "'v \<Rightarrow> 'c \<Rightarrow> 'c"
  hp_pop :: "'c \<Rightarrow> 'c"

locale heap_container =
  fixes P :: "('v, 'c) heap_lib"
    and lt :: "'v \<Rightarrow> 'v \<Rightarrow> bool"
    and contents :: "'c \<Rightarrow> 'v multiset"
    and ok :: "'c \<Rightarrow> bool"
  assumes heap_ok_empty: "ok (hp_empty P)"
    and contents_empty: "contents (hp_empty P) = {#}"
    and size_contents: "ok c \<Longrightarrow> hp_size P c = size (contents c)"
    and top_in: "ok c \<Longrightarrow> contents c \<noteq> {#} \<Longrightarrow> hp_top P c \<in># contents c"
    and top_greatest: "ok c \<Longrightarrow> x \<in># contents c \<Longrightarrow> \<not> lt (hp_top P c) x"
    and ok_push: "ok c \<Longrightarrow> ok (hp_push P v c)"
    and contents_push: "ok c \<Longrightarrow> contents (hp_push P v c) = add_mset v (contents c)"
    and ok_pop: "ok c \<Longrightarrow> contents c \<noteq> {#} \<Longrightarrow> ok (hp_pop P c)"
    and contents_pop:
      "ok c \<Longrightarrow> contents c \<noteq> {#} \<Longrightarrow> contents (hp_pop P c) = contents c - {#hp_top P c#}"

text \<open>A list in descending order meets the contract.\<close>

definition list_heap_lib :: "('v :: linorder, 'v list) heap_lib" where
  "list_heap_lib =
     \<lparr>hp_empty = [], hp_size = length, hp_top = hd,
      hp_push = (\<lambda>v xs. takeWhile (\<lambda>x. v < x) xs @ v # dropWhile (\<lambda>x. v < x) xs), hp_pop = tl\<rparr>"

lemma descending_insert:
  "sorted_wrt (\<ge>) (xs :: 'v :: linorder list) \<Longrightarrow>
     sorted_wrt (\<ge>) (takeWhile (\<lambda>x. v < x) xs @ v # dropWhile (\<lambda>x. v < x) xs)"
  by (induction xs) (auto dest: set_takeWhileD set_dropWhileD)

lemma mset_insert_parts: "mset (takeWhile Q xs @ v # dropWhile Q xs) = add_mset v (mset xs)"
  by simp (metis mset_append takeWhile_dropWhile_id)

interpretation list_heap: heap_container list_heap_lib "(<)" mset "sorted_wrt (\<ge>)"
proof (unfold_locales, goal_cases)
  case (5 c x)
  then show ?case by (cases c) (auto simp: list_heap_lib_def)
next
  case (6 c v)
  then show ?case using descending_insert [of c v] by (simp add: list_heap_lib_def)
next
  case (7 c v)
  then show ?case using mset_insert_parts [of "\<lambda>x. v < x" c v] by (simp add: list_heap_lib_def)
next
  case (8 c)
  then show ?case by (cases c) (auto simp: list_heap_lib_def)
next
  case (9 c)
  then show ?case by (cases c) (auto simp: list_heap_lib_def)
qed (auto simp: list_heap_lib_def)

subsection \<open>Operations on the local structure\<close>

definition pq_LocalPush :: "('v, 'c) heap_lib \<Rightarrow> 'v \<Rightarrow> 'c \<Rightarrow> bool \<times> 'c" where
  "pq_LocalPush P data queue = (True, hp_push P data queue)"

definition pq_LocalPop :: "('v, 'c) heap_lib \<Rightarrow> 'v \<Rightarrow> 'c \<Rightarrow> (bool \<times> 'v) \<times> 'c" where
  "pq_LocalPop P dflt queue =
     (if hp_size P queue > 0
      then let value = hp_top P queue in ((True, value), hp_pop P queue)
      else ((False, dflt), queue))"

definition pq_LocalTop :: "('v, 'c) heap_lib \<Rightarrow> 'v \<Rightarrow> 'c \<Rightarrow> (bool \<times> 'v) \<times> 'c" where
  "pq_LocalTop P dflt queue =
     (if hp_size P queue > 0
      then let value = hp_top P queue in ((True, value), queue)
      else ((False, dflt), queue))"

definition pq_LocalSize :: "('v, 'c) heap_lib \<Rightarrow> 'c \<Rightarrow> u64 \<times> 'c" where
  "pq_LocalSize P queue = (word_of_nat (hp_size P queue), queue)"

subsection \<open>Construction\<close>

definition pq_binds :: "('v, 'c) heap_lib \<Rightarrow> 'v \<Rightarrow> (string \<times> ('k, 'v, 'c) handler) list" where
  "pq_binds P dflt =
     [(''_Push'', handle_val WBool (pq_LocalPush P)),
      (''_Pop'', handle0 (\<lambda>(b, v). WFoundVal b v) (pq_LocalPop P dflt)),
      (''_Top'', handle0 (\<lambda>(b, v). WFoundVal b v) (pq_LocalTop P dflt)),
      (''_Size'', handle0 WSize (pq_LocalSize P))]"

definition pq_bindings ::
  "build \<Rightarrow> ('v, 'c) heap_lib \<Rightarrow> 'v \<Rightarrow> RPCImplementation \<Rightarrow> string \<Rightarrow>
     ('k, 'v, 'c) registry \<Rightarrow> ('k, 'v, 'c) registry" where
  "pq_bindings B P dflt impl func_prefix reg =
     bind_all B impl func_prefix (pq_binds P dflt) reg"

definition pq_new ::
  "build \<Rightarrow> (string \<Rightarrow> string option) \<Rightarrow> int \<times> int \<Rightarrow> ('v, 'c) heap_lib \<Rightarrow> 'v \<Rightarrow> string \<Rightarrow>
     config \<times> rpc_factory \<Rightarrow> 'c node \<times> ('k, 'v, 'c) registry \<Rightarrow>
     (container \<times> string option \<times> (config \<times> rpc_factory) \<times> 'c node \<times> ('k, 'v, 'c) registry) result"
  where
  "pq_new B files mpi P dflt nam st sys =
     construct_container B files mpi nam (\<lambda>_. ''Queue'') (hp_empty P) (pq_bindings B P dflt) st sys"

subsection \<open>The distributed operations\<close>

definition pq_Push ::
  "('k, 'v, 'c) env \<Rightarrow> ('v, 'c) heap_lib \<Rightarrow> container \<Rightarrow> 'v \<Rightarrow> u16 \<Rightarrow>
     'c world \<Rightarrow> bool result \<times> 'c world" where
  "pq_Push E P obj data key_int w =
     (if is_local obj key_int then run_local (pq_LocalPush P data) (obj_my_server obj) w
      else RPC_CALL_WRAPPER E (obj_rpc obj) (obj_func_prefix obj) ''_Push'' key_int as_bool
             [WVal data] w)"

definition pq_Pop ::
  "('k, 'v, 'c) env \<Rightarrow> ('v, 'c) heap_lib \<Rightarrow> 'v \<Rightarrow> container \<Rightarrow> u16 \<Rightarrow>
     'c world \<Rightarrow> (bool \<times> 'v) result \<times> 'c world" where
  "pq_Pop E P dflt obj key_int w =
     (if is_local obj key_int then run_local (pq_LocalPop P dflt) (obj_my_server obj) w
      else RPC_CALL_WRAPPER E (obj_rpc obj) (obj_func_prefix obj) ''_Pop'' key_int as_found_val
             [] w)"

definition pq_Top ::
  "('k, 'v, 'c) env \<Rightarrow> ('v, 'c) heap_lib \<Rightarrow> 'v \<Rightarrow> container \<Rightarrow> u16 \<Rightarrow>
     'c world \<Rightarrow> (bool \<times> 'v) result \<times> 'c world" where
  "pq_Top E P dflt obj key_int w =
     (if is_local obj key_int then run_local (pq_LocalTop P dflt) (obj_my_server obj) w
      else RPC_CALL_WRAPPER E (obj_rpc obj) (obj_func_prefix obj) ''_Top'' key_int as_found_val
             [] w)"

definition pq_Size ::
  "('k, 'v, 'c) env \<Rightarrow> ('v, 'c) heap_lib \<Rightarrow> container \<Rightarrow> u16 \<Rightarrow>
     'c world \<Rightarrow> u64 result \<times> 'c world" where
  "pq_Size E P obj key_int w =
     (if is_local obj key_int then run_local (pq_LocalSize P) (obj_my_server obj) w
      else RPC_CALL_WRAPPER E (obj_rpc obj) (obj_func_prefix obj) ''_Size'' key_int as_size [] w)"

subsection \<open>Requests and the abstract priority queues\<close>

datatype 'v pq_request = PqPush 'v | PqPop | PqTop | PqSize

datatype 'v pq_response = PqPushed bool | PqFound "bool \<times> 'v" | PqCount u64

fun pq_call ::
  "('v, 'c) heap_lib \<Rightarrow> 'v \<Rightarrow>
     ('k, 'v, 'c) client \<times> u16 \<times> 'v pq_request \<Rightarrow> 'c world \<Rightarrow> 'v pq_response result \<times> 'c world" where
  "pq_call P dflt ((E, obj), i, PqPush v) w = map_outcome PqPushed (pq_Push E P obj v i w)"
| "pq_call P dflt ((E, obj), i, PqPop) w = map_outcome PqFound (pq_Pop E P dflt obj i w)"
| "pq_call P dflt ((E, obj), i, PqTop) w = map_outcome PqFound (pq_Top E P dflt obj i w)"
| "pq_call P dflt ((E, obj), i, PqSize) w = map_outcome PqCount (pq_Size E P obj i w)"

text \<open>
  What a request may answer and leave, on the multiset of a server's elements. Among equal
  greatest elements any may be the one.
\<close>

definition greatest_in :: "('v \<Rightarrow> 'v \<Rightarrow> bool) \<Rightarrow> 'v \<Rightarrow> 'v multiset \<Rightarrow> bool" where
  "greatest_in lt v M \<longleftrightarrow> v \<in># M \<and> (\<forall>x \<in># M. \<not> lt v x)"

inductive pq_step ::
  "('v \<Rightarrow> 'v \<Rightarrow> bool) \<Rightarrow> 'v \<Rightarrow> 'v pq_request \<Rightarrow> 'v multiset \<Rightarrow> 'v pq_response \<Rightarrow> 'v multiset \<Rightarrow> bool"
  for lt dflt where
  push: "pq_step lt dflt (PqPush v) M (PqPushed True) (add_mset v M)"
| pop: "greatest_in lt v M \<Longrightarrow> pq_step lt dflt PqPop M (PqFound (True, v)) (M - {#v#})"
| pop_empty: "pq_step lt dflt PqPop {#} (PqFound (False, dflt)) {#}"
| top: "greatest_in lt v M \<Longrightarrow> pq_step lt dflt PqTop M (PqFound (True, v)) M"
| top_empty: "pq_step lt dflt PqTop {#} (PqFound (False, dflt)) {#}"
| count: "pq_step lt dflt PqSize M (PqCount (word_of_nat (size M))) M"

inductive_simps pq_step_simps [simp]:
  "pq_step lt dflt (PqPush v) M r M'"
  "pq_step lt dflt PqPop M r M'"
  "pq_step lt dflt PqTop M r M'"
  "pq_step lt dflt PqSize M r M'"

inductive pq_run ::
  "('v \<Rightarrow> 'v \<Rightarrow> bool) \<Rightarrow> 'v \<Rightarrow> (u16 \<times> 'v pq_request) list \<Rightarrow> (u16 \<Rightarrow> 'v multiset) \<Rightarrow>
     'v pq_response list \<Rightarrow> (u16 \<Rightarrow> 'v multiset) \<Rightarrow> bool"
  for lt dflt where
  finished: "pq_run lt dflt [] a [] a"
| more: "pq_step lt dflt q (a i) r M \<Longrightarrow> pq_run lt dflt qs (a(i := M)) rs b \<Longrightarrow>
     pq_run lt dflt ((i, q) # qs) a (r # rs) b"

lemma pq_answers:
  assumes "compiled_in B impl"
  shows "answers (pq_bindings B P dflt impl p reg) (p @ ''_Push'') [WVal v] as_bool
           (pq_LocalPush P v)"
    and "answers (pq_bindings B P dflt impl p reg) (p @ ''_Pop'') [] as_found_val
           (pq_LocalPop P dflt)"
    and "answers (pq_bindings B P dflt impl p reg) (p @ ''_Top'') [] as_found_val
           (pq_LocalTop P dflt)"
    and "answers (pq_bindings B P dflt impl p reg) (p @ ''_Size'') [] as_size
           (pq_LocalSize P)"
  unfolding pq_bindings_def
  by (rule bind_all_answers [OF assms], (auto simp: pq_binds_def)[1], simp add: pq_binds_def,
      auto split: prod.splits)+

fun pq_home :: "('v, 'c) heap_lib \<Rightarrow> 'v \<Rightarrow> 'v pq_request \<Rightarrow> 'c \<Rightarrow> 'v pq_response \<times> 'c" where
  "pq_home P dflt (PqPush v) c = map_prod PqPushed id (pq_LocalPush P v c)"
| "pq_home P dflt PqPop c = map_prod PqFound id (pq_LocalPop P dflt c)"
| "pq_home P dflt PqTop c = map_prod PqFound id (pq_LocalTop P dflt c)"
| "pq_home P dflt PqSize c = map_prod PqCount id (pq_LocalSize P c)"

lemma pq_call_home:
  assumes "joined n p (pq_bindings B P dflt impl p reg) cl" "compiled_in B impl" "unat i < n"
  shows "pq_call P dflt (cl, i, q) w = run_local (pq_home P dflt q) i w"
proof -
  obtain E obj where cl: "cl = (E, obj)" by fastforce
  note run = dispatch_home [OF assms(1) [unfolded cl] _ assms(3)] pq_answers [OF assms(2)]
  show ?thesis
    by (cases q)
      (simp_all add: cl pq_Push_def pq_Pop_def pq_Top_def pq_Size_def run,
        simp_all add: run_local_def split_beta)
qed

context heap_container
begin

lemma top_is_greatest: "ok c \<Longrightarrow> contents c \<noteq> {#} \<Longrightarrow> greatest_in lt (hp_top P c) (contents c)"
  by (simp add: greatest_in_def top_in top_greatest)

lemma pq_home_step:
  assumes "ok c"
  shows "pq_step lt dflt q (contents c) (fst (pq_home P dflt q c)) (contents (snd (pq_home P dflt q c)))"
    and "ok (snd (pq_home P dflt q c))"
  using assms size_contents [OF assms] top_is_greatest [OF assms] contents_pop [OF assms]
  by (cases q; cases "contents c = {#}";
      auto simp: pq_LocalPush_def pq_LocalPop_def pq_LocalTop_def pq_LocalSize_def contents_push
        ok_push ok_pop Let_def)+

end

definition heaps_of :: "('c \<Rightarrow> 'v multiset) \<Rightarrow> 'c world \<Rightarrow> u16 \<Rightarrow> 'v multiset" where
  "heaps_of contents w i = contents (w i)"

lemma heaps_of_update: "heaps_of contents (w(i := c)) = (heaps_of contents w)(i := contents c)"
  by (auto simp: heaps_of_def fun_eq_iff)

lemma pq_Pop_home:
  assumes "joined n p (pq_bindings B P dflt impl p reg) cl" "compiled_in B impl" "unat i < n"
  shows "pq_Pop (fst cl) P dflt (snd cl) i w = run_local (pq_LocalPop P dflt) i w"
  unfolding pq_Pop_def
  by (rule dispatch_home [OF _ pq_answers(2) [OF assms(2)] assms(3)]) (use assms(1) in simp)

lemma heaps_of_const: "heaps_of contents (\<lambda>_. c) = (\<lambda>_. contents c)"
  by (simp add: heaps_of_def fun_eq_iff)

subsection \<open>Properties\<close>

text \<open>
  C4: any sequence of Push, Pop, Top and Size calls, by any clients on any of the servers, is a
  run of one multiset per server: Push adds the value, Top answers a greatest element, Pop
  answers a greatest element and removes one copy of it.
\<close>
theorem pq_clients_share_multisets:
  assumes "heap_container P lt contents ok" "compiled_in B impl"
    and "\<forall>r \<in> set reqs. joined n p (pq_bindings B P dflt impl p reg) (fst r) \<and>
           unat (fst (snd r)) < n"
    and "\<forall>i. ok (w i)"
  shows "\<exists>rs w'. run_requests (pq_call P dflt) reqs w = (map Inr rs, w') \<and> (\<forall>i. ok (w' i)) \<and>
           pq_run lt dflt (map snd reqs) (heaps_of contents w) rs (heaps_of contents w')"
  using assms(3,4)
proof (induction reqs arbitrary: w)
  case Nil
  then show ?case by (auto intro: pq_run.finished)
next
  case (Cons r reqs)
  obtain cl i q where r: "r = (cl, i, q)" by (cases r) auto
  have ok: "ok (w i)"
    using Cons.prems(2) by blast
  note step = heap_container.pq_home_step [OF assms(1) ok, of dflt q]
  obtain x c where x: "pq_home P dflt q (w i) = (x, c)" by fastforce
  have call: "pq_call P dflt r w = (Inr x, w(i := c))"
    using pq_call_home assms(2) Cons.prems(1) by (fastforce simp: r run_local_def x)
  have IH: "\<exists>rs w'. run_requests (pq_call P dflt) reqs v = (map Inr rs, w') \<and> (\<forall>i. ok (w' i)) \<and>
      pq_run lt dflt (map snd reqs) (heaps_of contents v) rs (heaps_of contents w')"
    if "\<forall>i. ok (v i)" for v
    using Cons.IH [OF _ that] Cons.prems(1) by simp
  have "\<forall>j. ok ((w(i := c)) j)"
    using Cons.prems(2) step(2) x by simp
  then obtain rs w' where "run_requests (pq_call P dflt) reqs (w(i := c)) = (map Inr rs, w')"
    "\<forall>i. ok (w' i)"
    "pq_run lt dflt (map snd reqs) (heaps_of contents (w(i := c))) rs (heaps_of contents w')"
    using IH by blast
  moreover from this(3) have
    "pq_run lt dflt (map snd (r # reqs)) (heaps_of contents w) (x # rs) (heaps_of contents w')"
    using step(1) x by (auto simp: r heaps_of_update heaps_of_def intro: pq_run.more)
  ultimately show ?case
    by (intro exI [of _ "x # rs"] exI [of _ w']) (simp add: call)
qed

definition sample_pq_reg :: "string \<Rightarrow> (nat, nat, nat list) registry" where
  "sample_pq_reg nam = pq_bindings rpclib_only list_heap_lib 0 RPCLIB nam Map.empty"

lemma pq_clients_share_multisets_witness:
  "\<exists>rs w'. run_requests (pq_call list_heap_lib 0)
            [(sample_client ''p'' (sample_pq_reg ''p'') 0 True, 1, PqPush 7),
             (sample_client ''p'' (sample_pq_reg ''p'') 1 True, 1, PqTop)] (\<lambda>_. [5, 3])
            = (map Inr rs, w') \<and>
     pq_run (<) 0 [(1, PqPush 7), (1, PqTop)] (\<lambda>_. {#5, 3#}) rs (heaps_of mset w')"
  using pq_clients_share_multisets [OF list_heap.heap_container_axioms rpclib_only_compiled, of
      "[(sample_client ''p'' (sample_pq_reg ''p'') 0 True, 1, PqPush 7),
        (sample_client ''p'' (sample_pq_reg ''p'') 1 True, 1, PqTop)]"
      3 "''p''" 0 Map.empty "\<lambda>_. [5, 3]"]
  by (simp add: sample_joined heaps_of_const del: run_requests.simps flip: sample_pq_reg_def) blast

text \<open>
  Pop calls on one server, by any clients, answer its elements in descending order, as many
  as there are calls or elements; the rest of the elements stays, and further calls answer
  \<open>false\<close>.
\<close>
theorem pq_pops_descend:
  assumes "heap_container P lt contents ok" "compiled_in B impl"
    and "\<forall>cl \<in> set cls. joined n p (pq_bindings B P dflt impl p reg) cl"
    and "unat i < n" "ok (w i)"
  shows "\<exists>vs w'. run_requests (\<lambda>cl. pq_Pop (fst cl) P dflt (snd cl) i) cls w
             = (map (\<lambda>v. Inr (True, v)) vs @
                  replicate (length cls - length vs) (Inr (False, dflt)), w') \<and>
           sorted_wrt (\<lambda>a b. \<not> lt a b) vs \<and>
           contents (w i) = mset vs + contents (w' i) \<and>
           length vs = min (length cls) (size (contents (w i)))"
  using assms(3,5)
proof (induction cls arbitrary: w)
  case Nil
  then show ?case by simp
next
  case (Cons cl cls)
  have IH: "\<exists>vs w'. run_requests (\<lambda>cl. pq_Pop (fst cl) P dflt (snd cl) i) cls v
      = (map (\<lambda>v. Inr (True, v)) vs @ replicate (length cls - length vs) (Inr (False, dflt)), w') \<and>
      sorted_wrt (\<lambda>a b. \<not> lt a b) vs \<and> contents (v i) = mset vs + contents (w' i) \<and>
      length vs = min (length cls) (size (contents (v i)))" if "ok (v i)" for v
    using Cons.IH [of v] Cons.prems(1) that by simp
  have pop: "pq_Pop (fst cl) P dflt (snd cl) i w = run_local (pq_LocalPop P dflt) i w"
    by (rule pq_Pop_home) (use Cons.prems assms(2,4) in auto)
  note sz = heap_container.size_contents [OF assms(1) Cons.prems(2)]
  show ?case
  proof (cases "contents (w i) = {#}")
    case True
    then have "pq_Pop (fst cl) P dflt (snd cl) i w = (Inr (False, dflt), w)"
      using sz by (simp add: pop run_local_def pq_LocalPop_def)
    moreover obtain vs w' where
      "run_requests (\<lambda>cl. pq_Pop (fst cl) P dflt (snd cl) i) cls w
        = (map (\<lambda>v. Inr (True, v)) vs @ replicate (length cls - length vs) (Inr (False, dflt)), w')"
      "contents (w i) = mset vs + contents (w' i)"
      using IH [of w] Cons.prems(2) by blast
    ultimately show ?thesis
      using True by (intro exI [of _ "[]"] exI [of _ w']) simp
  next
    case False
    define c where "c = hp_pop P (w i)"
    note top = heap_container.top_is_greatest [OF assms(1) Cons.prems(2) False]
    have c: "ok c" "contents (w i) = add_mset (hp_top P (w i)) (contents c)"
      using heap_container.ok_pop [OF assms(1) Cons.prems(2) False] top
        heap_container.contents_pop [OF assms(1) Cons.prems(2) False]
      by (simp_all add: c_def greatest_in_def)
    have r: "pq_Pop (fst cl) P dflt (snd cl) i w = (Inr (True, hp_top P (w i)), w(i := c))"
      using sz False by (simp add: pop run_local_def pq_LocalPop_def c_def Let_def nonempty_has_size)
    obtain vs w' where vs: "run_requests (\<lambda>cl. pq_Pop (fst cl) P dflt (snd cl) i) cls (w(i := c))
        = (map (\<lambda>v. Inr (True, v)) vs @ replicate (length cls - length vs) (Inr (False, dflt)), w')"
      "sorted_wrt (\<lambda>a b. \<not> lt a b) vs" "contents c = mset vs + contents (w' i)"
      "length vs = min (length cls) (size (contents c))"
      using IH [of "w(i := c)", unfolded fun_upd_same, OF c(1)] by blast
    have "\<forall>x \<in> set vs. \<not> lt (hp_top P (w i)) x"
      using top unfolding c(2) vs(3) greatest_in_def by simp
    then have "sorted_wrt (\<lambda>a b. \<not> lt a b) (hp_top P (w i) # vs)"
      using vs(2) by simp
    moreover have "contents (w i) = mset (hp_top P (w i) # vs) + contents (w' i)"
      unfolding c(2) vs(3) by simp
    moreover have "length (hp_top P (w i) # vs) = min (length (cl # cls)) (size (contents (w i)))"
      unfolding c(2) using vs(4) by simp
    moreover have "run_requests (\<lambda>cl. pq_Pop (fst cl) P dflt (snd cl) i) (cl # cls) w
        = (map (\<lambda>v. Inr (True, v)) (hp_top P (w i) # vs) @
             replicate (length (cl # cls) - length (hp_top P (w i) # vs)) (Inr (False, dflt)), w')"
      by (simp add: r vs(1))
    ultimately show ?thesis by blast
  qed
qed

lemma pq_pops_descend_witness:
  "\<exists>vs w'. run_requests (\<lambda>cl. pq_Pop (fst cl) list_heap_lib 0 (snd cl) 2)
            [sample_client ''p'' (sample_pq_reg ''p'') 0 True,
             sample_client ''p'' (sample_pq_reg ''p'') 1 False] (\<lambda>_. [5 :: nat, 3, 3])
            = (map (\<lambda>v. Inr (True, v)) vs, w') \<and> sorted_wrt (\<ge>) vs \<and> length vs = 2 \<and>
     {#5, 3, 3#} = mset vs + mset (w' 2)"
proof -
  have "\<exists>vs w'. run_requests (\<lambda>cl. pq_Pop (fst cl) list_heap_lib 0 (snd cl) 2)
            [sample_client ''p'' (sample_pq_reg ''p'') 0 True,
             sample_client ''p'' (sample_pq_reg ''p'') 1 False] (\<lambda>_. [5 :: nat, 3, 3])
            = (map (\<lambda>v. Inr (True, v)) vs @ replicate (Suc (Suc 0) - length vs) (Inr (False, 0)), w') \<and>
     sorted_wrt (\<lambda>a b. \<not> a < b) vs \<and> {#5, 3, 3#} = mset vs + mset (w' 2) \<and>
     length vs = Suc (Suc 0)"
    using pq_pops_descend [OF list_heap.heap_container_axioms rpclib_only_compiled, of
        "[sample_client ''p'' (sample_pq_reg ''p'') 0 True,
          sample_client ''p'' (sample_pq_reg ''p'') 1 False]" 3 "''p''" 0 Map.empty 2
        "\<lambda>_. [5, 3, 3]"]
    by (simp add: sample_joined del: run_requests.simps flip: sample_pq_reg_def)
  then obtain vs w' where vs: "run_requests (\<lambda>cl. pq_Pop (fst cl) list_heap_lib 0 (snd cl) 2)
            [sample_client ''p'' (sample_pq_reg ''p'') 0 True,
             sample_client ''p'' (sample_pq_reg ''p'') 1 False] (\<lambda>_. [5 :: nat, 3, 3])
            = (map (\<lambda>v. Inr (True, v)) vs @ replicate (Suc (Suc 0) - length vs) (Inr (False, 0)), w')"
    and "sorted_wrt (\<lambda>a b. \<not> a < b) vs" "{#5, 3, 3#} = mset vs + mset (w' 2)"
    and len: "length vs = Suc (Suc 0)"
    by blast
  then show ?thesis
    by (intro exI [of _ vs] exI [of _ w']) (simp add: not_less del: run_requests.simps)
qed

end
