(* ===== verification/Sequencer.thy ===== *)
theory Sequencer
  imports Sample_Cluster
begin

section \<open>basket::global_sequence\<close>

text \<open>
  \<open>src/basket/sequencer/global_sequence.cpp\<close>: one 64-bit counter per server, incremented
  under a lock in the server's mapped file. The operations first, each local call one step;
  then the steps inside a call, interleaved between threads, which show that the lock makes
  one step of a call.
\<close>

subsection \<open>Operations\<close>

definition LocalGetNextSequence :: "u64 \<Rightarrow> u64 \<times> u64" where
  "LocalGetNextSequence val = (let val' = val + 1 in (val', val'))"

definition sequence_bindings ::
  "build \<Rightarrow> RPCImplementation \<Rightarrow> string \<Rightarrow> ('k, 'v, u64) registry \<Rightarrow> ('k, 'v, u64) registry" where
  "sequence_bindings B impl func_prefix reg =
     bind_all B impl func_prefix [(''_GetNextSequence'', handle0 WSize LocalGetNextSequence)] reg"

text \<open>
  The constructor. Unlike those of the containers, it binds before it creates the segment,
  fixes the segment's size, and leaves the server's number out of the file's name; the
  counter's name in the segment has it.
\<close>

definition sequence_new ::
  "build \<Rightarrow> (string \<Rightarrow> string option) \<Rightarrow> int \<times> int \<Rightarrow> string \<Rightarrow> config \<times> rpc_factory \<Rightarrow>
     u64 node \<times> ('k, 'v, u64) registry \<Rightarrow>
     (container \<times> string option \<times> (config \<times> rpc_factory) \<times> u64 node \<times> ('k, 'v, u64) registry) result"
  where
  "sequence_new B files mpi nam st sys =
     (case sys of (nod, reg) \<Rightarrow>
        bind_result (new_container B files mpi nam st) (\<lambda>(obj0, cfg, rpcs).
        let obj = obj0\<lparr>obj_backed_file := BACKED_FILE_DIR (fst st) @ path_separator @ nam\<rparr>
        in if obj_is_server obj
           then
             let reg' = sequence_bindings B (RPC_IMPLEMENTATION cfg) (obj_func_prefix obj) reg;
                 removed = nod(obj_backed_file obj := None);
                 created = removed(obj_backed_file obj \<mapsto>
                   \<lparr>seg_memory = 65536, seg_object_name = obj_name obj, seg_object = 0\<rparr>)
             in Inr (obj, Some (obj_backed_file obj), (cfg, rpcs), created, reg')
           else if obj_server_on_node obj
           then (case nod (obj_backed_file obj) of
                   None \<Rightarrow> Inl NoSegment
                 | Some seg \<Rightarrow>
                     Inr (obj,
                          (if seg_object_name seg = obj_name obj then Some (obj_backed_file obj)
                           else None),
                          (cfg, rpcs), nod, reg))
           else Inr (obj, None, (cfg, rpcs), nod, reg)))"

definition GetNextSequence ::
  "('k, 'v, u64) env \<Rightarrow> container \<Rightarrow> u64 world \<Rightarrow> u64 result \<times> u64 world" where
  "GetNextSequence E obj w =
     (if obj_server_on_node obj then run_local LocalGetNextSequence (obj_my_server obj) w
      else RPC_CALL_WRAPPER E (obj_rpc obj) (obj_func_prefix obj) ''_GetNextSequence''
             (obj_my_server obj) as_size [] w)"

definition GetNextSequenceServer ::
  "('k, 'v, u64) env \<Rightarrow> container \<Rightarrow> u16 \<Rightarrow> u64 world \<Rightarrow> u64 result \<times> u64 world" where
  "GetNextSequenceServer E obj server w =
     (if is_local obj server then run_local LocalGetNextSequence (obj_my_server obj) w
      else RPC_CALL_WRAPPER E (obj_rpc obj) (obj_func_prefix obj) ''_GetNextSequence'' server
             as_size [] w)"

text \<open>A call of a client: \<open>None\<close> for its own server, \<open>Some i\<close> for server \<open>i\<close>.\<close>

fun next_call ::
  "('k, 'v, u64) client \<times> u16 option \<Rightarrow> u64 world \<Rightarrow> u64 result \<times> u64 world" where
  "next_call ((E, obj), None) w = GetNextSequence E obj w"
| "next_call ((E, obj), Some i) w = GetNextSequenceServer E obj i w"

fun call_target :: "('k, 'v, u64) client \<times> u16 option \<Rightarrow> u16" where
  "call_target ((E, obj), None) = obj_my_server obj"
| "call_target (cl, Some i) = i"

lemma sequence_answers:
  assumes "compiled_in B impl"
  shows "answers (sequence_bindings B impl p reg) (p @ ''_GetNextSequence'') [] as_size
           LocalGetNextSequence"
  unfolding sequence_bindings_def
  by (rule bind_all_answers [OF assms, where h = "handle0 WSize LocalGetNextSequence"])
    (auto split: prod.splits)

lemma next_call_home:
  assumes "joined n p (sequence_bindings B impl p reg) (fst r)" "compiled_in B impl"
    and "unat (call_target r) < n"
  shows "next_call r w = (Inr (w (call_target r) + 1), w(call_target r := w (call_target r) + 1))"
proof -
  obtain E obj i where r: "r = ((E, obj), i)" by (cases r) auto
  have J: "joined n p (sequence_bindings B impl p reg) (E, obj)"
    using assms(1) r by simp
  note ans = sequence_answers [OF assms(2)]
  have "next_call r w = run_local LocalGetNextSequence (call_target r) w"
    using dispatch_home [OF J ans] dispatch_in_server [OF J ans] assms(3)
    by (cases i) (simp_all add: r GetNextSequence_def GetNextSequenceServer_def)
  then show ?thesis
    by (simp add: run_local_def LocalGetNextSequence_def Let_def)
qed

subsection \<open>Threads inside the call\<close>

text \<open>
  Where a thread is in \<open>LocalGetNextSequence\<close>: outside, holding the lock, having read the
  counter, having written it. \<open>returned\<close> collects what the calls return, in the order in
  which they leave.
\<close>

datatype seq_pc = Outside | Entered | Loaded u64 | Stored u64

record seq_state =
  seq_value :: u64
  seq_mutex :: "nat option"
  seq_pcs :: "nat \<Rightarrow> seq_pc"
  returned :: "u64 list"

inductive seq_step :: "seq_state \<Rightarrow> seq_state \<Rightarrow> bool" where
  acquire: "seq_mutex s = None \<Longrightarrow> seq_pcs s t = Outside \<Longrightarrow>
     seq_step s (s\<lparr>seq_mutex := Some t, seq_pcs := (seq_pcs s)(t := Entered)\<rparr>)"
| load: "seq_pcs s t = Entered \<Longrightarrow>
     seq_step s (s\<lparr>seq_pcs := (seq_pcs s)(t := Loaded (seq_value s))\<rparr>)"
| store: "seq_pcs s t = Loaded v \<Longrightarrow>
     seq_step s (s\<lparr>seq_value := v + 1, seq_pcs := (seq_pcs s)(t := Stored (v + 1))\<rparr>)"
| release: "seq_pcs s t = Stored r \<Longrightarrow>
     seq_step s (s\<lparr>seq_mutex := None, seq_pcs := (seq_pcs s)(t := Outside),
                   returned := returned s @ [r]\<rparr>)"

definition seq_start :: "u64 \<Rightarrow> seq_state" where
  "seq_start v = \<lparr>seq_value = v, seq_mutex = None, seq_pcs = (\<lambda>_. Outside), returned = []\<rparr>"

definition consecutive :: "u64 \<Rightarrow> nat \<Rightarrow> u64 list" where
  "consecutive v n = map (\<lambda>j. v + of_nat (Suc j)) [0..<n]"

lemma consecutive_Suc: "consecutive v (Suc n) = consecutive v n @ [v + of_nat n + 1]"
  by (simp add: consecutive_def add.assoc add.commute)

lemma consecutive_Cons: "consecutive v (Suc n) = (v + 1) # consecutive (v + 1) n"
  by (induction n) (simp_all add: consecutive_Suc add.assoc add.commute, simp add: consecutive_def)

lemma length_consecutive [simp]: "length (consecutive v n) = n"
  by (simp add: consecutive_def)

lemma distinct_consecutive: "n \<le> 2 ^ 64 \<Longrightarrow> distinct (consecutive v n)"
proof -
  assume n: "n \<le> 2 ^ 64"
  have "i = j" if "i < n" "j < n" "(of_nat i :: u64) = of_nat j" for i j
  proof -
    have "unat (of_nat i :: u64) = i" "unat (of_nat j :: u64) = j"
      using that(1,2) n by (auto simp: unat_of_nat)
    then show ?thesis using that(3) by metis
  qed
  then show ?thesis
    by (auto simp: consecutive_def distinct_map inj_on_def)
qed

text \<open>
  The invariant: only the holder of the lock is inside, the calls that left have returned
  consecutive values, and the holder's own view of the counter is current.
\<close>

definition seq_inv :: "u64 \<Rightarrow> seq_state \<Rightarrow> bool" where
  "seq_inv v s \<longleftrightarrow>
     (\<forall>t. seq_pcs s t \<noteq> Outside \<longrightarrow> seq_mutex s = Some t) \<and>
     returned s = consecutive v (length (returned s)) \<and>
     (case seq_mutex s of
        None \<Rightarrow> seq_value s = v + of_nat (length (returned s))
      | Some t \<Rightarrow>
          (case seq_pcs s t of
             Outside \<Rightarrow> False
           | Entered \<Rightarrow> seq_value s = v + of_nat (length (returned s))
           | Loaded x \<Rightarrow> x = v + of_nat (length (returned s))
           | Stored x \<Rightarrow> x = v + of_nat (length (returned s)) + 1 \<and> seq_value s = x))"

lemma seq_inv_start: "seq_inv v (seq_start v)"
  by (simp add: seq_inv_def seq_start_def consecutive_def)

lemma seq_inv_step: "seq_step s s' \<Longrightarrow> seq_inv v s \<Longrightarrow> seq_inv v s'"
proof (induction rule: seq_step.induct)
  case (acquire s t)
  then show ?case by (auto simp: seq_inv_def)
next
  case (load s t)
  then have "seq_mutex s = Some t" by (auto simp: seq_inv_def)
  then show ?case using load by (auto simp: seq_inv_def)
next
  case (store s t x)
  then have "seq_mutex s = Some t" by (auto simp: seq_inv_def)
  then show ?case using store by (auto simp: seq_inv_def)
next
  case (release s t r)
  then have m: "seq_mutex s = Some t" by (auto simp: seq_inv_def)
  moreover have "seq_pcs s u = Outside" if "u \<noteq> t" for u
    using release m that by (auto simp: seq_inv_def)
  ultimately show ?case
    using release by (auto simp: seq_inv_def consecutive_Suc add.assoc)
qed

lemma seq_inv_reachable: "seq_step\<^sup>*\<^sup>* (seq_start v) s \<Longrightarrow> seq_inv v s"
  by (induction rule: rtranclp_induct) (auto simp: seq_inv_start dest: seq_inv_step)

subsection \<open>Properties\<close>

text \<open>The answers of the calls that reach server \<open>i\<close>, in order.\<close>

definition answers_at :: "u16 \<Rightarrow> (('k, 'v, u64) client \<times> u16 option) list \<Rightarrow> u64 list \<Rightarrow> u64 list" where
  "answers_at i reqs rs = map snd (filter (\<lambda>x. fst x = i) (zip (map call_target reqs) rs))"

lemma answers_at_Cons:
  "answers_at i (q # reqs) (r # rs)
     = (if call_target q = i then r # answers_at i reqs rs else answers_at i reqs rs)"
  by (simp add: answers_at_def)

text \<open>
  C16: calls for the next sequence number, by any clients, each for the client's own server or a
  named one, get from every server its consecutive numbers; up to \<open>2 ^ 64\<close> of them are
  pairwise different.
\<close>
theorem sequence_numbers_consecutive:
  assumes "compiled_in B impl"
    and "\<forall>r \<in> set reqs. joined n p (sequence_bindings B impl p reg) (fst r) \<and>
           unat (call_target r) < n"
  shows "\<exists>rs w'. run_requests next_call reqs w = (map Inr rs, w') \<and>
           answers_at i reqs rs = consecutive (w i) (length (answers_at i reqs rs)) \<and>
           w' i = w i + of_nat (length (answers_at i reqs rs)) \<and>
           (length reqs \<le> 2 ^ 64 \<longrightarrow> distinct (answers_at i reqs rs))"
proof -
  have "\<exists>rs w'. run_requests next_call reqs w = (map Inr rs, w') \<and> length rs = length reqs \<and>
      answers_at i reqs rs = consecutive (w i) (length (answers_at i reqs rs)) \<and>
      w' i = w i + of_nat (length (answers_at i reqs rs))"
    using assms(2)
  proof (induction reqs arbitrary: w)
    case Nil
    then show ?case by (simp add: answers_at_def consecutive_def)
  next
    case (Cons q reqs)
    let ?t = "call_target q" and ?v = "w (call_target q) + 1"
    have call: "next_call q w = (Inr ?v, w(?t := ?v))"
      by (rule next_call_home) (use Cons.prems assms(1) in auto)
    have IH: "\<exists>rs w'. run_requests next_call reqs v = (map Inr rs, w') \<and>
        length rs = length reqs \<and>
        answers_at i reqs rs = consecutive (v i) (length (answers_at i reqs rs)) \<and>
        w' i = v i + of_nat (length (answers_at i reqs rs))" for v
      using Cons.IH [of v] Cons.prems by simp
    obtain rs w' where rs: "run_requests next_call reqs (w(?t := ?v)) = (map Inr rs, w')"
      "length rs = length reqs"
      "answers_at i reqs rs = consecutive ((w(?t := ?v)) i) (length (answers_at i reqs rs))"
      "w' i = (w(?t := ?v)) i + of_nat (length (answers_at i reqs rs))"
      using IH [of "w(?t := ?v)"] by blast
    show ?case
    proof (intro exI conjI)
      show "run_requests next_call (q # reqs) w = (map Inr (?v # rs), w')"
        using rs(1) by (simp add: call)
      show "length (?v # rs) = length (q # reqs)"
        using rs(2) by simp
      show "answers_at i (q # reqs) (?v # rs)
          = consecutive (w i) (length (answers_at i (q # reqs) (?v # rs)))"
        using rs(3) by (simp add: answers_at_Cons consecutive_Cons split: if_splits)
      show "w' i = w i + of_nat (length (answers_at i (q # reqs) (?v # rs)))"
        using rs(4) by (simp add: answers_at_Cons split: if_splits)
    qed
  qed
  then obtain rs w' where rs: "run_requests next_call reqs w = (map Inr rs, w')"
    "length rs = length reqs"
    "answers_at i reqs rs = consecutive (w i) (length (answers_at i reqs rs))"
    "w' i = w i + of_nat (length (answers_at i reqs rs))"
    by blast
  have len: "length (answers_at i reqs rs) \<le> length reqs"
    using rs(2) length_filter_le [of "\<lambda>x. fst x = i" "zip (map call_target reqs) rs"]
    by (simp add: answers_at_def)
  have "distinct (answers_at i reqs rs)" if "length reqs \<le> 2 ^ 64"
    by (subst rs(3)) (rule distinct_consecutive [OF le_trans [OF len that]])
  then show ?thesis using rs by blast
qed

text \<open>
  C5: threads of any number of processes may interleave inside the call in any way: the values
  returned so far are consecutive, in the order in which the calls leave, and, up to \<open>2 ^ 64\<close>
  of them, pairwise different. The lock is what makes a call one step.
\<close>
theorem sequence_interleaving_safe:
  assumes "seq_step\<^sup>*\<^sup>* (seq_start v) s"
  shows "returned s = consecutive v (length (returned s)) \<and>
         (length (returned s) \<le> 2 ^ 64 \<longrightarrow> distinct (returned s)) \<and>
         (\<forall>t u. seq_pcs s t = Outside \<or> seq_pcs s u = Outside \<or> t = u)"
proof -
  note I = seq_inv_reachable [OF assms, unfolded seq_inv_def]
  have "returned s = consecutive v (length (returned s))"
    using I by blast
  moreover from this have "length (returned s) \<le> 2 ^ 64 \<longrightarrow> distinct (returned s)"
    by (metis distinct_consecutive)
  moreover have "seq_pcs s t = Outside \<or> seq_pcs s u = Outside \<or> t = u" for t u
    using I by (metis option.inject)
  ultimately show ?thesis by blast
qed

definition sample_seq_reg :: "(nat, nat, u64) registry" where
  "sample_seq_reg = sequence_bindings rpclib_only RPCLIB ''g'' Map.empty"

definition sample_seq_calls :: "((nat, nat, u64) client \<times> u16 option) list" where
  "sample_seq_calls =
     [(sample_client ''g'' sample_seq_reg 0 True, None),
      (sample_client ''g'' sample_seq_reg 1 False, Some 0)]"

lemma sample_seq_calls_ok:
  "\<forall>r \<in> set sample_seq_calls.
     joined 3 ''g'' (sequence_bindings rpclib_only RPCLIB ''g'' Map.empty) (fst r) \<and>
     unat (call_target r) < 3"
  by (simp add: sample_seq_calls_def sample_joined flip: sample_seq_reg_def)
    (simp add: sample_client_def sample_object_def)

lemma sequence_numbers_consecutive_witness:
  "\<exists>rs w'. run_requests next_call sample_seq_calls (\<lambda>_. 41) = (map Inr rs, w') \<and>
     answers_at 0 sample_seq_calls rs = consecutive 41 (length (answers_at 0 sample_seq_calls rs)) \<and>
     distinct (answers_at 0 sample_seq_calls rs)"
proof -
  have "length sample_seq_calls \<le> 2 ^ 64"
    by (simp add: sample_seq_calls_def)
  then show ?thesis
    using sequence_numbers_consecutive [OF rpclib_only_compiled sample_seq_calls_ok,
        where i = 0 and w = "\<lambda>_. 41"]
    by blast
qed

lemma sequence_interleaving_safe_witness:
  "\<exists>s. seq_step\<^sup>*\<^sup>* (seq_start 0) s \<and> returned s = [1] \<and>
     (\<forall>t u. seq_pcs s t = Outside \<or> seq_pcs s u = Outside \<or> t = u)"
proof -
  define s1 where "s1 = (seq_start 0)\<lparr>seq_mutex := Some 7, seq_pcs := (\<lambda>_. Outside)(7 := Entered)\<rparr>"
  define s2 where "s2 = s1\<lparr>seq_pcs := (seq_pcs s1)(7 := Loaded 0)\<rparr>"
  define s3 where "s3 = s2\<lparr>seq_value := 0 + 1, seq_pcs := (seq_pcs s2)(7 := Stored (0 + 1))\<rparr>"
  define s4 where "s4 = s3\<lparr>seq_mutex := None, seq_pcs := (seq_pcs s3)(7 := Outside),
                           returned := returned s3 @ [1]\<rparr>"
  have "seq_step (seq_start 0) s1"
    using seq_step.acquire [of "seq_start 0" 7] by (simp add: s1_def seq_start_def)
  moreover have "seq_step s1 s2"
    using seq_step.load [of s1 7] by (simp add: s1_def s2_def seq_start_def)
  moreover have "seq_step s2 s3"
    unfolding s3_def by (rule seq_step.store) (simp add: s2_def)
  moreover have "seq_step s3 s4"
    unfolding s4_def by (rule seq_step.release) (simp add: s3_def)
  ultimately have "seq_step\<^sup>*\<^sup>* (seq_start 0) s4"
    by (meson rtranclp.rtrancl_into_rtrancl rtranclp.rtrancl_refl)
  moreover have "returned s4 = [1]"
    by (simp add: s4_def s3_def s2_def s1_def seq_start_def)
  ultimately show ?thesis
    using sequence_interleaving_safe [of 0 s4] by blast
qed

text \<open>
  Of two servers on one node that construct a sequencer of the same name, the second
  replaces the file of the first: a client of the first, constructed afterwards, finds no
  counter under its name and holds a null pointer.
\<close>
theorem sequencer_files_collide:
  assumes "sequence_new B1 files mpi1 nam (cfg1, rpcs1) (nod, reg) = Inr (o1, p1, st1, nod1, reg1)"
    "IS_SERVER cfg1"
    and "sequence_new B2 files mpi2 nam (cfg2, rpcs2) (nod1, reg') = Inr (o2, p2, st2, nod2, reg2)"
    "IS_SERVER cfg2"
    and "sequence_new B3 files mpi3 nam (cfg3, rpcs3) (nod2, reg'') = Inr (o3, p3, st3, nod3, reg3)"
    "\<not> IS_SERVER cfg3" "SERVER_ON_NODE cfg3" "MY_SERVER cfg3 = MY_SERVER cfg1"
    and "BACKED_FILE_DIR cfg2 = BACKED_FILE_DIR cfg1" "BACKED_FILE_DIR cfg3 = BACKED_FILE_DIR cfg1"
    and "MY_SERVER cfg2 \<noteq> MY_SERVER cfg1"
  shows "p1 = p2 \<and> p1 \<noteq> None \<and> p3 = None"
proof -
  let ?file = "BACKED_FILE_DIR cfg1 @ path_separator @ nam"
  let ?nam2 = "nam @ ''_'' @ to_string (uint (MY_SERVER cfg2))"
  have 1: "p1 = Some ?file"
    using assms(1,2)
    by (auto simp: sequence_new_def bind_result_Inr_iff Let_def new_container_def split: if_splits)
  have 2: "p2 = Some ?file \<and> nod2 ?file = Some \<lparr>seg_memory = 65536, seg_object_name = ?nam2,
      seg_object = 0\<rparr>"
    using assms(3,4,9)
    by (auto simp: sequence_new_def bind_result_Inr_iff Let_def new_container_def split: if_splits)
  have "uint (MY_SERVER cfg1) \<noteq> uint (MY_SERVER cfg2)"
    using assms(11) by (metis word_uint_eq_iff)
  then have "p3 = None"
    using assms(5-8,10) 2
    by (auto simp: sequence_new_def bind_result_Inr_iff Let_def new_container_def split: if_splits)
  then show ?thesis using 1 2 by simp
qed

lemma sample_sequence_new:
  "map_sum id (\<lambda>(o1, p1, st1, nod1, reg1). p1)
     (sequence_new rpclib_only two_hosts (8, 7) ''g'' (sample_conf True\<lparr>MY_SERVER := i\<rparr>, Map.empty)
        (nod, reg)) = Inr (Some (BACKED_FILE_DIR (sample_conf True) @ path_separator @ ''g''))"
  by (simp add: sequence_new_def new_container_def GetRPC_def RPC_new_def LoadServers_two_hosts
      sample_conf_def start_server_def compiled_in_def rpclib_only_def Let_def)

lemma sequencer_files_collide_witness:
  "\<exists>o1 p1 st1 nod1 reg1 o2 p2 st2 nod2 reg2 o3 p3 st3 nod3 reg3.
     sequence_new rpclib_only two_hosts (8, 7) ''g'' (sample_conf True\<lparr>MY_SERVER := 0\<rparr>, Map.empty)
       (Map.empty, Map.empty :: (nat, nat, u64) registry) = Inr (o1, p1, st1, nod1, reg1) \<and>
     sequence_new rpclib_only two_hosts (8, 7) ''g'' (sample_conf True\<lparr>MY_SERVER := 1\<rparr>, Map.empty)
       (nod1, Map.empty :: (nat, nat, u64) registry) = Inr (o2, p2, st2, nod2, reg2) \<and>
     sequence_new rpclib_only two_hosts (8, 7) ''g'' (sample_conf False\<lparr>MY_SERVER := 0\<rparr>, Map.empty)
       (nod2, Map.empty :: (nat, nat, u64) registry) = Inr (o3, p3, st3, nod3, reg3) \<and>
     p1 = p2 \<and> p3 = None"
proof -
  obtain o1 p1 st1 nod1 reg1 where 1: "sequence_new rpclib_only two_hosts (8, 7) ''g''
      (sample_conf True\<lparr>MY_SERVER := 0\<rparr>, Map.empty)
      (Map.empty, Map.empty :: (nat, nat, u64) registry) = Inr (o1, p1, st1, nod1, reg1)"
    using sample_sequence_new [of 0 Map.empty "Map.empty :: (nat, nat, u64) registry"]
    by (auto simp: map_sum_def split: sum.splits)
  obtain o2 p2 st2 nod2 reg2 where 2: "sequence_new rpclib_only two_hosts (8, 7) ''g''
      (sample_conf True\<lparr>MY_SERVER := 1\<rparr>, Map.empty)
      (nod1, Map.empty :: (nat, nat, u64) registry) = Inr (o2, p2, st2, nod2, reg2)"
    using sample_sequence_new [of 1 nod1 "Map.empty :: (nat, nat, u64) registry"]
    by (auto simp: map_sum_def split: sum.splits)
  have "nod2 (''/dev/shm'' @ path_separator @ ''g'') \<noteq> None"
    using 2 by (auto simp: sequence_new_def bind_result_Inr_iff Let_def new_container_def
        split: if_splits)
  then obtain o3 p3 st3 nod3 reg3 where 3: "sequence_new rpclib_only two_hosts (8, 7) ''g''
      (sample_conf False\<lparr>MY_SERVER := 0\<rparr>, Map.empty)
      (nod2, Map.empty :: (nat, nat, u64) registry) = Inr (o3, p3, st3, nod3, reg3)"
    by (auto simp: sequence_new_def new_container_def GetRPC_def RPC_new_def LoadServers_two_hosts
        sample_conf_def start_server_def compiled_in_def rpclib_only_def Let_def
        ConfigurationManager_def)
  have "p1 = p2 \<and> p1 \<noteq> None \<and> p3 = None"
    by (rule sequencer_files_collide [OF 1 _ 2 _ 3]) simp_all
  then show ?thesis using 1 2 3 by blast
qed

end
