(* ===== verification/Global_Clock.thy ===== *)
theory Global_Clock
  imports Sample_Cluster
begin

section \<open>basket::global_clock\<close>

text \<open>
  \<open>src/basket/clock/global_clock.cpp\<close>: every server keeps the time point of its construction
  and answers the microseconds since then. Time points are nanosecond counts; \<open>now i\<close> is what
  the high resolution clock of server \<open>i\<close>'s node reads when the operation runs.
\<close>

subsection \<open>Operations\<close>

text \<open>
  \<open>duration_cast\<close> truncates towards zero; \<open>HTime\<close> is a \<open>uint64_t\<close>.
\<close>

definition LocalGetTime :: "int \<Rightarrow> int \<Rightarrow> u64 \<times> int" where
  "LocalGetTime t2 start = (word_of_int ((t2 - start) sdiv 1000), start)"

definition clock_bindings ::
  "build \<Rightarrow> int \<Rightarrow> RPCImplementation \<Rightarrow> string \<Rightarrow> ('k, 'v, int) registry \<Rightarrow> ('k, 'v, int) registry"
  where
  "clock_bindings B t2 impl func_prefix reg =
     bind_all B impl func_prefix [(''_GetTime'', handle0 WSize (LocalGetTime t2))] reg"

text \<open>
  The constructor takes its \<open>RPC\<close> from \<open>Singleton<RPC>\<close>, not from the factory: \<open>single\<close> is
  that instance, built on first use. It binds before it creates the segment, fixes the
  segment's size and the structure's name, and leaves the server's number out of the file's
  name. \<open>t0\<close> is the clock's reading at construction.
\<close>

definition singleton_rpc ::
  "build \<Rightarrow> (string \<Rightarrow> string option) \<Rightarrow> config \<times> rpc option \<Rightarrow> (rpc \<times> config \<times> rpc option) result"
  where
  "singleton_rpc B files =
     GetInstance (\<lambda>cfg. bind_result (RPC_new B files cfg) (\<lambda>(cfg', P). Inr (P, cfg')))"

definition clock_new ::
  "build \<Rightarrow> (string \<Rightarrow> string option) \<Rightarrow> int \<times> int \<Rightarrow> int \<Rightarrow> (int \<Rightarrow> RPCImplementation \<Rightarrow> string \<Rightarrow>
     ('k, 'v, int) registry \<Rightarrow> ('k, 'v, int) registry) \<Rightarrow> string \<Rightarrow> config \<times> rpc option \<Rightarrow>
     int node \<times> ('k, 'v, int) registry \<Rightarrow>
     (container \<times> string option \<times> (config \<times> rpc option) \<times> int node \<times> ('k, 'v, int) registry) result"
  where
  "clock_new B files mpi t0 binds nam st sys =
     (case sys of (nod, reg) \<Rightarrow>
        bind_result (singleton_rpc B files st) (\<lambda>(P, cfg', single').
        let cfg = fst st;
            obj = \<lparr>obj_comm_size = fst mpi, obj_my_rank = snd mpi,
                   obj_num_servers = NUM_SERVERS cfg, obj_my_server = MY_SERVER cfg,
                   obj_rpc = P, obj_memory_allocated = 1024 * 1024 * 128,
                   obj_is_server = IS_SERVER cfg,
                   obj_name = nam @ ''_'' @ to_string (uint (MY_SERVER cfg)),
                   obj_func_prefix = nam, obj_server_on_node = SERVER_ON_NODE cfg,
                   obj_backed_file = BACKED_FILE_DIR cfg @ path_separator @ nam\<rparr>
        in if obj_is_server obj
           then
             let reg' = binds t0 (RPC_IMPLEMENTATION cfg') nam reg;
                 removed = nod(obj_backed_file obj := None);
                 created = removed(obj_backed_file obj \<mapsto>
                   \<lparr>seg_memory = 65536, seg_object_name = ''Time'', seg_object = t0\<rparr>)
             in Inr (obj, Some (obj_backed_file obj), (cfg', single'), created, reg')
           else if obj_server_on_node obj
           then (case nod (obj_backed_file obj) of
                   None \<Rightarrow> Inl NoSegment
                 | Some seg \<Rightarrow>
                     Inr (obj,
                          (if seg_object_name seg = ''Time'' then Some (obj_backed_file obj)
                           else None),
                          (cfg', single'), nod, reg))
           else Inr (obj, None, (cfg', single'), nod, reg)))"

definition GetTime ::
  "('k, 'v, int) env \<Rightarrow> int \<Rightarrow> container \<Rightarrow> int world \<Rightarrow> u64 result \<times> int world" where
  "GetTime E t2 obj w =
     (if obj_server_on_node obj then run_local (LocalGetTime t2) (obj_my_server obj) w
      else RPC_CALL_WRAPPER E (obj_rpc obj) (obj_func_prefix obj) ''_GetTime''
             (obj_my_server obj) as_size [] w)"

definition GetTimeServer ::
  "('k, 'v, int) env \<Rightarrow> int \<Rightarrow> container \<Rightarrow> u16 \<Rightarrow> int world \<Rightarrow> u64 result \<times> int world" where
  "GetTimeServer E t2 obj server w =
     (if is_local obj server then run_local (LocalGetTime t2) (obj_my_server obj) w
      else RPC_CALL_WRAPPER E (obj_rpc obj) (obj_func_prefix obj) ''_GetTime'' server as_size [] w)"

lemma clock_answers:
  assumes "compiled_in B impl"
  shows "answers (clock_bindings B t2 impl p reg) (p @ ''_GetTime'') [] as_size (LocalGetTime t2)"
  unfolding clock_bindings_def
  by (rule bind_all_answers [OF assms, where h = "handle0 WSize (LocalGetTime t2)"])
    (auto split: prod.splits)

lemma sdiv_nonneg: "0 \<le> a \<Longrightarrow> (a :: int) sdiv 1000 = a div 1000"
  by (cases "a = 0") (simp_all add: signed_divide_int_def)

subsection \<open>Properties\<close>

text \<open>
  C38: a client reads, from its own or a named server, locally or by a call at the same
  instant, the microseconds since that server's start, rounded down; the start is unchanged. A
  later reading of the same server is not smaller (within \<open>2 ^ 64\<close> microseconds).
\<close>
theorem clock_reads_elapsed:
  assumes "compiled_in B impl" "unat i < n"
    and "\<And>t. joined n p (clock_bindings B t impl p reg) (E t, obj)"
    and "w i \<le> s" "s \<le> t" "(t - w i) div 1000 < 2 ^ 64"
  shows "\<exists>x y. GetTimeServer (E s) s obj i w = (Inr x, w) \<and> uint x = (s - w i) div 1000 \<and>
           GetTimeServer (E t) t obj i w = (Inr y, w) \<and> uint y = (t - w i) div 1000 \<and> x \<le> y \<and>
           (i = obj_my_server obj \<longrightarrow> GetTime (E t) t obj w = (Inr y, w))"
proof -
  have run: "GetTimeServer (E u) u obj i w = run_local (LocalGetTime u) i w" for u
    unfolding GetTimeServer_def by (rule dispatch_home [OF assms(3) clock_answers [OF assms(1)] assms(2)])
  have own: "GetTime (E u) u obj w = run_local (LocalGetTime u) (obj_my_server obj) w" for u
    unfolding GetTime_def by (rule dispatch_in_server [OF assms(3) clock_answers [OF assms(1)]])
  have le: "(s - w i) div 1000 \<le> (t - w i) div 1000"
    using assms(5) by (simp add: zdiv_mono1)
  have val: "uint (word_of_int ((u - w i) sdiv 1000) :: u64) = (u - w i) div 1000"
    if "w i \<le> u" "u \<le> t" for u
  proof -
    have "(u - w i) div 1000 \<le> (t - w i) div 1000"
      using that by (simp add: zdiv_mono1)
    then show ?thesis
      using that assms(6) by (simp add: sdiv_nonneg uint_word_of_int)
  qed
  show ?thesis
  proof (intro exI conjI impI)
    show "GetTimeServer (E s) s obj i w = (Inr (word_of_int ((s - w i) sdiv 1000)), w)"
      "GetTimeServer (E t) t obj i w = (Inr (word_of_int ((t - w i) sdiv 1000)), w)"
      "i = obj_my_server obj \<Longrightarrow> GetTime (E t) t obj w = (Inr (word_of_int ((t - w i) sdiv 1000)), w)"
      by (simp_all add: run own run_local_def LocalGetTime_def)
    show "uint (word_of_int ((s - w i) sdiv 1000) :: u64) = (s - w i) div 1000"
      "uint (word_of_int ((t - w i) sdiv 1000) :: u64) = (t - w i) div 1000"
      using val assms(4,5) by auto
    then show "(word_of_int ((s - w i) sdiv 1000) :: u64) \<le> word_of_int ((t - w i) sdiv 1000)"
      using le by (simp add: word_le_def)
  qed
qed

definition sample_clock_reg :: "int \<Rightarrow> (nat, nat, int) registry" where
  "sample_clock_reg t = clock_bindings rpclib_only t RPCLIB ''c'' Map.empty"

lemma clock_reads_elapsed_witness:
  "\<exists>x y. GetTimeServer (sample_env (sample_clock_reg 5500)) 5500 (sample_object ''c'' 0 True) 2 (\<lambda>_. 2000)
       = (Inr x, \<lambda>_. 2000) \<and> uint x = 3 \<and>
     GetTimeServer (sample_env (sample_clock_reg 9000)) 9000 (sample_object ''c'' 0 True) 2 (\<lambda>_. 2000)
       = (Inr y, \<lambda>_. 2000) \<and> uint y = 7 \<and> x \<le> y"
proof -
  have "joined 3 ''c'' (clock_bindings rpclib_only t RPCLIB ''c'' Map.empty)
      (sample_env (sample_clock_reg t), sample_object ''c'' 0 True)" for t
    using sample_joined_pair [of 0] by (simp add: sample_clock_reg_def)
  from clock_reads_elapsed [OF rpclib_only_compiled _ this, of 2 "\<lambda>_. 2000" 5500 9000]
  show ?thesis by auto
qed

text \<open>
  A server process that has both a container and a clock has two \<open>RPC\<close> objects that start
  an rpclib server on one and the same port.
\<close>
theorem clock_and_container_share_port:
  assumes "GetRPC B files (RPC_PORT cfg) (cfg, Map.empty) = Inr (P, cfg1, rpcs1)"
    and "singleton_rpc B files (cfg1, None) = Inr (P', cfg2, s)"
    and "IS_SERVER cfg" "ENABLE_RPCLIB B" "RPC_IMPLEMENTATION cfg = RPCLIB"
  shows "\<exists>port. rpclib_server P = Some port \<and> rpclib_server P' = Some port"
proof -
  have same: "cfg\<lparr>RPC_PORT := RPC_PORT cfg\<rparr> = cfg" by (cases cfg) simp
  obtain c where c: "RPC_new B files cfg = Inr (c, P)" "cfg1 = c\<lparr>RPC_PORT := RPC_PORT cfg\<rparr>"
    using assms(1) by (auto simp: GetRPC_def Let_def bind_result_Inr_iff same)
  have "RPC_new B files cfg1 = Inr (cfg2, P')"
    using assms(2) by (auto simp: singleton_rpc_def bind_result_Inr_iff)
  moreover have port: "rpclib_server Q = Some (listen_port (RPC_PORT g) (MY_SERVER g))"
    if n: "RPC_new B files g = Inr (g', Q)" and "IS_SERVER g" "RPC_IMPLEMENTATION g = RPCLIB" for g g' Q
  proof -
    obtain g1 l where L: "LoadServers files g = Inr (g1, l)"
      using n by (auto simp: RPC_new_def bind_result_Inr_iff)
    note F = LoadServers_Inr [OF L]
    have "start_server B g1 \<lparr>server_port = RPC_PORT g, server_list = l,
        rpclib_server = None, engine_init_str = None\<rparr> = Inr Q"
      using n that(2) F by (auto simp: RPC_new_def L Let_def bind_result_Inr_iff)
    from start_server_rpclib [OF this assms(4)] show ?thesis
      using F that(3) by simp
  qed
  moreover have "IS_SERVER cfg1" "RPC_IMPLEMENTATION cfg1 = RPCLIB" "RPC_PORT cfg1 = RPC_PORT cfg"
    "MY_SERVER cfg1 = MY_SERVER cfg"
    using LoadServers_Inr [OF RPC_new_Inr(4) [OF c(1)]] assms(3,5) c(2) by auto
  ultimately show ?thesis
    using port [OF c(1)] assms(3,5) by auto
qed

lemma clock_and_container_share_port_witness:
  "\<exists>P cfg1 r P' cfg2 s port.
     GetRPC rpclib_only two_hosts 65535 (server_cfg, Map.empty) = Inr (P, cfg1, r) \<and>
     singleton_rpc rpclib_only two_hosts (cfg1, None) = Inr (P', cfg2, s) \<and>
     rpclib_server P = Some port \<and> rpclib_server P' = Some port"
proof -
  have p: "RPC_PORT server_cfg = 65535" by (simp add: server_cfg_def)
  obtain P cfg1 r P' cfg2 s where 1:
    "GetRPC rpclib_only two_hosts 65535 (server_cfg, Map.empty) = Inr (P, cfg1, r)"
    "singleton_rpc rpclib_only two_hosts (cfg1, None) = Inr (P', cfg2, s)"
    by (simp add: GetRPC_def singleton_rpc_def RPC_new_def LoadServers_two_hosts server_cfg_def
        start_server_def compiled_in_def rpclib_only_def Let_def)
  have "\<exists>port. rpclib_server P = Some port \<and> rpclib_server P' = Some port"
    by (rule clock_and_container_share_port [OF 1(1) [folded p] 1(2)])
      (simp_all add: server_cfg_def rpclib_only_def)
  then show ?thesis using 1 by blast
qed

end
