(* ===== verification/Container_Names.thy ===== *)
theory Container_Names
  imports Container_Object Char_Struct
begin

section \<open>The names of a container, in their buffers\<close>

text \<open>
  \<open>Container_Object\<close> keeps names, paths and function names as strings. The classes compute
  them in \<open>CharStruct\<close>s (\<open>set\<close> and \<open>unordered_map\<close> all of them, the others the path and the
  function names). This theory models that computation and shows that it agrees with the
  strings as long as they fit, and what happens when they do not. Each temporary object of an
  expression has memory of its own, \<open>junk 0\<close>, \<open>junk 1\<close>, ...
\<close>

definition path_separator_cs :: "char list \<Rightarrow> CharStruct result" where
  "path_separator_cs junk = CharStruct_cstr junk [CHR ''/'', NUL]"

text \<open>\<open>lhs + "literal"\<close> and \<open>lhs + std::to_string(i)\<close>: the operand is converted first.\<close>

definition cs_plus_text :: "char list \<Rightarrow> char list \<Rightarrow> CharStruct \<Rightarrow> string \<Rightarrow> CharStruct result" where
  "cs_plus_text junk junk' lhs str = bind_result (CharStruct_string junk str) (cs_plus junk' lhs)"

definition backed_file_cs ::
  "(nat \<Rightarrow> char list) \<Rightarrow> CharStruct \<Rightarrow> CharStruct \<Rightarrow> CharStruct \<Rightarrow> u16 \<Rightarrow> CharStruct result" where
  "backed_file_cs junk dir separator nam my_server =
     bind_result (cs_plus (junk 0) dir separator) (\<lambda>path.
     bind_result (cs_plus (junk 1) path nam) (\<lambda>path.
     bind_result (cs_plus_text (junk 2) (junk 3) path ''_'') (\<lambda>path.
     bind_result (cs_plus_text (junk 4) (junk 5) path (to_string (uint my_server))) (\<lambda>path.
     CharStruct_copy (junk 6) path))))"

text \<open>The member \<open>name\<close>: copied from the argument, then extended and assigned.\<close>

definition name_cs :: "(nat \<Rightarrow> char list) \<Rightarrow> CharStruct \<Rightarrow> u16 \<Rightarrow> CharStruct result" where
  "name_cs junk nam my_server =
     bind_result (CharStruct_copy (junk 0) nam) (\<lambda>copied.
     bind_result (cs_plus_text (junk 1) (junk 2) copied ''_'') (\<lambda>sum.
     bind_result (cs_plus_text (junk 3) (junk 4) sum (to_string (uint my_server))) (\<lambda>sum.
     cs_assign copied sum)))"

text \<open>\<open>func_prefix + std::string(funcname)\<close>, passed to \<open>bind\<close> and \<open>call\<close>.\<close>

definition func_name_cs :: "(nat \<Rightarrow> char list) \<Rightarrow> CharStruct \<Rightarrow> string \<Rightarrow> CharStruct result" where
  "func_name_cs junk func_prefix funcname =
     cs_plus_text (junk 0) (junk 1) func_prefix funcname"

subsection \<open>What the expressions hold\<close>

text \<open>
  A chain of concatenations: where an intermediate text overflows, so would the final one.
\<close>

lemma yields_bind:
  assumes "yields r s" "\<And>c. cs_wf c \<Longrightarrow> cs_text c = s \<Longrightarrow> yields (f c) u" "length s \<le> length u"
  shows "yields (bind_result r f) u"
  using assms by (cases "length s < 256") (auto simp: yields_def)

lemma yields_plus_text:
  assumes "length junk = 256" "length junk' = 256" "cs_wf lhs" "NUL \<notin> set str"
  shows "yields (cs_plus_text junk junk' lhs str) (cs_text lhs @ str)"
  unfolding cs_plus_text_def
  using yields_string [OF assms(1), of str] yields_plus [OF assms(2,3)] assms(4)
  by (auto intro!: yields_bind [where s = str])

lemma NUL_to_string [simp]: "NUL \<notin> set (to_string i)"
proof -
  have "\<not> is_digit NUL" by (simp add: is_digit_def)
  then show ?thesis
    using nat_digits_are_digits by (auto simp: to_string_def)
qed

lemma yields_path_separator: "length junk = 256 \<Longrightarrow> yields (path_separator_cs junk) path_separator"
  unfolding path_separator_cs_def path_separator_def by (rule yields_cstr) simp_all

lemma yields_backed_file:
  assumes "\<And>i. length (junk i) = 256" "cs_wf dir" "cs_wf separator" "cs_wf nam"
  shows "yields (backed_file_cs junk dir separator nam my_server)
           (cs_text dir @ cs_text separator @ cs_text nam @ ''_'' @ to_string (uint my_server))"
  unfolding backed_file_cs_def
proof (rule yields_bind [OF yields_plus [OF assms(1-3)]], goal_cases)
  case (1 a)
  show ?case
  proof (rule yields_bind [OF yields_plus [OF assms(1) 1(1) assms(4)]], goal_cases)
    case (1 b)
    show ?case
    proof (rule yields_bind [OF yields_plus_text [OF assms(1,1) 1(1)]], goal_cases)
      case (2 c)
      show ?case
      proof (rule yields_bind [OF yields_plus_text [OF assms(1,1) 2(1) NUL_to_string]], goal_cases)
        case (1 d)
        then show ?case
          using yields_copy [OF assms(1) 1(1)] 2 \<open>cs_text b = _\<close> \<open>cs_text a = _\<close> by simp
      qed (use 2 \<open>cs_text b = _\<close> \<open>cs_text a = _\<close> in simp)
    qed (use 1 \<open>cs_text a = _\<close> in simp_all)
  qed (use 1 in simp)
qed simp

lemma yields_name:
  assumes "\<And>i. length (junk i) = 256" "cs_wf nam"
  shows "yields (name_cs junk nam my_server) (cs_text nam @ ''_'' @ to_string (uint my_server))"
  unfolding name_cs_def
proof (rule yields_bind [OF yields_copy [OF assms]], goal_cases)
  case (1 a)
  show ?case
  proof (rule yields_bind [OF yields_plus_text [OF assms(1,1) 1(1)]], goal_cases)
    case (2 b)
    show ?case
    proof (rule yields_bind [OF yields_plus_text [OF assms(1,1) 2(1) NUL_to_string]], goal_cases)
      case (1 c)
      then show ?case
        using yields_assign [OF \<open>cs_wf a\<close> 1(1)] 2 \<open>cs_text a = _\<close> by simp
    qed (use 2 \<open>cs_text a = _\<close> in simp)
  qed (use 1 in simp_all)
qed simp

subsection \<open>Properties\<close>

text \<open>
  C23: a container's name, its path and the names of its remote functions, computed in
  \<open>CharStruct\<close>s as the classes compute them, are those of the object's string attributes if
  they have fewer than 256 bytes. A longer one overflows its buffer during construction.
\<close>
theorem container_names_in_buffers:
  assumes "new_container B files mpi (cs_text nam) (cfg, rpcs) = Inr (obj, cfg', rpcs')"
    and "\<And>i. length (junk i) = 256" "cs_wf nam" "cs_wf dir" "cs_text dir = BACKED_FILE_DIR cfg"
    and "path_separator_cs (junk 7) = Inr separator" "NUL \<notin> set funcname"
  shows "yields (name_cs junk nam (obj_my_server obj)) (obj_name obj) \<and>
         yields (backed_file_cs junk dir separator nam (obj_my_server obj)) (obj_backed_file obj) \<and>
         yields (func_name_cs junk nam funcname) (obj_func_prefix obj @ funcname)"
proof -
  have sep: "cs_wf separator" "cs_text separator = path_separator"
    using yields_path_separator [OF assms(2) [of 7]] assms(6)
    by (auto simp: yields_def path_separator_def)
  show ?thesis
    using yields_name [of junk nam "obj_my_server obj"] assms(2-5,7)
      yields_backed_file [of junk dir separator nam "obj_my_server obj"] sep
      yields_plus_text [of "junk 0" "junk 1" nam funcname]
    by (simp add: new_container_Inr [OF assms(1)] func_name_cs_def)
qed

lemma container_names_in_buffers_witness:
  "\<exists>obj cfg' rpcs' separator path. new_container rpclib_only two_hosts (8, 7) ''m''
       (sample_conf True, Map.empty) = Inr (obj, cfg', rpcs') \<and>
     path_separator_cs sample_junk = Inr separator \<and>
     backed_file_cs (\<lambda>_. sample_junk) (sample_cs ''/dev/shm'') separator (sample_cs ''m'')
       (obj_my_server obj) = Inr path \<and> cs_text path = ''/dev/shm/m_1''"
proof -
  obtain obj cfg' rpcs' where n: "new_container rpclib_only two_hosts (8, 7) ''m''
      (sample_conf True, Map.empty) = Inr (obj, cfg', rpcs')"
    using sample_new_container by blast
  obtain separator where s: "path_separator_cs sample_junk = Inr separator"
    using yields_path_separator [OF length_sample_junk] by (auto simp: yields_def path_separator_def)
  have "yields (backed_file_cs (\<lambda>_. sample_junk) (sample_cs ''/dev/shm'') separator (sample_cs ''m'')
      (obj_my_server obj)) (obj_backed_file obj)"
    using container_names_in_buffers [of rpclib_only two_hosts "(8, 7)" "sample_cs ''m''"
        "sample_conf True" Map.empty obj cfg' rpcs' "\<lambda>_. sample_junk" "sample_cs ''/dev/shm''"
        separator "[]"] n s by simp
  moreover have "obj_backed_file obj = ''/dev/shm/m_1''"
    using new_container_Inr(7) [OF n] char_of_eq_iff [of "49 :: nat" "CHR ''1''"] by (simp add: path_separator_def to_string_def nat_digits.simps)
  ultimately show ?thesis
    using n s by (auto simp: yields_def)
qed

end
