(* ===== verification/Hash_Callbacks.thy ===== *)
theory Hash_Callbacks
  imports Unordered_Map
begin

section \<open>The callbacks of the hashed map\<close>

text \<open>
  \<open>Bind\<close>, \<open>Call\<close> and the \<open>...WithCallback\<close> operations of \<open>unordered_map\<close>
  (\<open>unordered_map.cpp\<close>, \<open>unordered_map.h\<close>), for callbacks that return a value: those of return
  type \<open>void\<close> assign a \<open>void\<close> value (\<open>auto ret_2 = Call<void>(...)\<close>) and do not compile. A callback
  is an effect on the program's own state; its arguments are values on the wire.
\<close>

subsection \<open>Binding and calling\<close>

type_synonym ('k, 'v, 's) callback = "('k, 'v) wire list \<Rightarrow> 's \<Rightarrow> 's"

text \<open>
  \<open>binding_map\<close> maps a name to a pointer. What \<open>Bind\<close> stores is the address of its own
  parameter \<open>callback_func\<close>, passed by value. \<open>live_params\<close> holds the parameter objects that
  are alive, by address.
\<close>

record ('k, 'v, 's) callbacks =
  binding_map :: "string \<Rightarrow> nat option"
  live_params :: "nat \<Rightarrow> ('k, 'v, 's) callback option"
  next_address :: nat

definition no_callbacks :: "('k, 'v, 's) callbacks" where
  "no_callbacks = \<lparr>binding_map = Map.empty, live_params = Map.empty, next_address = 0\<rparr>"

definition enter_param :: "('k, 'v, 's) callback \<Rightarrow> ('k, 'v, 's) callbacks \<Rightarrow> ('k, 'v, 's) callbacks" where
  "enter_param f S =
     S\<lparr>live_params := (live_params S)(next_address S \<mapsto> f), next_address := next_address S + 1\<rparr>"

definition leave_param :: "nat \<Rightarrow> ('k, 'v, 's) callbacks \<Rightarrow> ('k, 'v, 's) callbacks" where
  "leave_param a S = S\<lparr>live_params := (live_params S)(a := None)\<rparr>"

definition umap_Bind ::
  "build \<Rightarrow> RPCImplementation \<Rightarrow> string \<Rightarrow> ('k, 'v, 's) callback \<Rightarrow> string \<Rightarrow> ('k, 'v, 'c) handler \<Rightarrow>
     ('k, 'v, 's) callbacks \<times> ('k, 'v, 'c) registry \<Rightarrow>
     ('k, 'v, 's) callbacks \<times> ('k, 'v, 'c) registry" where
  "umap_Bind B impl callback_name callback_func caller_func_name caller_func st =
     (case st of (S, reg) \<Rightarrow>
        let a = next_address S;
            entered = enter_param callback_func S;
            stored = entered\<lparr>binding_map := (binding_map entered)(callback_name \<mapsto> a)\<rparr>
        in (leave_param a stored, RPC_bind B impl caller_func_name caller_func reg))"

text \<open>\<open>Call\<close> has no \<open>return\<close>, on either path.\<close>

definition umap_Call ::
  "('k, 'v, 's) callbacks \<Rightarrow> string \<Rightarrow> ('k, 'v) wire list \<Rightarrow> 's \<Rightarrow> 'r result \<times> 's" where
  "umap_Call S cb_name cb_args s =
     (case binding_map S cb_name of
        Some a \<Rightarrow>
          (case live_params S a of
             Some cb_func \<Rightarrow> (Inl NoReturnValue, cb_func cb_args s)
           | None \<Rightarrow> (Inl DanglingPointer, s))
      | None \<Rightarrow> (Inl NoReturnValue, s))"

subsection \<open>Operations on the local structure\<close>

text \<open>The plain operation first, then the callback; the pair of both values.\<close>

definition then_call ::
  "('c \<Rightarrow> 'a \<times> 'c) \<Rightarrow> ('k, 'v, 's) callbacks \<Rightarrow> string \<Rightarrow> ('k, 'v) wire list \<Rightarrow> 'c \<times> 's \<Rightarrow>
     ('a \<times> 'r) result \<times> 'c \<times> 's" where
  "then_call f S cb_name cb_args cs =
     (case f (fst cs) of (ret_1, c') \<Rightarrow>
        (case umap_Call S cb_name cb_args (snd cs) of
           (Inl e, s') \<Rightarrow> (Inl e, c', s')
         | (Inr ret_2, s') \<Rightarrow> (Inr (ret_1, ret_2), c', s')))"

definition umap_LocalPutWithCallback ::
  "('k, 'v, 'c) hash_lib \<Rightarrow> ('k, 'v, 's) callbacks \<Rightarrow> 'k \<Rightarrow> 'v \<Rightarrow> string \<Rightarrow> ('k, 'v) wire list \<Rightarrow>
     'c \<times> 's \<Rightarrow> (bool \<times> 'r) result \<times> 'c \<times> 's" where
  "umap_LocalPutWithCallback H S k data = then_call (umap_LocalPut H k data) S"

definition umap_LocalGetWithCallback ::
  "('k, 'v, 'c) hash_lib \<Rightarrow> 'v \<Rightarrow> ('k, 'v, 's) callbacks \<Rightarrow> 'k \<Rightarrow> string \<Rightarrow> ('k, 'v) wire list \<Rightarrow>
     'c \<times> 's \<Rightarrow> ((bool \<times> 'v) \<times> 'r) result \<times> 'c \<times> 's" where
  "umap_LocalGetWithCallback H dflt S k = then_call (umap_LocalGet H dflt k) S"

definition umap_LocalEraseWithCallback ::
  "('k, 'v, 'c) hash_lib \<Rightarrow> 'v \<Rightarrow> ('k, 'v, 's) callbacks \<Rightarrow> 'k \<Rightarrow> string \<Rightarrow> ('k, 'v) wire list \<Rightarrow>
     'c \<times> 's \<Rightarrow> ((bool \<times> 'v) \<times> 'r) result \<times> 'c \<times> 's" where
  "umap_LocalEraseWithCallback H dflt S k = then_call (umap_LocalErase H dflt k) S"

text \<open>
  The result type of \<open>LocalGetAllDataInServerWithCallback\<close> is a vector of pairs of \<open>bool\<close>; it
  compiles for the key type \<open>bool\<close> only.
\<close>

definition umap_LocalGetAllDataInServerWithCallback ::
  "(bool, 'v, 'c) hash_lib \<Rightarrow> (bool, 'v, 's) callbacks \<Rightarrow> string \<Rightarrow> (bool, 'v) wire list \<Rightarrow>
     'c \<times> 's \<Rightarrow> ((bool \<times> 'v) list \<times> 'r) result \<times> 'c \<times> 's" where
  "umap_LocalGetAllDataInServerWithCallback H S = then_call (umap_LocalGetAllDataInServer H) S"

subsection \<open>The distributed operations\<close>

text \<open>
  \<open>RPC_CALL_WRAPPER_CB\<close>: the rpclib case calls the name as it is and appends the callback's
  arguments, the Thallium case calls the prefixed name without them.
\<close>

definition RPC_CALL_WRAPPER_CB ::
  "('k, 'v, 'c) env \<Rightarrow> rpc \<Rightarrow> string \<Rightarrow> string \<Rightarrow> u16 \<Rightarrow> (('k, 'v) wire \<Rightarrow> 'r option) \<Rightarrow>
     ('k, 'v) wire list \<Rightarrow> ('k, 'v) wire list \<Rightarrow> 'c world \<Rightarrow> 'r result \<times> 'c world" where
  "RPC_CALL_WRAPPER_CB E P func_prefix funcname serverVar as_ret args cb_args w =
     (if \<not> compiled_in (env_build E) (RPC_IMPLEMENTATION (env_conf E)) then (Inl NoImplementation, w)
      else case (if RPC_IMPLEMENTATION (env_conf E) = RPCLIB
                 then RPC_call E P serverVar funcname (args @ cb_args) w
                 else RPC_call E P serverVar (func_prefix @ funcname) args w) of
        (Inl e, w') \<Rightarrow> (Inl e, w')
      | (Inr response, w') \<Rightarrow> (of_option BadCast (as_ret response), w'))"

text \<open>The local path on the structure of the client's server, the remote path on the servers.\<close>

definition local_or_remote ::
  "container \<Rightarrow> bool \<Rightarrow> ('c \<times> 's \<Rightarrow> 'r result \<times> 'c \<times> 's) \<Rightarrow> ('c world \<Rightarrow> 'r result \<times> 'c world) \<Rightarrow>
     'c world \<times> 's \<Rightarrow> 'r result \<times> 'c world \<times> 's" where
  "local_or_remote obj here local_op remote_op ws =
     (if here
      then (case local_op (fst ws (obj_my_server obj), snd ws) of
              (r, c, s) \<Rightarrow> (r, (fst ws)(obj_my_server obj := c), s))
      else (case remote_op (fst ws) of (r, w') \<Rightarrow> (r, w', snd ws)))"

definition with_route_cb ::
  "'k key_ops \<Rightarrow> container \<Rightarrow> 'k \<Rightarrow> (u16 \<Rightarrow> 'w \<Rightarrow> 'r result \<times> 'w) \<Rightarrow> 'w \<Rightarrow> 'r result \<times> 'w" where
  "with_route_cb K obj k f ws =
     (case route_u16 (keyHash K k) (obj_num_servers obj) of
        Inl e \<Rightarrow> (Inl e, ws) | Inr key_int \<Rightarrow> f key_int ws)"

definition umap_PutWithCallback ::
  "('k, 'v, 'c) env \<Rightarrow> 'k key_ops \<Rightarrow> ('k, 'v, 'c) hash_lib \<Rightarrow> ('k, 'v, 's) callbacks \<Rightarrow> container \<Rightarrow>
     (('k, 'v) wire \<Rightarrow> (bool \<times> 'r) option) \<Rightarrow> 'k \<Rightarrow> 'v \<Rightarrow> string \<Rightarrow> string \<Rightarrow> ('k, 'v) wire list \<Rightarrow>
     'c world \<times> 's \<Rightarrow> (bool \<times> 'r) result \<times> 'c world \<times> 's" where
  "umap_PutWithCallback E K H S obj as_ret k data c_name cb_name cb_args =
     with_route_cb K obj k (\<lambda>key_int.
       local_or_remote obj (is_local obj key_int)
         (umap_LocalPutWithCallback H S k data cb_name cb_args)
         (RPC_CALL_WRAPPER_CB E (obj_rpc obj) (obj_func_prefix obj) c_name key_int as_ret
            [WKey k, WVal data, WText cb_name] cb_args))"

definition umap_GetWithCallback ::
  "('k, 'v, 'c) env \<Rightarrow> 'k key_ops \<Rightarrow> ('k, 'v, 'c) hash_lib \<Rightarrow> 'v \<Rightarrow> ('k, 'v, 's) callbacks \<Rightarrow> container \<Rightarrow>
     (('k, 'v) wire \<Rightarrow> ((bool \<times> 'v) \<times> 'r) option) \<Rightarrow> 'k \<Rightarrow> string \<Rightarrow> string \<Rightarrow> ('k, 'v) wire list \<Rightarrow>
     'c world \<times> 's \<Rightarrow> ((bool \<times> 'v) \<times> 'r) result \<times> 'c world \<times> 's" where
  "umap_GetWithCallback E K H dflt S obj as_ret k c_name cb_name cb_args =
     with_route_cb K obj k (\<lambda>key_int.
       local_or_remote obj (is_local obj key_int)
         (umap_LocalGetWithCallback H dflt S k cb_name cb_args)
         (RPC_CALL_WRAPPER_CB E (obj_rpc obj) (obj_func_prefix obj) c_name key_int as_ret
            [WKey k, WText cb_name] cb_args))"

definition umap_EraseWithCallback ::
  "('k, 'v, 'c) env \<Rightarrow> 'k key_ops \<Rightarrow> ('k, 'v, 'c) hash_lib \<Rightarrow> 'v \<Rightarrow> ('k, 'v, 's) callbacks \<Rightarrow> container \<Rightarrow>
     (('k, 'v) wire \<Rightarrow> ((bool \<times> 'v) \<times> 'r) option) \<Rightarrow> 'k \<Rightarrow> string \<Rightarrow> string \<Rightarrow> ('k, 'v) wire list \<Rightarrow>
     'c world \<times> 's \<Rightarrow> ((bool \<times> 'v) \<times> 'r) result \<times> 'c world \<times> 's" where
  "umap_EraseWithCallback E K H dflt S obj as_ret k c_name cb_name cb_args =
     with_route_cb K obj k (\<lambda>key_int.
       local_or_remote obj (is_local obj key_int)
         (umap_LocalEraseWithCallback H dflt S k cb_name cb_args)
         (RPC_CALL_WRAPPER_CB E (obj_rpc obj) (obj_func_prefix obj) c_name key_int as_ret
            [WKey k, WText cb_name] cb_args))"

definition umap_GetAllDataInServerWithCallback ::
  "(bool, 'v, 'c) env \<Rightarrow> (bool, 'v, 'c) hash_lib \<Rightarrow> (bool, 'v, 's) callbacks \<Rightarrow> container \<Rightarrow>
     ((bool, 'v) wire \<Rightarrow> ((bool \<times> 'v) list \<times> 'r) option) \<Rightarrow> string \<Rightarrow> string \<Rightarrow> (bool, 'v) wire list \<Rightarrow>
     'c world \<times> 's \<Rightarrow> ((bool \<times> 'v) list \<times> 'r) result \<times> 'c world \<times> 's" where
  "umap_GetAllDataInServerWithCallback E H S obj as_ret c_name cb_name cb_args =
     local_or_remote obj (obj_server_on_node obj)
       (umap_LocalGetAllDataInServerWithCallback H S cb_name cb_args)
       (RPC_CALL_WRAPPER_CB E (obj_rpc obj) (obj_func_prefix obj) c_name (obj_my_server obj) as_ret
          [WText cb_name] cb_args)"

subsection \<open>Properties\<close>

definition umap_Binds ::
  "build \<Rightarrow> RPCImplementation \<Rightarrow> (string \<times> ('k, 'v, 's) callback \<times> string \<times> ('k, 'v, 'c) handler) list \<Rightarrow>
     ('k, 'v, 's) callbacks \<times> ('k, 'v, 'c) registry \<Rightarrow>
     ('k, 'v, 's) callbacks \<times> ('k, 'v, 'c) registry" where
  "umap_Binds B impl = fold (\<lambda>(cb_name, f, c_name, h). umap_Bind B impl cb_name f c_name h)"

text \<open>Between calls no parameter of \<open>Bind\<close> is alive.\<close>

lemma umap_Bind_state:
  assumes "live_params S = Map.empty"
  shows "live_params (fst (umap_Bind B impl cb_name f c_name h (S, reg))) = Map.empty"
    and "dom (binding_map (fst (umap_Bind B impl cb_name f c_name h (S, reg))))
           = insert cb_name (dom (binding_map S))"
  using assms by (simp_all add: umap_Bind_def enter_param_def leave_param_def Let_def fun_eq_iff)

lemma umap_Binds_state:
  assumes "live_params (fst st) = Map.empty"
  shows "live_params (fst (umap_Binds B impl binds st)) = Map.empty \<and>
         dom (binding_map (fst (umap_Binds B impl binds st)))
           = fst ` set binds \<union> dom (binding_map (fst st))"
  using assms
proof (induction binds arbitrary: st)
  case Nil
  then show ?case by (simp add: umap_Binds_def)
next
  case (Cons b binds)
  obtain cb_name f c_name h S reg where b: "b = (cb_name, f, c_name, h)" "st = (S, reg)"
    by (metis prod.exhaust)
  then show ?case
    using Cons umap_Bind_state [of S B impl cb_name f c_name h reg] by (simp add: umap_Binds_def)
qed

lemma umap_Call_bound:
  assumes "S = fst (umap_Binds B impl binds (no_callbacks, reg))"
  shows "umap_Call S cb_name args s
           = (Inl (if cb_name \<in> fst ` set binds then DanglingPointer else NoReturnValue), s)"
proof -
  have "live_params S = Map.empty" "dom (binding_map S) = fst ` set binds"
    using umap_Binds_state [of "(no_callbacks, reg)" B impl binds] assms
    by (simp_all add: no_callbacks_def)
  then show ?thesis
    by (auto simp: umap_Call_def split: option.splits)
qed

text \<open>
  C24: after any sequence of Bind calls, an operation with a callback on the local structure
  changes the structure as the plain operation does, runs no callback and ends in undefined
  behaviour: a name that was bound leads to a parameter object whose life time is over, and
  for any other name \<open>Call\<close> ends without returning a value.
\<close>
theorem umap_callbacks_undefined:
  "let S = fst (umap_Binds B impl binds (no_callbacks, reg));
       e = (if cb_name \<in> fst ` set binds then DanglingPointer else NoReturnValue)
   in umap_LocalPutWithCallback H S k v cb_name args (c, s) = (Inl e, snd (umap_LocalPut H k v c), s) \<and>
      umap_LocalGetWithCallback H dflt S k cb_name args (c, s)
        = (Inl e, snd (umap_LocalGet H dflt k c), s) \<and>
      umap_LocalEraseWithCallback H dflt S k cb_name args (c, s)
        = (Inl e, snd (umap_LocalErase H dflt k c), s)"
  unfolding Let_def umap_LocalPutWithCallback_def umap_LocalGetWithCallback_def
    umap_LocalEraseWithCallback_def then_call_def umap_Call_bound [OF refl]
  by (simp add: split_beta)

text \<open>The caller's function \<open>h\<close>, run by server \<open>i\<close>, and its converted answer.\<close>

definition served_cb ::
  "('k, 'v, 'c) handler \<Rightarrow> (('k, 'v) wire \<Rightarrow> 'r option) \<Rightarrow> ('k, 'v) wire list \<Rightarrow> u16 \<Rightarrow>
     'c world \<times> 's \<Rightarrow> 'r result \<times> 'c world \<times> 's" where
  "served_cb h as_ret args i ws =
     (case h args (fst ws i) of
        (r, c) \<Rightarrow> (bind_result r (\<lambda>x. of_option BadCast (as_ret x)), (fst ws)(i := c), snd ws))"

lemma remote_cb_rpclib:
  assumes "joined n p reg (E, obj)" "RPC_IMPLEMENTATION (env_conf E) = RPCLIB"
    and "unat i < n" "reg c_name = Some h"
  shows "local_or_remote obj False local_op
           (RPC_CALL_WRAPPER_CB E (obj_rpc obj) prefix c_name i as_ret args cb_args) ws
           = served_cb h as_ret (args @ cb_args) i ws"
proof -
  note S = servers_run_served [OF joinedD(2) [OF assms(1)]]
  have "unat i < length (server_list (obj_rpc obj))"
    using assms(3) joinedD(3) [OF assms(1)] by (simp add: n_servers_def)
  with served_calls.has_case [OF S] served_calls.reaches [OF S this] assms(2,4) show ?thesis
    by (auto simp: local_or_remote_def served_cb_def RPC_CALL_WRAPPER_CB_def serve_def
        split: prod.splits sum.splits)
qed

lemma remote_cb_unbound:
  assumes "joined n p reg (E, obj)" "RPC_IMPLEMENTATION (env_conf E) \<noteq> RPCLIB"
    and "unat i < n" "reg (prefix @ c_name) = None"
  shows "local_or_remote obj False local_op
           (RPC_CALL_WRAPPER_CB E (obj_rpc obj) prefix c_name i as_ret args cb_args) ws
           = (Inl (UnboundFunction (prefix @ c_name)), ws)"
proof -
  note S = servers_run_served [OF joinedD(2) [OF assms(1)]]
  have "unat i < length (server_list (obj_rpc obj))"
    using assms(3) joinedD(3) [OF assms(1)] by (simp add: n_servers_def)
  with served_calls.has_case [OF S] served_calls.reaches [OF S this] assms(2,4) show ?thesis
    by (simp add: local_or_remote_def RPC_CALL_WRAPPER_CB_def serve_def)
qed

lemma joined_put_home:
  assumes "joined n p reg (E, obj)"
  shows "route_u16 h (obj_num_servers obj) = Inr (put_home n h)" and "unat (put_home n h) < n"
proof -
  note J = joinedD [OF assms]
  show "route_u16 h (obj_num_servers obj) = Inr (put_home n h)"
    using J by (simp add: client_ok_def route_u16_home put_home_def)
  show "unat (put_home n h) < n"
    using J(5,6) by (simp add: unat_put_home)
qed

text \<open>
  What \<open>Bind\<close> leaves in the registry: the caller's function bound last under its name, as it is,
  without the prefix of the map.
\<close>

definition caller_names :: "(string \<times> 'f \<times> string \<times> 'h) list \<Rightarrow> string set" where
  "caller_names binds = (\<lambda>(cb_name, f, c_name, h). c_name) ` set binds"

lemma umap_Bind_registry:
  "compiled_in B impl \<Longrightarrow> snd (umap_Bind B impl cb_name f c_name h st) = (snd st)(c_name \<mapsto> h)"
  by (cases st) (simp add: umap_Bind_def Let_def RPC_bind_def)

lemma umap_Binds_other:
  "compiled_in B impl \<Longrightarrow> nam \<notin> caller_names binds \<Longrightarrow> snd (umap_Binds B impl binds st) nam = snd st nam"
  unfolding umap_Binds_def
  by (induction binds arbitrary: st) (auto simp: caller_names_def umap_Bind_registry)

lemma umap_Binds_bound:
  "compiled_in B impl \<Longrightarrow> c_name \<notin> caller_names later \<Longrightarrow>
     snd (umap_Binds B impl (earlier @ (cb_name, f, c_name, h) # later) st) c_name = Some h"
  using umap_Binds_other [of B impl c_name later
      "umap_Bind B impl cb_name f c_name h (umap_Binds B impl earlier st)"]
  by (simp add: umap_Binds_def umap_Bind_registry)

lemma umap_bindings_other:
  "nam \<notin> (@) p ` {''_Put'', ''_Get'', ''_Erase'', ''_GetAllData''} \<Longrightarrow>
     umap_bindings B H dflt impl p Map.empty nam = None"
  by (auto simp: umap_bindings_def RPC_bind_def)


text \<open>
  A caller's function in the manner of the tests: it puts the pair and answers with \<open>true\<close> and
  a number.
\<close>

fun sample_caller_func :: "(nat, nat, (nat \<times> nat) list) handler" where
  "sample_caller_func [WKey k, WVal v, WText cb_name] c =
     (Inr (WFoundVal True (v + 1)), snd (umap_LocalPut list_hash_lib k v c))"
| "sample_caller_func _ c = (Inl BadCast, c)"

definition sample_cb_reg :: "build \<Rightarrow> RPCImplementation \<Rightarrow> (nat, nat, (nat \<times> nat) list) registry" where
  "sample_cb_reg B impl =
     snd (umap_Binds B impl ([] @ (''cb'', \<lambda>_ s. s :: nat, ''PutCb'', sample_caller_func) # [])
       (no_callbacks, umap_bindings B list_hash_lib 0 impl ''h'' Map.empty))"


end
