(* ===== verification/Thallium_Engine.thy ===== *)
theory Thallium_Engine
  imports Basket_RPC
begin

section \<open>The Thallium engine of a process\<close>

text \<open>
  \<open>RPC::RPC\<close>, \<open>RPC::run\<close> and \<open>RPC::~RPC\<close> of \<open>src/basket/communication/rpc_lib.cpp\<close> take their
  engine from \<open>Singleton<tl::engine>\<close>: there is one per process, with the address of the first
  \<open>RPC\<close> object. \<open>engine_address\<close> is the string it was started with, \<open>engine_live\<close> turns false
  when it is finalized.
\<close>

record engine =
  engine_address :: string
  engine_is_server :: bool
  engine_live :: bool

definition engine_new :: "string \<Rightarrow> bool \<Rightarrow> 's \<Rightarrow> (engine \<times> 's) result" where
  "engine_new address server s =
     Inr (\<lparr>engine_address = address, engine_is_server = server, engine_live = True\<rparr>, s)"

text \<open>
  The client branch of the constructor and the server branch of \<open>run\<close>. The first component is
  what the object's \<open>thallium_engine\<close> points to, \<open>None\<close> where it stays null.
\<close>

definition RPC_engine ::
  "build \<Rightarrow> config \<Rightarrow> rpc \<Rightarrow> engine option \<Rightarrow> (engine option \<times> engine option) result" where
  "RPC_engine B cfg P inst =
     (if \<not> compiled_in B (RPC_IMPLEMENTATION cfg) \<or> RPC_IMPLEMENTATION cfg = RPCLIB
      then Inr (None, inst)
      else
        let address =
              (if IS_SERVER cfg then (case engine_init_str P of None \<Rightarrow> [] | Some a \<Rightarrow> a)
               else if RPC_IMPLEMENTATION cfg = THALLIUM_TCP then TCP_CONF cfg
               else VERBS_CONF cfg)
        in bind_result (GetInstance (engine_new address (IS_SERVER cfg)) ((), inst))
             (\<lambda>(eng, _, inst'). Inr (Some eng, inst')))"

definition RPC_construct ::
  "build \<Rightarrow> (string \<Rightarrow> string option) \<Rightarrow> config \<times> engine option \<Rightarrow>
     (rpc \<times> engine option \<times> config \<times> engine option) result" where
  "RPC_construct B files st =
     bind_result (RPC_new B files (fst st)) (\<lambda>(cfg, P).
     bind_result (RPC_engine B cfg P (snd st)) (\<lambda>(eng, inst).
     Inr (P, eng, cfg, inst)))"

text \<open>
  The objects a process makes for some ports, one after the other, as \<open>GetRPC\<close> makes them: with
  the port in \<open>RPC_PORT\<close>.
\<close>

primrec RPC_constructs ::
  "build \<Rightarrow> (string \<Rightarrow> string option) \<Rightarrow> u16 list \<Rightarrow> config \<times> engine option \<Rightarrow>
     ((rpc \<times> engine option) list \<times> config \<times> engine option) result" where
  "RPC_constructs B files [] st = Inr ([], st)"
| "RPC_constructs B files (port # ports) st =
     bind_result (RPC_construct B files ((fst st)\<lparr>RPC_PORT := port\<rparr>, snd st)) (\<lambda>(P, eng, st').
     bind_result (RPC_constructs B files ports st') (\<lambda>(objs, st'').
     Inr ((P, eng) # objs, st'')))"

text \<open>The destructor finalizes the engine, which all \<open>RPC\<close> objects share; a null one crashes.\<close>

definition RPC_destroy :: "build \<Rightarrow> config \<Rightarrow> engine option \<Rightarrow> engine option result" where
  "RPC_destroy B cfg inst =
     (if IS_SERVER cfg \<and> compiled_in B (RPC_IMPLEMENTATION cfg) \<and> RPC_IMPLEMENTATION cfg \<noteq> RPCLIB
      then (case inst of None \<Rightarrow> Inl InvalidRead | Some eng \<Rightarrow> Inr (Some (eng\<lparr>engine_live := False\<rparr>)))
      else Inr inst)"

subsection \<open>One engine per process\<close>

text \<open>A process that uses Thallium, over TCP or RoCE; \<open>protocol\<close> is the string of its transport.\<close>

definition uses_thallium :: "build \<Rightarrow> config \<Rightarrow> bool" where
  "uses_thallium B cfg \<longleftrightarrow> compiled_in B (RPC_IMPLEMENTATION cfg) \<and> RPC_IMPLEMENTATION cfg \<noteq> RPCLIB"

definition protocol :: "config \<Rightarrow> string" where
  "protocol cfg = (if RPC_IMPLEMENTATION cfg = THALLIUM_TCP then TCP_CONF cfg else VERBS_CONF cfg)"

definition process_conf :: "config \<Rightarrow> RPCImplementation \<times> bool \<times> u16 \<times> string \<times> string" where
  "process_conf cfg =
     (RPC_IMPLEMENTATION cfg, IS_SERVER cfg, MY_SERVER cfg, TCP_CONF cfg, VERBS_CONF cfg)"

lemma process_conf_eq:
  assumes "process_conf cfg' = process_conf cfg"
  shows "uses_thallium B cfg' = uses_thallium B cfg" "IS_SERVER cfg' = IS_SERVER cfg"
    "MY_SERVER cfg' = MY_SERVER cfg" "protocol cfg' = protocol cfg"
    "RPC_IMPLEMENTATION cfg' = RPC_IMPLEMENTATION cfg"
  using assms by (simp_all add: process_conf_def uses_thallium_def protocol_def)

lemma process_conf_port [simp]: "process_conf (cfg\<lparr>RPC_PORT := port\<rparr>) = process_conf cfg"
  by (simp add: process_conf_def)

lemma LoadServers_process_conf:
  "LoadServers files cfg = Inr (cfg', servers) \<Longrightarrow> process_conf cfg' = process_conf cfg"
  by (auto simp: LoadServers_def bind_result_Inr_iff process_conf_def split: option.splits)

lemma start_server_address:
  assumes "start_server B cfg P = Inr P'" "uses_thallium B cfg"
  shows "\<exists>conf host. engine_init_str P' = Some (mercury_address conf host
           (uint (server_port P) + uint (MY_SERVER cfg)))"
proof (cases "RPC_IMPLEMENTATION cfg")
  case THALLIUM_ROCE
  then obtain host where "engine_init_str P' = Some (mercury_address (VERBS_CONF cfg)
      (VERBS_DOMAIN cfg @ ''://'' @ host) (uint (server_port P) + uint (MY_SERVER cfg)))"
    using assms by (auto simp: start_server_def uses_thallium_def bind_result_Inr_iff mercury_address_def)
  then show ?thesis by blast
next
  case THALLIUM_TCP
  then obtain host where "engine_init_str P' = Some (mercury_address (TCP_CONF cfg) host
      (uint (server_port P) + uint (MY_SERVER cfg)))"
    using assms by (auto simp: start_server_def uses_thallium_def bind_result_Inr_iff mercury_address_def)
  then show ?thesis by blast
qed (use assms in \<open>simp add: uses_thallium_def\<close>)

lemma RPC_construct_thallium:
  assumes "RPC_construct B files (cfg, inst) = Inr (P, eng, cfg', inst')" "uses_thallium B cfg"
  shows "process_conf cfg' = process_conf cfg" and "server_port P = RPC_PORT cfg"
    and "IS_SERVER cfg \<longrightarrow> (\<exists>conf host. engine_init_str P = Some (mercury_address conf host
           (uint (RPC_PORT cfg) + uint (MY_SERVER cfg))))"
    and "case inst of
           None \<Rightarrow> \<exists>e. eng = Some e \<and> inst' = Some e \<and> engine_live e \<and> engine_is_server e = IS_SERVER cfg \<and>
                     (if IS_SERVER cfg then engine_init_str P = Some (engine_address e)
                      else engine_address e = protocol cfg)
         | Some e \<Rightarrow> eng = Some e \<and> inst' = Some e"
proof -
  obtain l where L: "LoadServers files cfg = Inr (cfg', l)" and new: "RPC_new B files cfg = Inr (cfg', P)"
    and e: "RPC_engine B cfg' P inst = Inr (eng, inst')"
    using assms(1) RPC_new_Inr(4) by (auto simp: RPC_construct_def bind_result_Inr_iff)
  note same = process_conf_eq [OF LoadServers_process_conf [OF L]]
  show "process_conf cfg' = process_conf cfg" "server_port P = RPC_PORT cfg"
    using LoadServers_process_conf [OF L] RPC_new_Inr(1) [OF new] by simp_all
  have init: "\<exists>conf host. engine_init_str P = Some (mercury_address conf host
      (uint (RPC_PORT cfg) + uint (MY_SERVER cfg)))" if "IS_SERVER cfg"
  proof -
    have "start_server B cfg' \<lparr>server_port = RPC_PORT cfg, server_list = l, rpclib_server = None,
          engine_init_str = None\<rparr> = Inr P"
      using new that same(2) by (auto simp: RPC_new_def L Let_def bind_result_Inr_iff)
    from start_server_address [OF this] show ?thesis using assms(2) same by simp
  qed
  then show "IS_SERVER cfg \<longrightarrow> (\<exists>conf host. engine_init_str P = Some (mercury_address conf host
      (uint (RPC_PORT cfg) + uint (MY_SERVER cfg))))" by blast
  show "case inst of
      None \<Rightarrow> \<exists>e. eng = Some e \<and> inst' = Some e \<and> engine_live e \<and> engine_is_server e = IS_SERVER cfg \<and>
                (if IS_SERVER cfg then engine_init_str P = Some (engine_address e)
                 else engine_address e = protocol cfg)
    | Some e \<Rightarrow> eng = Some e \<and> inst' = Some e"
    using e init assms(2) same(1,2) same(4) [unfolded protocol_def]
    by (auto simp: RPC_engine_def uses_thallium_def engine_new_def Let_def protocol_def
        split: option.splits if_splits)
qed

lemma RPC_constructs_thallium:
  assumes "RPC_constructs B files ports (cfg, Some e) = Inr (objs, cfg', inst')" "uses_thallium B cfg"
  shows "process_conf cfg' = process_conf cfg \<and> inst' = Some e \<and>
         map (\<lambda>obj. server_port (fst obj)) objs = ports \<and>
         (\<forall>(P, eng) \<in> set objs. eng = Some e \<and>
            (IS_SERVER cfg \<longrightarrow> (\<exists>conf host. engine_init_str P = Some (mercury_address conf host
              (uint (server_port P) + uint (MY_SERVER cfg))))))"
  using assms
proof (induction ports arbitrary: cfg objs)
  case (Cons port ports)
  obtain P eng cfg1 inst1 objs1 where
    1: "RPC_construct B files (cfg\<lparr>RPC_PORT := port\<rparr>, Some e) = Inr (P, eng, cfg1, inst1)" and
    2: "RPC_constructs B files ports (cfg1, inst1) = Inr (objs1, cfg', inst')" and
    objs: "objs = (P, eng) # objs1"
    using Cons.prems(1) by (auto simp: bind_result_Inr_iff)
  have u: "uses_thallium B (cfg\<lparr>RPC_PORT := port\<rparr>)"
    using Cons.prems(2) by (simp add: uses_thallium_def)
  note one = RPC_construct_thallium [OF 1 u]
  have eng: "eng = Some e" "inst1 = Some e" using one(4) by simp_all
  have conf: "process_conf cfg1 = process_conf cfg" using one(1) by simp
  have "uses_thallium B cfg1" using process_conf_eq(1) [OF conf] Cons.prems(2) by simp
  from Cons.IH [OF 2 [unfolded eng] this] show ?case
    using one(2,3) eng conf process_conf_eq(2,3) [OF conf] by (auto simp: objs)
qed simp

subsection \<open>Properties\<close>

text \<open>
  C35: a Thallium process, server or client, over TCP or RoCE, constructs any number of \<open>RPC\<close>
  objects, for any ports. All get the one engine that the first starts. A server's listens at the
  address of the first object; an object for another port has another address, at which nothing
  listens; and destroying any of the objects finalizes the engine of all. A client's is started
  with the name of the protocol, and no destructor finalizes it.
\<close>
theorem thallium_engine_is_shared:
  assumes "RPC_constructs B files (port # ports) (cfg, None) = Inr ((P, eng) # objs, cfg', inst)"
    and "uses_thallium B cfg"
  shows "\<exists>e. inst = Some e \<and> eng = Some e \<and> (\<forall>(P', eng') \<in> set objs. eng' = Some e) \<and>
           server_port P = port \<and> map (\<lambda>obj. server_port (fst obj)) objs = ports \<and>
           engine_live e \<and> engine_is_server e = IS_SERVER cfg \<and>
           (if IS_SERVER cfg
            then engine_init_str P = Some (engine_address e) \<and>
                 (\<forall>(P', eng') \<in> set objs.
                    server_port P' \<noteq> port \<longrightarrow> engine_init_str P' \<noteq> Some (engine_address e)) \<and>
                 RPC_destroy B cfg' inst = Inr (Some (e\<lparr>engine_live := False\<rparr>))
            else engine_address e = protocol cfg \<and> RPC_destroy B cfg' inst = Inr inst)"
proof -
  obtain cfg1 inst1 where
    1: "RPC_construct B files (cfg\<lparr>RPC_PORT := port\<rparr>, None) = Inr (P, eng, cfg1, inst1)" and
    2: "RPC_constructs B files ports (cfg1, inst1) = Inr (objs, cfg', inst)"
    using assms(1) by (auto simp: bind_result_Inr_iff)
  have u: "uses_thallium B (cfg\<lparr>RPC_PORT := port\<rparr>)"
    using assms(2) by (simp add: uses_thallium_def)
  note one = RPC_construct_thallium [OF 1 u]
  obtain e where e: "eng = Some e" "inst1 = Some e" "engine_live e" "engine_is_server e = IS_SERVER cfg"
    "if IS_SERVER cfg then engine_init_str P = Some (engine_address e) else engine_address e = protocol cfg"
    using one(4) by (auto simp: protocol_def)
  have conf: "process_conf cfg1 = process_conf cfg" using one(1) by simp
  have "uses_thallium B cfg1" using process_conf_eq(1) [OF conf] assms(2) by simp
  note rest = RPC_constructs_thallium [OF 2 [unfolded e(2)] this]
  have apart: "engine_init_str P' \<noteq> Some (engine_address e)"
    if obj: "(P', eng') \<in> set objs" "server_port P' \<noteq> port" "IS_SERVER cfg" for P' eng'
  proof
    assume same: "engine_init_str P' = Some (engine_address e)"
    obtain conf' host' where "engine_init_str P' = Some (mercury_address conf' host'
        (uint (server_port P') + uint (MY_SERVER cfg)))"
      using rest obj(1,3) process_conf_eq(2,3) [OF conf] by fastforce
    moreover obtain conf0 host0 where "engine_init_str P = Some (mercury_address conf0 host0
        (uint port + uint (MY_SERVER cfg)))"
      using one(3) obj(3) by auto
    ultimately have "mercury_address conf' host' (uint (server_port P') + uint (MY_SERVER cfg))
        = mercury_address conf0 host0 (uint port + uint (MY_SERVER cfg))"
      using same e(5) obj(3) by simp
    then have "uint (server_port P') + uint (MY_SERVER cfg) = uint port + uint (MY_SERVER cfg)"
      by (rule mercury_address_port)
    then show False using obj(2) by (simp add: word_uint_eq_iff)
  qed
  have "process_conf cfg' = process_conf cfg" using rest conf by simp
  note final = process_conf_eq [OF this]
  have "RPC_destroy B cfg' inst = (if IS_SERVER cfg then Inr (Some (e\<lparr>engine_live := False\<rparr>)) else Inr inst)"
    using rest final assms(2) by (simp add: RPC_destroy_def uses_thallium_def)
  then show ?thesis
    using e rest one(2) apart by (intro exI [of _ e]) auto
qed

definition tcp_cfg :: "bool \<Rightarrow> config" where
  "tcp_cfg server = (ConfigurationManager tcp_only THALLIUM_TCP 0 1)
     \<lparr>SERVER_LIST_PATH := ''list'', IS_SERVER := server, MY_SERVER := 0\<rparr>"

lemma thallium_engine_is_shared_witness:
  "\<exists>P1 P2 P3 cfg e. RPC_constructs tcp_only two_hosts [8080, 9000, 9001] (tcp_cfg True, None)
       = Inr ([(P1, Some e), (P2, Some e), (P3, Some e)], cfg, Some e) \<and>
     engine_init_str P1 = Some (engine_address e) \<and> engine_init_str P3 \<noteq> Some (engine_address e) \<and>
     RPC_destroy tcp_only cfg (Some e) = Inr (Some (e\<lparr>engine_live := False\<rparr>)) \<and>
     (\<exists>P1 P2 cfg e. RPC_constructs tcp_only two_hosts [8080, 9000] (tcp_cfg False, None)
       = Inr ([(P1, Some e), (P2, Some e)], cfg, Some e) \<and> engine_address e = ''ofi+tcp'')"
proof -
  have u: "uses_thallium tcp_only (tcp_cfg server)" for server
    by (simp add: uses_thallium_def tcp_cfg_def ConfigurationManager_def tcp_only_def compiled_in_def)
  have conf: "IS_SERVER (tcp_cfg server) = server" "protocol (tcp_cfg server) = ''ofi+tcp''" for server
    by (simp_all add: tcp_cfg_def ConfigurationManager_def tcp_only_def protocol_def)
  note defs = RPC_construct_def RPC_engine_def RPC_new_def LoadServers_two_hosts tcp_cfg_def
    start_server_def compiled_in_def tcp_only_def server_at_rank_def engine_new_def
    ConfigurationManager_def Let_def in_buffer_def
  have ports: "length (to_string 8080) = 4" "length (to_string 9000) = 4" "length (to_string 9001) = 4"
    by (simp_all add: to_string_def nat_digits.simps)
  obtain P1 e1 P2 e2 P3 e3 cfg inst where
    s: "RPC_constructs tcp_only two_hosts [8080, 9000, 9001] (tcp_cfg True, None)
      = Inr ([(P1, e1), (P2, e2), (P3, e3)], cfg, inst)"
    by (simp add: defs ports)
  obtain Q1 d1 Q2 d2 cfg' inst' where
    c: "RPC_constructs tcp_only two_hosts [8080, 9000] (tcp_cfg False, None)
      = Inr ([(Q1, d1), (Q2, d2)], cfg', inst')"
    by (simp add: defs ports)
  show ?thesis
    using thallium_engine_is_shared [OF s u] thallium_engine_is_shared [OF c u] s c
    by (auto simp: conf simp del: RPC_constructs.simps)
qed

end
