(* ===== verification/Thallium_Handlers.thy ===== *)
theory Thallium_Handlers
  imports Ordered_Map Unordered_Map Ordered_Set Multi_Map Fifo_Queue Prio_Queue Sequencer Global_Clock
begin

section \<open>The methods a Thallium server binds\<close>

text \<open>
  Built for Thallium, the classes bind methods \<open>ThalliumLocalPut\<close> and so on in place of the local
  operations. The macros \<open>THALLIUM_DEFINE\<close> and \<open>THALLIUM_DEFINE1\<close> of \<open>common/macros.h\<close> define them
  in the headers: a method runs the local operation and responds to the request it is given.
  The theories of the classes bind the same handlers for every transport; here the methods of
  the Thallium case are written out and shown to respond as those handlers answer.
\<close>

subsection \<open>The macros\<close>

text \<open>A request, as the responses that have been sent to it.\<close>

type_synonym ('k, 'v) tl_request = "('k, 'v) wire list"

definition respond :: "('k, 'v) tl_request \<Rightarrow> ('k, 'v) wire \<Rightarrow> ('k, 'v) tl_request" where
  "respond thallium_req x = thallium_req @ [x]"

definition THALLIUM_DEFINE ::
  "('r \<Rightarrow> ('k, 'v) wire) \<Rightarrow> ('a \<Rightarrow> 'c \<Rightarrow> 'r \<times> 'c) \<Rightarrow> ('k, 'v) tl_request \<Rightarrow> 'a \<Rightarrow> 'c \<Rightarrow>
     ('k, 'v) tl_request \<times> 'c" where
  "THALLIUM_DEFINE enc name thallium_req args c =
     (case name args c of (r, c') \<Rightarrow> (respond thallium_req (enc r), c'))"

definition THALLIUM_DEFINE1 ::
  "('r \<Rightarrow> ('k, 'v) wire) \<Rightarrow> ('c \<Rightarrow> 'r \<times> 'c) \<Rightarrow> ('k, 'v) tl_request \<Rightarrow> 'c \<Rightarrow>
     ('k, 'v) tl_request \<times> 'c" where
  "THALLIUM_DEFINE1 enc name thallium_req c =
     (case name c of (r, c') \<Rightarrow> (respond thallium_req (enc r), c'))"

text \<open>
  A bound function is given the arguments of the call. Where they do not convert to the types
  of the method's parameters it does not run.
\<close>

type_synonym ('k, 'v, 'c) tl_function =
  "('k, 'v) wire list \<Rightarrow> ('k, 'v) tl_request \<Rightarrow> 'c \<Rightarrow> ('k, 'v) tl_request \<times> 'c"

fun key_arg :: "('k, 'v) wire list \<Rightarrow> 'k option" where
  "key_arg [WKey k] = Some k"
| "key_arg _ = None"

fun val_arg :: "('k, 'v) wire list \<Rightarrow> 'v option" where
  "val_arg [WVal v] = Some v"
| "val_arg _ = None"

fun key_val_arg :: "('k, 'v) wire list \<Rightarrow> ('k \<times> 'v) option" where
  "key_val_arg [WKey k, WVal v] = Some (k, v)"
| "key_val_arg _ = None"

fun key_key_arg :: "('k, 'v) wire list \<Rightarrow> ('k \<times> 'k) option" where
  "key_key_arg [WKey a, WKey b] = Some (a, b)"
| "key_key_arg _ = None"

definition on_args ::
  "(('k, 'v) wire list \<Rightarrow> 'a option) \<Rightarrow>
     (('k, 'v) tl_request \<Rightarrow> 'a \<Rightarrow> 'c \<Rightarrow> ('k, 'v) tl_request \<times> 'c) \<Rightarrow> ('k, 'v, 'c) tl_function" where
  "on_args arg method args thallium_req c =
     (case arg args of None \<Rightarrow> (thallium_req, c) | Some a \<Rightarrow> method thallium_req a c)"

definition on_no_args ::
  "(('k, 'v) tl_request \<Rightarrow> 'c \<Rightarrow> ('k, 'v) tl_request \<times> 'c) \<Rightarrow> ('k, 'v, 'c) tl_function" where
  "on_no_args method args thallium_req c =
     (if args = [] then method thallium_req c else (thallium_req, c))"

text \<open>
  A function responds as a handler answers: once, with the handler's response, or not at all
  where the handler fails.
\<close>

definition responds_as :: "('k, 'v, 'c) tl_function \<Rightarrow> ('k, 'v, 'c) handler \<Rightarrow> bool" where
  "responds_as fn h \<longleftrightarrow>
     (\<forall>args thallium_req c. fn args thallium_req c =
        (case h args c of
           (Inr x, c') \<Rightarrow> (thallium_req @ [x], c')
         | (Inl _, c') \<Rightarrow> (thallium_req, c')))"

lemma responds_asI:
  "(\<And>args r c. fn args r c = (case h args c of (Inr x, c') \<Rightarrow> (r @ [x], c') | (Inl _, c') \<Rightarrow> (r, c'))) \<Longrightarrow>
     responds_as fn h"
  by (simp add: responds_as_def)

lemmas method_defs = on_args_def on_no_args_def THALLIUM_DEFINE_def THALLIUM_DEFINE1_def respond_def

lemma responds_as_key: "responds_as (on_args key_arg (THALLIUM_DEFINE enc f)) (handle_key enc f)"
  apply (rule responds_asI)
  subgoal for args r c
    by (cases "(enc, f, args, c)" rule: handle_key.cases) (auto simp: method_defs split: prod.splits)
  done

lemma responds_as_val: "responds_as (on_args val_arg (THALLIUM_DEFINE enc f)) (handle_val enc f)"
  apply (rule responds_asI)
  subgoal for args r c
    by (cases "(enc, f, args, c)" rule: handle_val.cases) (auto simp: method_defs split: prod.splits)
  done

lemma responds_as_key_val:
  "responds_as (on_args key_val_arg (THALLIUM_DEFINE enc (case_prod f))) (handle_key_val enc f)"
  apply (rule responds_asI)
  subgoal for args r c
    by (cases "(enc, f, args, c)" rule: handle_key_val.cases) (auto simp: method_defs split: prod.splits)
  done

lemma responds_as_key_key:
  "responds_as (on_args key_key_arg (THALLIUM_DEFINE enc (case_prod f))) (handle_key_key enc f)"
  apply (rule responds_asI)
  subgoal for args r c
    by (cases "(enc, f, args, c)" rule: handle_key_key.cases) (auto simp: method_defs split: prod.splits)
  done

lemma responds_as_no_args: "responds_as (on_no_args (THALLIUM_DEFINE1 enc f)) (handle0 enc f)"
  apply (rule responds_asI)
  subgoal for args r c
    by (cases args) (auto simp: method_defs split: prod.splits)
  done

lemmas responds_as_handlers = responds_as_key responds_as_val responds_as_key_val
  responds_as_key_key responds_as_no_args

text \<open>Two lists of bindings, under the same names in the same order.\<close>

definition same_bindings ::
  "(string \<times> ('k, 'v, 'c) tl_function) list \<Rightarrow> (string \<times> ('k, 'v, 'c) handler) list \<Rightarrow> bool" where
  "same_bindings = list_all2 (\<lambda>(a, fn) (b, h). a = b \<and> responds_as fn h)"

lemma same_bindings_simps [simp]:
  "same_bindings [] []"
  "same_bindings ((a, fn) # xs) ((b, h) # ys) \<longleftrightarrow> a = b \<and> responds_as fn h \<and> same_bindings xs ys"
  by (simp_all add: same_bindings_def)

subsection \<open>map\<close>

definition map_ThalliumLocalPut ::
  "('k, 'k \<times> 'v, 'c) tree_lib \<Rightarrow> ('k, 'v) tl_request \<Rightarrow>
     'k \<times> 'v \<Rightarrow> 'c \<Rightarrow> ('k, 'v) tl_request \<times> 'c" where
  "map_ThalliumLocalPut L = THALLIUM_DEFINE WBool (case_prod (map_LocalPut L))"

definition map_ThalliumLocalGet ::
  "('k, 'k \<times> 'v, 'c) tree_lib \<Rightarrow> 'v \<Rightarrow> ('k, 'v) tl_request \<Rightarrow>
     'k \<Rightarrow> 'c \<Rightarrow> ('k, 'v) tl_request \<times> 'c" where
  "map_ThalliumLocalGet L dflt = THALLIUM_DEFINE (\<lambda>(b, v). WFoundVal b v) (map_LocalGet L dflt)"

definition map_ThalliumLocalErase ::
  "('k, 'k \<times> 'v, 'c) tree_lib \<Rightarrow> 'v \<Rightarrow> ('k, 'v) tl_request \<Rightarrow>
     'k \<Rightarrow> 'c \<Rightarrow> ('k, 'v) tl_request \<times> 'c" where
  "map_ThalliumLocalErase L dflt = THALLIUM_DEFINE (\<lambda>(b, v). WFoundVal b v) (map_LocalErase L dflt)"

definition map_ThalliumLocalContainsInServer ::
  "'k key_ops \<Rightarrow> ('k, 'k \<times> 'v, 'c) tree_lib \<Rightarrow> ('k, 'v) tl_request \<Rightarrow>
     'k \<times> 'k \<Rightarrow> 'c \<Rightarrow> ('k, 'v) tl_request \<times> 'c" where
  "map_ThalliumLocalContainsInServer K L = THALLIUM_DEFINE WPairs (case_prod (map_LocalContainsInServer K L))"

definition map_ThalliumLocalGetAllDataInServer ::
  "('k, 'k \<times> 'v, 'c) tree_lib \<Rightarrow> ('k, 'v) tl_request \<Rightarrow>
     'c \<Rightarrow> ('k, 'v) tl_request \<times> 'c" where
  "map_ThalliumLocalGetAllDataInServer L = THALLIUM_DEFINE1 WPairs (map_LocalGetAllDataInServer L)"

definition map_thallium_binds ::
  "'k key_ops \<Rightarrow> ('k, 'k \<times> 'v, 'c) tree_lib \<Rightarrow> 'v \<Rightarrow> (string \<times> ('k, 'v, 'c) tl_function) list" where
  "map_thallium_binds K L dflt =
     [(''_Put'', on_args key_val_arg (map_ThalliumLocalPut L)),
      (''_Get'', on_args key_arg (map_ThalliumLocalGet L dflt)),
      (''_Erase'', on_args key_arg (map_ThalliumLocalErase L dflt)),
      (''_GetAllData'', on_no_args (map_ThalliumLocalGetAllDataInServer L)),
      (''_Contains'', on_args key_key_arg (map_ThalliumLocalContainsInServer K L))]"

subsection \<open>multimap\<close>

definition mmap_ThalliumLocalPut ::
  "('k, 'k \<times> 'v, 'c) tree_lib \<Rightarrow> ('k, 'v) tl_request \<Rightarrow>
     'k \<times> 'v \<Rightarrow> 'c \<Rightarrow> ('k, 'v) tl_request \<times> 'c" where
  "mmap_ThalliumLocalPut L = THALLIUM_DEFINE WBool (case_prod (mmap_LocalPut L))"

definition mmap_ThalliumLocalGet ::
  "('k, 'k \<times> 'v, 'c) tree_lib \<Rightarrow> 'v \<Rightarrow> ('k, 'v) tl_request \<Rightarrow>
     'k \<Rightarrow> 'c \<Rightarrow> ('k, 'v) tl_request \<times> 'c" where
  "mmap_ThalliumLocalGet L dflt = THALLIUM_DEFINE (\<lambda>(b, v). WFoundVal b v) (mmap_LocalGet L dflt)"

definition mmap_ThalliumLocalErase ::
  "('k, 'k \<times> 'v, 'c) tree_lib \<Rightarrow> 'v \<Rightarrow> ('k, 'v) tl_request \<Rightarrow>
     'k \<Rightarrow> 'c \<Rightarrow> ('k, 'v) tl_request \<times> 'c" where
  "mmap_ThalliumLocalErase L dflt = THALLIUM_DEFINE (\<lambda>(b, v). WFoundVal b v) (mmap_LocalErase L dflt)"

definition mmap_ThalliumLocalContainsInServer ::
  "'k key_ops \<Rightarrow> ('k, 'k \<times> 'v, 'c) tree_lib \<Rightarrow> ('k, 'v) tl_request \<Rightarrow>
     'k \<Rightarrow> 'c \<Rightarrow> ('k, 'v) tl_request \<times> 'c" where
  "mmap_ThalliumLocalContainsInServer K L = THALLIUM_DEFINE WPairs (mmap_LocalContainsInServer K L)"

definition mmap_ThalliumLocalGetAllDataInServer ::
  "('k, 'k \<times> 'v, 'c) tree_lib \<Rightarrow> ('k, 'v) tl_request \<Rightarrow>
     'c \<Rightarrow> ('k, 'v) tl_request \<times> 'c" where
  "mmap_ThalliumLocalGetAllDataInServer L = THALLIUM_DEFINE1 WPairs (mmap_LocalGetAllDataInServer L)"

definition mmap_thallium_binds ::
  "'k key_ops \<Rightarrow> ('k, 'k \<times> 'v, 'c) tree_lib \<Rightarrow> 'v \<Rightarrow> (string \<times> ('k, 'v, 'c) tl_function) list" where
  "mmap_thallium_binds K L dflt =
     [(''_Put'', on_args key_val_arg (mmap_ThalliumLocalPut L)),
      (''_Get'', on_args key_arg (mmap_ThalliumLocalGet L dflt)),
      (''_Erase'', on_args key_arg (mmap_ThalliumLocalErase L dflt)),
      (''_GetAllData'', on_no_args (mmap_ThalliumLocalGetAllDataInServer L)),
      (''_Contains'', on_args key_arg (mmap_ThalliumLocalContainsInServer K L))]"

subsection \<open>unordered_map\<close>

definition umap_ThalliumLocalPut ::
  "('k, 'v, 'c) hash_lib \<Rightarrow> ('k, 'v) tl_request \<Rightarrow>
     'k \<times> 'v \<Rightarrow> 'c \<Rightarrow> ('k, 'v) tl_request \<times> 'c" where
  "umap_ThalliumLocalPut H = THALLIUM_DEFINE WBool (case_prod (umap_LocalPut H))"

definition umap_ThalliumLocalGet ::
  "('k, 'v, 'c) hash_lib \<Rightarrow> 'v \<Rightarrow> ('k, 'v) tl_request \<Rightarrow>
     'k \<Rightarrow> 'c \<Rightarrow> ('k, 'v) tl_request \<times> 'c" where
  "umap_ThalliumLocalGet H dflt = THALLIUM_DEFINE (\<lambda>(b, v). WFoundVal b v) (umap_LocalGet H dflt)"

definition umap_ThalliumLocalErase ::
  "('k, 'v, 'c) hash_lib \<Rightarrow> 'v \<Rightarrow> ('k, 'v) tl_request \<Rightarrow>
     'k \<Rightarrow> 'c \<Rightarrow> ('k, 'v) tl_request \<times> 'c" where
  "umap_ThalliumLocalErase H dflt = THALLIUM_DEFINE (\<lambda>(b, v). WFoundVal b v) (umap_LocalErase H dflt)"

definition umap_ThalliumLocalGetAllDataInServer ::
  "('k, 'v, 'c) hash_lib \<Rightarrow> ('k, 'v) tl_request \<Rightarrow>
     'c \<Rightarrow> ('k, 'v) tl_request \<times> 'c" where
  "umap_ThalliumLocalGetAllDataInServer H = THALLIUM_DEFINE1 WPairs (umap_LocalGetAllDataInServer H)"

definition umap_thallium_binds ::
  "('k, 'v, 'c) hash_lib \<Rightarrow> 'v \<Rightarrow> (string \<times> ('k, 'v, 'c) tl_function) list" where
  "umap_thallium_binds H dflt =
     [(''_Put'', on_args key_val_arg (umap_ThalliumLocalPut H)),
      (''_Get'', on_args key_arg (umap_ThalliumLocalGet H dflt)),
      (''_Erase'', on_args key_arg (umap_ThalliumLocalErase H dflt)),
      (''_GetAllData'', on_no_args (umap_ThalliumLocalGetAllDataInServer H))]"

subsection \<open>set\<close>

definition set_ThalliumLocalPut ::
  "('k, 'k, 'c) tree_lib \<Rightarrow> ('k, 'v) tl_request \<Rightarrow>
     'k \<Rightarrow> 'c \<Rightarrow> ('k, 'v) tl_request \<times> 'c" where
  "set_ThalliumLocalPut L = THALLIUM_DEFINE WBool (set_LocalPut L)"

definition set_ThalliumLocalGet ::
  "('k, 'k, 'c) tree_lib \<Rightarrow> ('k, 'v) tl_request \<Rightarrow>
     'k \<Rightarrow> 'c \<Rightarrow> ('k, 'v) tl_request \<times> 'c" where
  "set_ThalliumLocalGet L = THALLIUM_DEFINE WBool (set_LocalGet L)"

definition set_ThalliumLocalErase ::
  "('k, 'k, 'c) tree_lib \<Rightarrow> ('k, 'v) tl_request \<Rightarrow>
     'k \<Rightarrow> 'c \<Rightarrow> ('k, 'v) tl_request \<times> 'c" where
  "set_ThalliumLocalErase L = THALLIUM_DEFINE WBool (set_LocalErase L)"

definition set_ThalliumLocalContainsInServer ::
  "'k key_ops \<Rightarrow> ('k, 'k, 'c) tree_lib \<Rightarrow> ('k, 'v) tl_request \<Rightarrow>
     'k \<times> 'k \<Rightarrow> 'c \<Rightarrow> ('k, 'v) tl_request \<times> 'c" where
  "set_ThalliumLocalContainsInServer K L = THALLIUM_DEFINE WKeys (case_prod (set_LocalContainsInServer K L))"

definition set_ThalliumLocalSeekFirstN ::
  "('k, 'k, 'c) tree_lib \<Rightarrow> ('k, 'v) tl_request \<Rightarrow>
     u32 \<Rightarrow> 'c \<Rightarrow> ('k, 'v) tl_request \<times> 'c" where
  "set_ThalliumLocalSeekFirstN L = THALLIUM_DEFINE (\<lambda>(b, ks). WFoundKeys b ks) (set_LocalSeekFirstN L)"

definition set_ThalliumLocalSize ::
  "('k, 'k, 'c) tree_lib \<Rightarrow> ('k, 'v) tl_request \<Rightarrow>
     'c \<Rightarrow> ('k, 'v) tl_request \<times> 'c" where
  "set_ThalliumLocalSize L = THALLIUM_DEFINE1 WSize (set_LocalSize L)"

definition set_ThalliumLocalSeekFirst ::
  "('k, 'k, 'c) tree_lib \<Rightarrow> 'k \<Rightarrow> ('k, 'v) tl_request \<Rightarrow>
     'c \<Rightarrow> ('k, 'v) tl_request \<times> 'c" where
  "set_ThalliumLocalSeekFirst L dflt = THALLIUM_DEFINE1 (\<lambda>(b, k). WFoundKey b k) (set_LocalSeekFirst L dflt)"

definition set_ThalliumLocalPopFirst ::
  "('k, 'k, 'c) tree_lib \<Rightarrow> 'k \<Rightarrow> ('k, 'v) tl_request \<Rightarrow>
     'c \<Rightarrow> ('k, 'v) tl_request \<times> 'c" where
  "set_ThalliumLocalPopFirst L dflt = THALLIUM_DEFINE1 (\<lambda>(b, k). WFoundKey b k) (set_LocalPopFirst L dflt)"

definition set_ThalliumLocalGetAllDataInServer ::
  "('k, 'k, 'c) tree_lib \<Rightarrow> ('k, 'v) tl_request \<Rightarrow>
     'c \<Rightarrow> ('k, 'v) tl_request \<times> 'c" where
  "set_ThalliumLocalGetAllDataInServer L = THALLIUM_DEFINE1 WKeys (set_LocalGetAllDataInServer L)"

text \<open>\<open>ThalliumLocalSeekFirstN\<close> is defined and wrapped in a function, but not bound.\<close>

definition set_thallium_binds ::
  "'k key_ops \<Rightarrow> ('k, 'k, 'c) tree_lib \<Rightarrow> 'k \<Rightarrow> (string \<times> ('k, 'v, 'c) tl_function) list" where
  "set_thallium_binds K L dflt =
     [(''_Put'', on_args key_arg (set_ThalliumLocalPut L)),
      (''_Get'', on_args key_arg (set_ThalliumLocalGet L)),
      (''_Erase'', on_args key_arg (set_ThalliumLocalErase L)),
      (''_GetAllData'', on_no_args (set_ThalliumLocalGetAllDataInServer L)),
      (''_Contains'', on_args key_key_arg (set_ThalliumLocalContainsInServer K L)),
      (''_SeekFirst'', on_no_args (set_ThalliumLocalSeekFirst L dflt)),
      (''_PopFirst'', on_no_args (set_ThalliumLocalPopFirst L dflt)),
      (''_Size'', on_no_args (set_ThalliumLocalSize L))]"

subsection \<open>queue\<close>

definition queue_ThalliumLocalPush ::
  "('v, 'c) deque_lib \<Rightarrow> ('k, 'v) tl_request \<Rightarrow>
     'v \<Rightarrow> 'c \<Rightarrow> ('k, 'v) tl_request \<times> 'c" where
  "queue_ThalliumLocalPush Q = THALLIUM_DEFINE WBool (queue_LocalPush Q)"

definition queue_ThalliumLocalPop ::
  "('v, 'c) deque_lib \<Rightarrow> 'v \<Rightarrow> ('k, 'v) tl_request \<Rightarrow>
     'c \<Rightarrow> ('k, 'v) tl_request \<times> 'c" where
  "queue_ThalliumLocalPop Q dflt = THALLIUM_DEFINE1 (\<lambda>(b, v). WFoundVal b v) (queue_LocalPop Q dflt)"

definition queue_ThalliumLocalSize ::
  "('v, 'c) deque_lib \<Rightarrow> ('k, 'v) tl_request \<Rightarrow>
     'c \<Rightarrow> ('k, 'v) tl_request \<times> 'c" where
  "queue_ThalliumLocalSize Q = THALLIUM_DEFINE1 WSize (queue_LocalSize Q)"

text \<open>A wait that does not get to its end does not respond.\<close>

definition queue_ThalliumLocalWaitForElement ::
  "('v, 'c) deque_lib \<Rightarrow> ('k, 'v) tl_request \<Rightarrow> 'c \<Rightarrow> ('k, 'v) tl_request \<times> 'c" where
  "queue_ThalliumLocalWaitForElement Q thallium_req my_queue =
     (case wait_alone Q my_queue of
        Inr b \<Rightarrow> (respond thallium_req (WBool b), my_queue)
      | Inl _ \<Rightarrow> (thallium_req, my_queue))"

definition queue_thallium_binds ::
  "('v, 'c) deque_lib \<Rightarrow> 'v \<Rightarrow> (string \<times> ('k, 'v, 'c) tl_function) list" where
  "queue_thallium_binds Q dflt =
     [(''_Push'', on_args val_arg (queue_ThalliumLocalPush Q)),
      (''_Pop'', on_no_args (queue_ThalliumLocalPop Q dflt)),
      (''_WaitForElement'', on_no_args (queue_ThalliumLocalWaitForElement Q)),
      (''_Size'', on_no_args (queue_ThalliumLocalSize Q))]"

lemma responds_as_wait:
  "responds_as (on_no_args (queue_ThalliumLocalWaitForElement Q)) (handle_wait Q)"
  apply (rule responds_asI)
  subgoal for args r c
    by (cases args)
      (auto simp: on_no_args_def queue_ThalliumLocalWaitForElement_def respond_def wait_alone_eq)
  done

subsection \<open>priority_queue\<close>

definition pq_ThalliumLocalPush ::
  "('v, 'c) heap_lib \<Rightarrow> ('k, 'v) tl_request \<Rightarrow>
     'v \<Rightarrow> 'c \<Rightarrow> ('k, 'v) tl_request \<times> 'c" where
  "pq_ThalliumLocalPush P = THALLIUM_DEFINE WBool (pq_LocalPush P)"

definition pq_ThalliumLocalPop ::
  "('v, 'c) heap_lib \<Rightarrow> 'v \<Rightarrow> ('k, 'v) tl_request \<Rightarrow>
     'c \<Rightarrow> ('k, 'v) tl_request \<times> 'c" where
  "pq_ThalliumLocalPop P dflt = THALLIUM_DEFINE1 (\<lambda>(b, v). WFoundVal b v) (pq_LocalPop P dflt)"

definition pq_ThalliumLocalTop ::
  "('v, 'c) heap_lib \<Rightarrow> 'v \<Rightarrow> ('k, 'v) tl_request \<Rightarrow>
     'c \<Rightarrow> ('k, 'v) tl_request \<times> 'c" where
  "pq_ThalliumLocalTop P dflt = THALLIUM_DEFINE1 (\<lambda>(b, v). WFoundVal b v) (pq_LocalTop P dflt)"

definition pq_ThalliumLocalSize ::
  "('v, 'c) heap_lib \<Rightarrow> ('k, 'v) tl_request \<Rightarrow>
     'c \<Rightarrow> ('k, 'v) tl_request \<times> 'c" where
  "pq_ThalliumLocalSize P = THALLIUM_DEFINE1 WSize (pq_LocalSize P)"

definition pq_thallium_binds ::
  "('v, 'c) heap_lib \<Rightarrow> 'v \<Rightarrow> (string \<times> ('k, 'v, 'c) tl_function) list" where
  "pq_thallium_binds P dflt =
     [(''_Push'', on_args val_arg (pq_ThalliumLocalPush P)),
      (''_Pop'', on_no_args (pq_ThalliumLocalPop P dflt)),
      (''_Top'', on_no_args (pq_ThalliumLocalTop P dflt)),
      (''_Size'', on_no_args (pq_ThalliumLocalSize P))]"

subsection \<open>global_sequence, global_clock\<close>

definition ThalliumLocalGetNextSequence :: "('k, 'v) tl_request \<Rightarrow> u64 \<Rightarrow> ('k, 'v) tl_request \<times> u64" where
  "ThalliumLocalGetNextSequence = THALLIUM_DEFINE1 WSize LocalGetNextSequence"

definition sequence_thallium_binds :: "(string \<times> ('k, 'v, u64) tl_function) list" where
  "sequence_thallium_binds = [(''_GetNextSequence'', on_no_args ThalliumLocalGetNextSequence)]"

definition ThalliumLocalGetTime ::
  "int \<Rightarrow> ('k, 'v) tl_request \<Rightarrow> int \<Rightarrow> ('k, 'v) tl_request \<times> int" where
  "ThalliumLocalGetTime t2 = THALLIUM_DEFINE1 WSize (LocalGetTime t2)"

definition clock_thallium_binds :: "int \<Rightarrow> (string \<times> ('k, 'v, int) tl_function) list" where
  "clock_thallium_binds t2 = [(''_GetTime'', on_no_args (ThalliumLocalGetTime t2))]"

subsection \<open>Properties\<close>

lemmas thallium_methods =
  map_ThalliumLocalPut_def map_ThalliumLocalGet_def map_ThalliumLocalErase_def
  map_ThalliumLocalContainsInServer_def map_ThalliumLocalGetAllDataInServer_def
  mmap_ThalliumLocalPut_def mmap_ThalliumLocalGet_def mmap_ThalliumLocalErase_def
  mmap_ThalliumLocalContainsInServer_def mmap_ThalliumLocalGetAllDataInServer_def
  umap_ThalliumLocalPut_def umap_ThalliumLocalGet_def umap_ThalliumLocalErase_def
  umap_ThalliumLocalGetAllDataInServer_def set_ThalliumLocalPut_def set_ThalliumLocalGet_def
  set_ThalliumLocalErase_def set_ThalliumLocalContainsInServer_def
  set_ThalliumLocalSeekFirstN_def set_ThalliumLocalSize_def set_ThalliumLocalSeekFirst_def
  set_ThalliumLocalPopFirst_def set_ThalliumLocalGetAllDataInServer_def
  queue_ThalliumLocalPush_def queue_ThalliumLocalPop_def queue_ThalliumLocalSize_def
  pq_ThalliumLocalPush_def pq_ThalliumLocalPop_def pq_ThalliumLocalTop_def
  pq_ThalliumLocalSize_def ThalliumLocalGetNextSequence_def ThalliumLocalGetTime_def

lemmas thallium_binds = map_thallium_binds_def mmap_thallium_binds_def umap_thallium_binds_def
  set_thallium_binds_def queue_thallium_binds_def pq_thallium_binds_def sequence_thallium_binds_def
  clock_thallium_binds_def

text \<open>
  C20: the Thallium case of every constructor binds, under the names of the rpclib case and in its
  order, methods that respond exactly once with what the handler of that name answers and
  change the structure as it does, or do not respond where it fails. The set's Thallium case does
  so for all names of its rpclib case but \<open>_SeekFirstN\<close>, which it leaves out; the handlers that
  the model of the set binds under Thallium are the others. So one registry of handlers stands
  for both.
\<close>
theorem thallium_methods_respond_as_handlers:
  "(\<exists>hs. (\<forall>B impl p reg. map_bindings B K L dflt impl p reg = bind_all B impl p hs reg) \<and>
      same_bindings (map_thallium_binds K L dflt) hs) \<and>
   (\<exists>hs. (\<forall>B impl p reg. mmap_bindings B K L dflt impl p reg = bind_all B impl p hs reg) \<and>
      same_bindings (mmap_thallium_binds K L dflt) hs) \<and>
   (\<exists>hs. (\<forall>B impl p reg. umap_bindings B H dflt impl p reg = bind_all B impl p hs reg) \<and>
      same_bindings (umap_thallium_binds H dflt) hs) \<and>
   same_bindings (set_thallium_binds K S dflt_key)
     (filter (\<lambda>(nam, h). nam \<noteq> ''_SeekFirstN'') (set_binds K S dflt_key RPCLIB)) \<and>
   set_binds K S dflt_key THALLIUM_TCP
     = filter (\<lambda>(nam, h). nam \<noteq> ''_SeekFirstN'') (set_binds K S dflt_key RPCLIB) \<and>
   set_binds K S dflt_key THALLIUM_ROCE
     = filter (\<lambda>(nam, h). nam \<noteq> ''_SeekFirstN'') (set_binds K S dflt_key RPCLIB) \<and>
   same_bindings (queue_thallium_binds Q dflt) (queue_binds Q dflt) \<and>
   same_bindings (pq_thallium_binds P dflt) (pq_binds P dflt) \<and>
   (\<exists>hs. (\<forall>B impl p reg. sequence_bindings B impl p reg = bind_all B impl p hs reg) \<and>
      same_bindings sequence_thallium_binds hs) \<and>
   (\<exists>hs. (\<forall>B impl p reg. clock_bindings B t2 impl p reg = bind_all B impl p hs reg) \<and>
      same_bindings (clock_thallium_binds t2) hs)"
proof (intro conjI)
  show "\<exists>hs. (\<forall>B impl p reg. map_bindings B K L dflt impl p reg = bind_all B impl p hs reg) \<and>
      same_bindings (map_thallium_binds K L dflt) hs"
    by (rule exI [of _ "[(''_Put'', handle_key_val WBool (map_LocalPut L)),
        (''_Get'', handle_key (\<lambda>(b, v). WFoundVal b v) (map_LocalGet L dflt)),
        (''_Erase'', handle_key (\<lambda>(b, v). WFoundVal b v) (map_LocalErase L dflt)),
        (''_GetAllData'', handle0 WPairs (map_LocalGetAllDataInServer L)),
        (''_Contains'', handle_key_key WPairs (map_LocalContainsInServer K L))]"])
      (simp add: map_bindings_def thallium_binds thallium_methods responds_as_handlers)
  show "\<exists>hs. (\<forall>B impl p reg. mmap_bindings B K L dflt impl p reg = bind_all B impl p hs reg) \<and>
      same_bindings (mmap_thallium_binds K L dflt) hs"
    by (rule exI [of _ "[(''_Put'', handle_key_val WBool (mmap_LocalPut L)),
        (''_Get'', handle_key (\<lambda>(b, v). WFoundVal b v) (mmap_LocalGet L dflt)),
        (''_Erase'', handle_key (\<lambda>(b, v). WFoundVal b v) (mmap_LocalErase L dflt)),
        (''_GetAllData'', handle0 WPairs (mmap_LocalGetAllDataInServer L)),
        (''_Contains'', handle_key WPairs (mmap_LocalContainsInServer K L))]"])
      (simp add: mmap_bindings_def thallium_binds thallium_methods responds_as_handlers)
  show "\<exists>hs. (\<forall>B impl p reg. umap_bindings B H dflt impl p reg = bind_all B impl p hs reg) \<and>
      same_bindings (umap_thallium_binds H dflt) hs"
    by (rule exI [of _ "[(''_Put'', handle_key_val WBool (umap_LocalPut H)),
        (''_Get'', handle_key (\<lambda>(b, v). WFoundVal b v) (umap_LocalGet H dflt)),
        (''_Erase'', handle_key (\<lambda>(b, v). WFoundVal b v) (umap_LocalErase H dflt)),
        (''_GetAllData'', handle0 WPairs (umap_LocalGetAllDataInServer H))]"])
      (simp add: umap_bindings_def thallium_binds thallium_methods responds_as_handlers)
  show "same_bindings (set_thallium_binds K S dflt_key)
      (filter (\<lambda>(nam, h). nam \<noteq> ''_SeekFirstN'') (set_binds K S dflt_key RPCLIB))"
    by (simp add: set_binds_def thallium_binds thallium_methods responds_as_handlers)
  show "set_binds K S dflt_key THALLIUM_TCP
      = filter (\<lambda>(nam, h). nam \<noteq> ''_SeekFirstN'') (set_binds K S dflt_key RPCLIB)"
    "set_binds K S dflt_key THALLIUM_ROCE
      = filter (\<lambda>(nam, h). nam \<noteq> ''_SeekFirstN'') (set_binds K S dflt_key RPCLIB)"
    by (simp_all add: set_binds_def)
  show "same_bindings (queue_thallium_binds Q dflt) (queue_binds Q dflt)"
    by (simp add: queue_binds_def thallium_binds thallium_methods responds_as_handlers responds_as_wait)
  show "same_bindings (pq_thallium_binds P dflt) (pq_binds P dflt)"
    by (simp add: pq_binds_def thallium_binds thallium_methods responds_as_handlers)
  show "\<exists>hs. (\<forall>B impl p reg. sequence_bindings B impl p reg = bind_all B impl p hs reg) \<and>
      same_bindings sequence_thallium_binds hs"
    by (rule exI [of _ "[(''_GetNextSequence'', handle0 WSize LocalGetNextSequence)]"])
      (simp add: sequence_bindings_def thallium_binds thallium_methods responds_as_handlers)
  show "\<exists>hs. (\<forall>B impl p reg. clock_bindings B t2 impl p reg = bind_all B impl p hs reg) \<and>
      same_bindings (clock_thallium_binds t2) hs"
    by (rule exI [of _ "[(''_GetTime'', handle0 WSize (LocalGetTime t2))]"])
      (simp add: clock_bindings_def thallium_binds thallium_methods responds_as_handlers)
qed

end
