(* ===== verification/Locked_Steps.thy ===== *)
theory Locked_Steps
  imports Partition
begin

section \<open>Threads in the local operations\<close>

text \<open>
  The local operations take a \<open>scoped_lock\<close> of the structure's mutex and run several calls on
  the structure before they leave. Here the calls are single steps, and the steps of the
  threads of all processes (the handlers of the servers and the clients on their nodes)
  interleave freely; only taking the mutex waits. What follows for every operation is proved
  here once: each call has the effect of the whole operation at the moment of its release.
\<close>

subsection \<open>Operations as steps\<close>

text \<open>
  \<open>Step act next\<close> is one call on the structure: \<open>act c\<close> is the structure after it and
  \<open>next c\<close> the rest of the operation, by what the call has read.
\<close>

datatype ('c, 'r) steps = Return 'r | Step "'c \<Rightarrow> 'c" "'c \<Rightarrow> ('c, 'r) steps"

primrec run_steps :: "('c, 'r) steps \<Rightarrow> 'c \<Rightarrow> 'r \<times> 'c" where
  "run_steps (Return r) = (\<lambda>c. (r, c))"
| "run_steps (Step act next) = (\<lambda>c. run_steps (next c) (act c))"

definition read_step :: "('c \<Rightarrow> ('c, 'r) steps) \<Rightarrow> ('c, 'r) steps" where
  "read_step next = Step (\<lambda>c. c) next"

definition write_step :: "('c \<Rightarrow> 'c) \<Rightarrow> ('c, 'r) steps \<Rightarrow> ('c, 'r) steps" where
  "write_step act rest = Step act (\<lambda>_. rest)"

lemma run_read_write [simp]:
  "run_steps (read_step next) c = run_steps (next c) c"
  "run_steps (write_step act rest) c = run_steps rest (act c)"
  by (simp_all add: read_step_def write_step_def)

subsection \<open>Threads, mutexes, structures\<close>

datatype ('c, 'q, 'r) thread = Idle | Waiting 'q | Inside 'q "('c, 'r) steps"

text \<open>
  One structure and one mutex per server. \<open>call_log\<close> collects the calls that have released the
  mutex, with their results, in the order in which they did.
\<close>

record ('c, 'q, 'r) threads_state =
  structures :: "'c world"
  mutexes :: "u16 \<Rightarrow> nat option"
  threads :: "nat \<Rightarrow> ('c, 'q, 'r) thread"
  call_log :: "('q \<times> 'r) list"

definition threads_start :: "'c world \<Rightarrow> ('c, 'q, 'r) threads_state" where
  "threads_start w =
     \<lparr>structures = w, mutexes = (\<lambda>_. None), threads = (\<lambda>_. Idle), call_log = []\<rparr>"

text \<open>\<open>site q\<close> is the server whose structure the call \<open>q\<close> works on, \<open>code q\<close> its steps.\<close>

inductive locked_step ::
  "('q \<Rightarrow> u16) \<Rightarrow> ('q \<Rightarrow> ('c, 'r) steps) \<Rightarrow>
     ('c, 'q, 'r) threads_state \<Rightarrow> ('c, 'q, 'r) threads_state \<Rightarrow> bool"
  for site code where
  call: "threads s t = Idle \<Longrightarrow>
     locked_step site code s (s\<lparr>threads := (threads s)(t := Waiting q)\<rparr>)"
| lock: "threads s t = Waiting q \<Longrightarrow> mutexes s (site q) = None \<Longrightarrow>
     locked_step site code s
       (s\<lparr>mutexes := (mutexes s)(site q := Some t),
          threads := (threads s)(t := Inside q (code q))\<rparr>)"
| work: "threads s t = Inside q (Step act next) \<Longrightarrow>
     locked_step site code s
       (s\<lparr>structures := (structures s)(site q := act (structures s (site q))),
          threads := (threads s)(t := Inside q (next (structures s (site q))))\<rparr>)"
| unlock: "threads s t = Inside q (Return r) \<Longrightarrow>
     locked_step site code s
       (s\<lparr>mutexes := (mutexes s)(site q := None),
          threads := (threads s)(t := Idle), call_log := call_log s @ [(q, r)]\<rparr>)"

text \<open>
  A schedule, executed: \<open>(t, Some q)\<close> starts a call, \<open>(t, None)\<close> lets thread \<open>t\<close> make its next
  step. A thread that waits for a held mutex stays where it is.
\<close>

fun move ::
  "('q \<Rightarrow> u16) \<Rightarrow> ('q \<Rightarrow> ('c, 'r) steps) \<Rightarrow> nat \<times> 'q option \<Rightarrow>
     ('c, 'q, 'r) threads_state \<Rightarrow> ('c, 'q, 'r) threads_state" where
  "move site code (t, Some q) s =
     (case threads s t of
        Idle \<Rightarrow> s\<lparr>threads := (threads s)(t := Waiting q)\<rparr>
      | _ \<Rightarrow> s)"
| "move site code (t, None) s =
     (case threads s t of
        Idle \<Rightarrow> s
      | Waiting q \<Rightarrow>
          (if mutexes s (site q) = None
           then s\<lparr>mutexes := (mutexes s)(site q := Some t),
                  threads := (threads s)(t := Inside q (code q))\<rparr>
           else s)
      | Inside q (Step act next) \<Rightarrow>
          s\<lparr>structures := (structures s)(site q := act (structures s (site q))),
            threads := (threads s)(t := Inside q (next (structures s (site q))))\<rparr>
      | Inside q (Return r) \<Rightarrow>
          s\<lparr>mutexes := (mutexes s)(site q := None),
            threads := (threads s)(t := Idle), call_log := call_log s @ [(q, r)]\<rparr>)"

definition run_schedule ::
  "('q \<Rightarrow> u16) \<Rightarrow> ('q \<Rightarrow> ('c, 'r) steps) \<Rightarrow> (nat \<times> 'q option) list \<Rightarrow> 'c world \<Rightarrow>
     ('c, 'q, 'r) threads_state" where
  "run_schedule site code sched w = fold (move site code) sched (threads_start w)"

lemma move_moves: "move site code m s = s \<or> locked_step site code s (move site code m s)"
proof (cases m)
  case (Pair t x)
  show ?thesis
  proof (cases x)
    case (Some q)
    then show ?thesis
      using locked_step.call [of s t site code q] by (auto simp: Pair split: thread.splits)
  next
    case None
    then show ?thesis
      using locked_step.lock [of s t _ site code] locked_step.work [of s t _ _ _ site code]
        locked_step.unlock [of s t _ _ site code]
      by (auto simp: Pair split: thread.splits steps.splits)
  qed
qed

lemma move_reaches: "(locked_step site code)\<^sup>*\<^sup>* s (move site code m s)"
  using move_moves [of site code m s] by auto

lemma fold_move_reaches: "(locked_step site code)\<^sup>*\<^sup>* s (fold (move site code) sched s)"
proof (induction sched arbitrary: s)
  case Nil
  then show ?case by simp
next
  case (Cons m sched)
  then show ?case using move_reaches [of site code s m] by (simp add: rtranclp_trans [OF _ Cons.IH])
qed

lemma run_schedule_reaches:
  "(locked_step site code)\<^sup>*\<^sup>* (threads_start w) (run_schedule site code sched w)"
  unfolding run_schedule_def by (rule fold_move_reaches)

subsection \<open>A call as one step\<close>

definition at_once ::
  "('q \<Rightarrow> u16) \<Rightarrow> ('q \<Rightarrow> ('c, 'r) steps) \<Rightarrow> 'q \<Rightarrow> 'c world \<Rightarrow> 'r \<times> 'c world" where
  "at_once site code q w =
     (case run_steps (code q) (w (site q)) of (r, c) \<Rightarrow> (r, w(site q := c)))"

abbreviation logged_run ::
  "('q \<Rightarrow> u16) \<Rightarrow> ('q \<Rightarrow> ('c, 'r) steps) \<Rightarrow> ('q \<times> 'r) list \<Rightarrow> 'c world \<Rightarrow> 'r list \<times> 'c world" where
  "logged_run site code log \<equiv> run_requests (at_once site code) (map fst log)"

text \<open>
  The invariant, for the world \<open>v\<close> that the calls in the log have left: who is inside holds the
  mutex of his server, and his remaining steps make of the structure what his whole call
  makes of \<open>v\<close>'s; a structure whose mutex is free is \<open>v\<close>'s; who holds a mutex is inside.
\<close>

definition mutex_inv ::
  "('q \<Rightarrow> u16) \<Rightarrow> ('q \<Rightarrow> ('c, 'r) steps) \<Rightarrow> 'c world \<Rightarrow> 'c world \<Rightarrow> (u16 \<Rightarrow> nat option) \<Rightarrow>
     (nat \<Rightarrow> ('c, 'q, 'r) thread) \<Rightarrow> bool" where
  "mutex_inv site code v d m th \<longleftrightarrow>
     (\<forall>t q p. th t = Inside q p \<longrightarrow>
        m (site q) = Some t \<and> run_steps p (d (site q)) = run_steps (code q) (v (site q))) \<and>
     (\<forall>i. m i = None \<longrightarrow> d i = v i) \<and>
     (\<forall>i t. m i = Some t \<longrightarrow> (\<exists>q p. th t = Inside q p \<and> site q = i))"

lemma mutex_invI:
  assumes "\<And>t q p. th t = Inside q p \<Longrightarrow> m (site q) = Some t"
    and "\<And>t q p. th t = Inside q p \<Longrightarrow> run_steps p (d (site q)) = run_steps (code q) (v (site q))"
    and "\<And>i. m i = None \<Longrightarrow> d i = v i"
    and "\<And>i t. m i = Some t \<Longrightarrow> \<exists>q p. th t = Inside q p \<and> site q = i"
  shows "mutex_inv site code v d m th"
  using assms unfolding mutex_inv_def by blast

lemma mutex_invD:
  assumes "mutex_inv site code v d m th"
  shows "th t = Inside q p \<Longrightarrow> m (site q) = Some t"
    and "th t = Inside q p \<Longrightarrow> run_steps p (d (site q)) = run_steps (code q) (v (site q))"
    and "m i = None \<Longrightarrow> d i = v i"
    and "m i = Some t \<Longrightarrow> \<exists>q p. th t = Inside q p \<and> site q = i"
  using assms unfolding mutex_inv_def by blast+

lemma mutex_inv_alone:
  assumes "mutex_inv site code v d m th" "th t = Inside q p" "th t' = Inside q' p'"
    and "site q' = site q"
  shows "t' = t"
  using mutex_invD(1) [OF assms(1,2)] mutex_invD(1) [OF assms(1,3)] assms(4) by simp

lemma mutex_inv_start: "mutex_inv site code w w (\<lambda>_. None) (\<lambda>_. Idle)"
  by (simp add: mutex_inv_def)

lemma mutex_inv_call:
  assumes "mutex_inv site code v d m th" "th t = Idle"
  shows "mutex_inv site code v d m (th(t := Waiting q))"
  by (rule mutex_invI)
    (use assms(2) in \<open>auto dest: mutex_invD [OF assms(1)] split: if_splits\<close>)

lemma mutex_inv_lock:
  assumes "mutex_inv site code v d m th" "th t = Waiting q" "m (site q) = None"
  shows "mutex_inv site code v d (m(site q := Some t)) (th(t := Inside q (code q)))"
  by (rule mutex_invI)
    (use assms(2,3) in \<open>auto dest: mutex_invD [OF assms(1)] split: if_splits\<close>)

lemma mutex_inv_work:
  assumes "mutex_inv site code v d m th" "th t = Inside q (Step act nxt)"
  shows "mutex_inv site code v (d(site q := act (d (site q)))) m
           (th(t := Inside q (nxt (d (site q)))))"
  by (rule mutex_invI)
    (use assms(2) in \<open>auto dest: mutex_invD [OF assms(1)] mutex_inv_alone [OF assms] split: if_splits\<close>)

lemma mutex_inv_unlock:
  assumes "mutex_inv site code v d m th" "th t = Inside q (Return r)"
  shows "run_steps (code q) (v (site q)) = (r, d (site q))"
    and "mutex_inv site code (v(site q := d (site q))) d (m(site q := None)) (th(t := Idle))"
proof -
  show "run_steps (code q) (v (site q)) = (r, d (site q))"
    using mutex_invD(2) [OF assms] by simp
  show "mutex_inv site code (v(site q := d (site q))) d (m(site q := None)) (th(t := Idle))"
    by (rule mutex_invI)
      (use assms(2) in \<open>auto dest: mutex_invD [OF assms(1)] mutex_inv_alone [OF assms] split: if_splits\<close>)
qed

definition locked_inv ::
  "('q \<Rightarrow> u16) \<Rightarrow> ('q \<Rightarrow> ('c, 'r) steps) \<Rightarrow> 'c world \<Rightarrow> ('c, 'q, 'r) threads_state \<Rightarrow> bool" where
  "locked_inv site code w s \<longleftrightarrow>
     (\<exists>v. run_requests (at_once site code) (map fst (call_log s)) w = (map snd (call_log s), v) \<and>
          mutex_inv site code v (structures s) (mutexes s) (threads s))"

lemma locked_inv_step:
  "locked_step site code s s' \<Longrightarrow> locked_inv site code w s \<Longrightarrow> locked_inv site code w s'"
proof (induction rule: locked_step.induct)
  case (call s t q)
  then show ?case by (auto simp: locked_inv_def mutex_inv_call)
next
  case (lock s t q)
  then show ?case by (auto simp: locked_inv_def mutex_inv_lock)
next
  case (work s t q act nxt)
  then show ?case by (auto simp: locked_inv_def mutex_inv_work)
next
  case (unlock s t q r)
  then obtain v where v: "run_requests (at_once site code) (map fst (call_log s)) w
      = (map snd (call_log s), v)" "mutex_inv site code v (structures s) (mutexes s) (threads s)"
    by (auto simp: locked_inv_def)
  show ?case
    using v(1) mutex_inv_unlock [OF v(2) unlock(1)]
    by (simp add: locked_inv_def run_requests_snoc at_once_def)
qed

lemma locked_inv_reachable:
  "(locked_step site code)\<^sup>*\<^sup>* (threads_start w) s \<Longrightarrow> locked_inv site code w s"
  by (induction rule: rtranclp_induct)
    (auto simp: locked_inv_def threads_start_def mutex_inv_start dest: locked_inv_step [unfolded locked_inv_def])

subsection \<open>What the mutex gives\<close>

lemma one_inside:
  assumes "(locked_step site code)\<^sup>*\<^sup>* (threads_start w) s"
    and "threads s t = Inside q p" "threads s t' = Inside q' p'" "site q = site q'"
  shows "t = t'"
  using locked_inv_reachable [OF assms(1)] mutex_inv_alone [OF _ assms(3,2)] assms(4)
  unfolding locked_inv_def by blast

text \<open>Whoever is inside can finish, and then whoever waits can go in and finish.\<close>

lemma finish_inside:
  assumes "threads s t = Inside q p"
  shows "\<exists>s' r. (locked_step site code)\<^sup>*\<^sup>* s s' \<and> call_log s' = call_log s @ [(q, r)] \<and>
           threads s' = (threads s)(t := Idle) \<and> mutexes s' = (mutexes s)(site q := None)"
  using assms
proof (induction p arbitrary: s)
  case (Return r)
  then show ?case
    using r_into_rtranclp [of "locked_step site code", OF unlock [OF Return]] by fastforce
next
  case (Step act nxt)
  let ?s = "s\<lparr>structures := (structures s)(site q := act (structures s (site q))),
    threads := (threads s)(t := Inside q (nxt (structures s (site q))))\<rparr>"
  have "locked_step site code s ?s"
    by (rule work) (rule Step.prems)
  moreover have "threads ?s t = Inside q (nxt (structures s (site q)))"
    by simp
  from Step.IH [OF rangeI this] obtain s' r
    where "(locked_step site code)\<^sup>*\<^sup>* ?s s'" "call_log s' = call_log ?s @ [(q, r)]"
      "threads s' = (threads ?s)(t := Idle)" "mutexes s' = (mutexes ?s)(site q := None)"
    by blast
  ultimately show ?case
    by (intro exI [of _ s'] exI [of _ r]) (auto intro: converse_rtranclp_into_rtranclp)
qed

lemma finish_waiting:
  assumes "threads s t = Waiting q" "mutexes s (site q) = None"
  shows "\<exists>s' r. (locked_step site code)\<^sup>*\<^sup>* s s' \<and> call_log s' = call_log s @ [(q, r)]"
proof -
  let ?s = "s\<lparr>mutexes := (mutexes s)(site q := Some t),
    threads := (threads s)(t := Inside q (code q))\<rparr>"
  have "locked_step site code s ?s"
    by (rule lock) (rule assms)+
  moreover obtain s' r where "(locked_step site code)\<^sup>*\<^sup>* ?s s'" "call_log s' = call_log s @ [(q, r)]"
    using finish_inside [of ?s t q "code q" site code] by auto
  ultimately show ?thesis
    by (blast intro: converse_rtranclp_into_rtranclp)
qed

lemma every_call_can_return:
  assumes "(locked_step site code)\<^sup>*\<^sup>* (threads_start w) s" "threads s t = Waiting q"
  shows "\<exists>s' log r. (locked_step site code)\<^sup>*\<^sup>* s s' \<and> call_log s' = call_log s @ log @ [(q, r)]"
proof (cases "mutexes s (site q)")
  case None
  then show ?thesis using finish_waiting [OF assms(2)] by (metis append_Nil)
next
  case (Some u)
  then obtain q' p where u: "threads s u = Inside q' p" "site q' = site q"
    using locked_inv_reachable [OF assms(1)] mutex_invD(4) unfolding locked_inv_def by metis
  obtain s1 r1 where s1: "(locked_step site code)\<^sup>*\<^sup>* s s1" "call_log s1 = call_log s @ [(q', r1)]"
    "threads s1 t = Waiting q" "mutexes s1 (site q) = None"
    using finish_inside [OF u(1), of site code] assms(2) u by (metis fun_upd_apply thread.distinct(5))
  then show ?thesis
    using finish_waiting [of s1 t q site code] by (metis append_assoc rtranclp_trans)
qed

subsection \<open>Runs of a relation\<close>

text \<open>
  A specification that allows more than one answer is a relation between a call, the state
  before it, its answer and the state after it.
\<close>

inductive spec_run ::
  "('q \<Rightarrow> 'a \<Rightarrow> 'r \<Rightarrow> 'a \<Rightarrow> bool) \<Rightarrow> 'q list \<Rightarrow> 'a \<Rightarrow> 'r list \<Rightarrow> 'a \<Rightarrow> bool" for spec where
  spec_finished: "spec_run spec [] a [] a"
| spec_more: "spec q a r b \<Longrightarrow> spec_run spec qs b rs c \<Longrightarrow> spec_run spec (q # qs) a (r # rs) c"

text \<open>The relation \<open>spec\<close> for one structure, on the structure of the call's server.\<close>

definition on_site ::
  "('q \<Rightarrow> u16) \<Rightarrow> ('q \<Rightarrow> 'a \<Rightarrow> 'r \<Rightarrow> 'a \<Rightarrow> bool) \<Rightarrow> 'q \<Rightarrow> 'a world \<Rightarrow> 'r \<Rightarrow> 'a world \<Rightarrow> bool" where
  "on_site site spec q a r b \<longleftrightarrow> (\<exists>x. spec q (a (site q)) r x \<and> b = a(site q := x))"

lemma run_follows:
  assumes "R w a"
    and "\<And>q w a. q \<in> set qs \<Longrightarrow> R w a \<Longrightarrow> \<exists>b. spec q a (fst (step q w)) b \<and> R (snd (step q w)) b"
  shows "\<exists>b. spec_run spec qs a (fst (run_requests step qs w)) b \<and> R (snd (run_requests step qs w)) b"
  using assms
proof (induction qs arbitrary: w a)
  case Nil
  then show ?case by (auto intro: spec_finished)
next
  case (Cons q qs)
  obtain b where b: "spec q a (fst (step q w)) b" "R (snd (step q w)) b"
    using Cons.prems(2) [OF _ Cons.prems(1), of q] by auto
  then show ?case
    using Cons.IH [OF b(2)] Cons.prems(2) by (auto simp: split_beta Let_def intro: spec_more)
qed

subsection \<open>The contract of the code\<close>

text \<open>
  The code of a call, run without interruption, is the operation \<open>oper\<close>. Then what the threads
  do is what the operations do, run in the order of the log.
\<close>

locale locked_calls =
  fixes site :: "'q \<Rightarrow> u16"
    and code :: "'q \<Rightarrow> ('c, 'r) steps"
    and oper :: "'q \<Rightarrow> 'c \<Rightarrow> 'r \<times> 'c"
  assumes code_runs: "run_steps (code q) c = oper q c"
begin

lemma at_once_oper:
  "at_once site code q w = (fst (oper q (w (site q))), w(site q := snd (oper q (w (site q)))))"
  by (simp add: at_once_def code_runs split_beta)

text \<open>A simulation of the operations by a specification is one of the interleaved threads.\<close>

lemma threads_simulate:
  assumes "(locked_step site code)\<^sup>*\<^sup>* (threads_start w) s" "R w a"
    and "\<And>q w a. R w a \<Longrightarrow> fst (oper q (w (site q))) = fst (spec q a) \<and>
           R (w(site q := snd (oper q (w (site q))))) (snd (spec q a))"
  shows "\<exists>v a'. run_requests spec (map fst (call_log s)) a = (map snd (call_log s), a') \<and> R v a' \<and>
           (\<forall>i. mutexes s i = None \<longrightarrow> structures s i = v i)"
proof -
  obtain v where v: "run_requests (at_once site code) (map fst (call_log s)) w = (map snd (call_log s), v)"
    "mutex_inv site code v (structures s) (mutexes s) (threads s)"
    using locked_inv_reachable [OF assms(1)] by (auto simp: locked_inv_def)
  have "fst (run_requests (at_once site code) (map fst (call_log s)) w)
        = map id (fst (run_requests spec (map id (map fst (call_log s))) a)) \<and>
      R (snd (run_requests (at_once site code) (map fst (call_log s)) w))
        (snd (run_requests spec (map id (map fst (call_log s))) a))"
    by (rule run_simulation [where R = R, OF assms(2)]) (use assms(3) in \<open>simp add: at_once_oper\<close>)
  then have "run_requests spec (map fst (call_log s)) a
        = (map snd (call_log s), snd (run_requests spec (map fst (call_log s)) a))"
    "R v (snd (run_requests spec (map fst (call_log s)) a))"
    using v(1) by (simp_all add: prod_eq_iff)
  then show ?thesis
    using mutex_invD(3) [OF v(2)] by blast
qed

text \<open>So is one by a relation.\<close>

lemma threads_follow_on:
  assumes "(locked_step site code)\<^sup>*\<^sup>* (threads_start w) s" "R w a"
    and "\<And>q w a. R w a \<Longrightarrow> \<exists>b. spec q a (fst (oper q (w (site q)))) b \<and>
           R (w(site q := snd (oper q (w (site q))))) b"
  shows "\<exists>v b. spec_run spec (map fst (call_log s)) a (map snd (call_log s)) b \<and> R v b \<and>
           (\<forall>i. mutexes s i = None \<longrightarrow> structures s i = v i)"
proof -
  obtain v where v: "run_requests (at_once site code) (map fst (call_log s)) w = (map snd (call_log s), v)"
    "mutex_inv site code v (structures s) (mutexes s) (threads s)"
    using locked_inv_reachable [OF assms(1)] by (auto simp: locked_inv_def)
  have "\<exists>b. spec_run spec (map fst (call_log s)) a
        (fst (run_requests (at_once site code) (map fst (call_log s)) w)) b \<and>
      R (snd (run_requests (at_once site code) (map fst (call_log s)) w)) b"
    by (rule run_follows [where R = R, OF assms(2)]) (use assms(3) in \<open>simp add: at_once_oper\<close>)
  then show ?thesis
    using mutex_invD(3) [OF v(2)] by (auto simp: v(1))
qed

text \<open>Operations that meet a relation on their structure meet it when threads interleave.\<close>

lemma meets_on_site:
  assumes meets: "\<And>q c. ok c \<Longrightarrow> ok (snd (oper q c)) \<and> spec q (view c) (fst (oper q c)) (view (snd (oper q c)))"
    and "(\<forall>i. ok (w i)) \<and> a = (\<lambda>i. view (w i))"
  shows "\<exists>b. on_site site spec q a (fst (oper q (w (site q)))) b \<and>
           (\<forall>i. ok ((w(site q := snd (oper q (w (site q))))) i)) \<and>
           b = (\<lambda>i. view ((w(site q := snd (oper q (w (site q))))) i))"
proof -
  have "on_site site spec q a (fst (oper q (w (site q))))
      (\<lambda>i. view ((w(site q := snd (oper q (w (site q))))) i))"
    using meets [of "w (site q)" q] assms(2)
    by (auto simp: on_site_def fun_eq_iff intro!: exI [of _ "view (snd (oper q (w (site q))))"])
  then show ?thesis using meets [of "w (site q)" q] assms(2) by simp
qed

lemma at_once_follows:
  assumes "\<And>q c. ok c \<Longrightarrow> ok (snd (oper q c)) \<and> spec q (view c) (fst (oper q c)) (view (snd (oper q c)))"
    and "\<forall>i. ok (w i)"
  shows "(\<forall>i. ok (snd (run_requests (at_once site code) qs w) i)) \<and>
      spec_run (on_site site spec) qs (\<lambda>i. view (w i)) (fst (run_requests (at_once site code) qs w))
        (\<lambda>i. view (snd (run_requests (at_once site code) qs w) i))"
  using run_follows [where R = "\<lambda>w a. (\<forall>i. ok (w i)) \<and> a = (\<lambda>i. view (w i))" and spec = "on_site site spec"
      and step = "at_once site code" and w = w and a = "\<lambda>i. view (w i)" and qs = qs]
    meets_on_site [where ok = ok and view = view and spec = spec, OF assms(1)] assms(2)
  by (simp add: at_once_oper)

lemma threads_follow:
  assumes "(locked_step site code)\<^sup>*\<^sup>* (threads_start w) s" "\<forall>i. ok (w i)"
    and meets: "\<And>q c. ok c \<Longrightarrow> ok (snd (oper q c)) \<and> spec q (view c) (fst (oper q c)) (view (snd (oper q c)))"
  shows "\<exists>a. spec_run (on_site site spec) (map fst (call_log s)) (\<lambda>i. view (w i)) (map snd (call_log s)) a \<and>
           (\<forall>i. mutexes s i = None \<longrightarrow> ok (structures s i) \<and> view (structures s i) = a i)"
  using threads_follow_on [where R = "\<lambda>w a. (\<forall>i. ok (w i)) \<and> a = (\<lambda>i. view (w i))"
      and spec = "on_site site spec", OF assms(1) _ meets_on_site [where ok = ok and view = view and spec = spec, OF meets]] assms(2)
  by fastforce

end

subsection \<open>Keyed containers\<close>

fun request_key :: "('k, 'v) request \<Rightarrow> 'k" where
  "request_key (PutReq k v) = k"
| "request_key (GetReq k) = k"
| "request_key (EraseReq k) = k"

fun keyed_oper ::
  "('k \<Rightarrow> 'v \<Rightarrow> 'c \<Rightarrow> bool \<times> 'c) \<Rightarrow> ('k \<Rightarrow> 'c \<Rightarrow> (bool \<times> 'v) \<times> 'c) \<Rightarrow>
     ('k \<Rightarrow> 'c \<Rightarrow> (bool \<times> 'v) \<times> 'c) \<Rightarrow> ('k, 'v) request \<Rightarrow> 'c \<Rightarrow> 'v response \<times> 'c" where
  "keyed_oper lput lget lerase (PutReq k v) c = map_prod PutResp id (lput k v c)"
| "keyed_oper lput lget lerase (GetReq k) c = map_prod GetResp id (lget k c)"
| "keyed_oper lput lget lerase (EraseReq k) c = map_prod EraseResp id (lerase k c)"

lemma home_request_oper:
  "home_request lput lget lerase hm q w
     = run_local (keyed_oper lput lget lerase q) (hm (request_key q)) w"
  by (cases q) (simp_all add: run_local_def split_beta)

context keyed_store
begin

lemma keyed_oper_spec:
  assumes "ok c"
  shows "ok (snd (keyed_oper lput lget lerase q c))"
    and "spec_request dflt q (lookup c)
           = (fst (keyed_oper lput lget lerase q c), lookup (snd (keyed_oper lput lget lerase q c)))"
  using assms by (cases q; simp add: put_ok put_result put_lookup get_eq erase_ok erase_result
      erase_lookup)+

end

locale locked_store = keyed_store +
  fixes code :: "('a, 'b) request \<Rightarrow> ('c, 'b response) steps"
  assumes store_code: "run_steps (code q) c = keyed_oper lput lget lerase q c"
begin

text \<open>
  The calls of all threads, on all servers, answer as they do one after the other on one map,
  in the order of the log, and every structure whose mutex is free has that map's entries.
\<close>

lemma threads_share_one_map:
  assumes "refines hm ok lookup w m"
    and "(locked_step (\<lambda>q. hm (request_key q)) code)\<^sup>*\<^sup>* (threads_start w) s"
  shows "\<exists>m'. run_requests (spec_request dflt) (map fst (call_log s)) m
             = (map snd (call_log s), m') \<and>
           (\<forall>k. mutexes s (hm k) = None \<longrightarrow> lookup (structures s (hm k)) k = m' k)"
proof -
  have calls: "locked_calls code (keyed_oper lput lget lerase)"
    by (rule locked_calls.intro) (rule store_code)
  have sim: "fst (keyed_oper lput lget lerase q (w (hm (request_key q)))) = fst (spec_request dflt q m) \<and>
      refines hm ok lookup (w(hm (request_key q)
          := snd (keyed_oper lput lget lerase q (w (hm (request_key q)))))) (snd (spec_request dflt q m))"
    if "refines hm ok lookup w m" for q w m
    using request_refines [OF that, of q] by (simp add: home_request_oper run_local_def split_beta)
  obtain v m' where m': "run_requests (spec_request dflt) (map fst (call_log s)) m = (map snd (call_log s), m')"
    "refines hm ok lookup v m'" "\<And>i. mutexes s i = None \<Longrightarrow> structures s i = v i"
    using locked_calls.threads_simulate [where R = "refines hm ok lookup" and spec = "spec_request dflt",
        OF calls assms(2,1) sim]
    by blast
  have "lookup (structures s (hm k)) k = m' k" if "mutexes s (hm k) = None" for k
    using m'(2,3) that by (auto simp: refines_def global_view_def)
  then show ?thesis using m'(1) by blast
qed

end

end
