(* ===== verification/Map_Threads.thy ===== *)
theory Map_Threads
  imports Locked_Steps Ordered_Map Unordered_Map Multi_Map
begin

section \<open>Threads on the maps\<close>

text \<open>
  The calls the local operations of map, multimap and unordered_map make on their structure
  while they hold its mutex, in their order. Each is one step of \<open>Locked_Steps\<close>; run without
  interruption they are the operations of \<open>Ordered_Map\<close>, \<open>Multi_Map\<close> and \<open>Unordered_Map\<close>, and
  the threads of all processes share one map.
\<close>

subsection \<open>multimap\<close>

text \<open>Put looks the key up, erases what it has found, inserts: between these the key is absent.\<close>

definition mmap_Put_steps ::
  "('k, 'k \<times> 'v, 'c) tree_lib \<Rightarrow> 'k \<Rightarrow> 'v \<Rightarrow> ('c, 'v response) steps" where
  "mmap_Put_steps L k data =
     read_step (\<lambda>mymap.
       let insert_data = write_step (tl_insert L (k, data)) (Return (PutResp True))
       in case tl_find L k mymap of
            (bs, e # as) \<Rightarrow> write_step (tl_erase_at L (bs, e # as)) insert_data
          | (_, []) \<Rightarrow> insert_data)"

text \<open>Get of map and multimap, and Erase of both, make the same calls.\<close>

definition tree_Get_steps ::
  "('k, 'k \<times> 'v, 'c) tree_lib \<Rightarrow> 'v \<Rightarrow> 'k \<Rightarrow> ('c, 'v response) steps" where
  "tree_Get_steps L dflt k =
     read_step (\<lambda>mymap. case tl_find L k mymap of
        (_, e # _) \<Rightarrow> Return (GetResp (True, snd e))
      | (_, []) \<Rightarrow> Return (GetResp (False, dflt)))"

definition tree_Erase_steps ::
  "('k, 'k \<times> 'v, 'c) tree_lib \<Rightarrow> 'v \<Rightarrow> 'k \<Rightarrow> ('c, 'v response) steps" where
  "tree_Erase_steps L dflt k =
     Step (\<lambda>mymap. fst (tl_erase L k mymap))
       (\<lambda>mymap. Return (EraseResp (snd (tl_erase L k mymap) > 0, dflt)))"

fun mmap_steps ::
  "('k, 'k \<times> 'v, 'c) tree_lib \<Rightarrow> 'v \<Rightarrow> ('k, 'v) request \<Rightarrow> ('c, 'v response) steps" where
  "mmap_steps L dflt (PutReq k v) = mmap_Put_steps L k v"
| "mmap_steps L dflt (GetReq k) = tree_Get_steps L dflt k"
| "mmap_steps L dflt (EraseReq k) = tree_Erase_steps L dflt k"

lemma mmap_steps_run:
  "run_steps (mmap_steps L dflt q) c
     = keyed_oper (mmap_LocalPut L) (mmap_LocalGet L dflt) (mmap_LocalErase L dflt) q c"
  by (cases q) (simp_all add: mmap_Put_steps_def tree_Get_steps_def tree_Erase_steps_def Let_def
      mmap_LocalPut_def mmap_LocalGet_def mmap_LocalErase_def split: list.splits prod.splits)

lemma mmap_locked_store:
  assumes "multimap_container L lt ok"
  shows "locked_store (mmap_LocalPut L) (mmap_LocalGet L dflt) (mmap_LocalErase L dflt)
           (mmap_LocalGetAllDataInServer L) (mmap_view L) (mmap_ok L ok) dflt (mmap_steps L dflt)"
  by (intro locked_store.intro locked_store_axioms.intro multimap_container.mmap_store [OF assms]
      mmap_steps_run)

sublocale multimap_container \<subseteq> mthreads: locked_store "mmap_LocalPut L" "mmap_LocalGet L dflt"
  "mmap_LocalErase L dflt" "mmap_LocalGetAllDataInServer L" "mmap_view L" "mmap_ok L ok" dflt
  "mmap_steps L dflt"
  for dflt
  by (rule mmap_locked_store [OF multimap_container_axioms])

interpretation list_multimap_threads: locked_store
  "mmap_LocalPut (list_map_lib ((<) :: 'k::linorder \<Rightarrow> 'k \<Rightarrow> bool))"
  "mmap_LocalGet (list_map_lib (<)) dflt" "mmap_LocalErase (list_map_lib (<)) dflt"
  "mmap_LocalGetAllDataInServer (list_map_lib (<))" "mmap_view (list_map_lib (<))"
  "mmap_ok (list_map_lib (<)) (sorted_wrt (\<lambda>a b. \<not> fst b < fst a))" dflt
  "mmap_steps (list_map_lib (<)) dflt"
  for dflt
  by (rule mmap_locked_store [OF list_multimap.multimap_container_axioms])

subsection \<open>map\<close>

definition map_Put_steps ::
  "('k, 'k \<times> 'v, 'c) tree_lib \<Rightarrow> 'k \<Rightarrow> 'v \<Rightarrow> ('c, 'v response) steps" where
  "map_Put_steps L k data =
     write_step (tl_insert_or_assign L (k, data)) (Return (PutResp True))"

fun map_steps ::
  "('k, 'k \<times> 'v, 'c) tree_lib \<Rightarrow> 'v \<Rightarrow> ('k, 'v) request \<Rightarrow> ('c, 'v response) steps" where
  "map_steps L dflt (PutReq k v) = map_Put_steps L k v"
| "map_steps L dflt (GetReq k) = tree_Get_steps L dflt k"
| "map_steps L dflt (EraseReq k) = tree_Erase_steps L dflt k"

lemma map_steps_run:
  "run_steps (map_steps L dflt q) c
     = keyed_oper (map_LocalPut L) (map_LocalGet L dflt) (map_LocalErase L dflt) q c"
  by (cases q) (simp_all add: map_Put_steps_def tree_Get_steps_def tree_Erase_steps_def
      map_LocalPut_def map_LocalGet_def map_LocalErase_def split: list.splits prod.splits)

lemma map_locked_store:
  assumes "map_container L lt ok"
  shows "locked_store (map_LocalPut L) (map_LocalGet L dflt) (map_LocalErase L dflt)
           (map_LocalGetAllDataInServer L) (map_view L) ok dflt (map_steps L dflt)"
  by (intro locked_store.intro locked_store_axioms.intro map_container.map_store [OF assms]
      map_steps_run)

sublocale map_container \<subseteq> tthreads: locked_store "map_LocalPut L" "map_LocalGet L dflt"
  "map_LocalErase L dflt" "map_LocalGetAllDataInServer L" "map_view L" ok dflt "map_steps L dflt"
  for dflt
  by (rule map_locked_store [OF map_container_axioms])

subsection \<open>unordered_map\<close>

definition umap_Put_steps ::
  "('k, 'v, 'c) hash_lib \<Rightarrow> 'k \<Rightarrow> 'v \<Rightarrow> ('c, 'v response) steps" where
  "umap_Put_steps H k data =
     write_step (hl_insert_or_assign H k data) (Return (PutResp True))"

definition umap_Get_steps ::
  "('k, 'v, 'c) hash_lib \<Rightarrow> 'v \<Rightarrow> 'k \<Rightarrow> ('c, 'v response) steps" where
  "umap_Get_steps H dflt k =
     read_step (\<lambda>myHashMap. case hl_find H k myHashMap of
        (_, e # _) \<Rightarrow> Return (GetResp (True, snd e))
      | (_, []) \<Rightarrow> Return (GetResp (False, dflt)))"

definition umap_Erase_steps ::
  "('k, 'v, 'c) hash_lib \<Rightarrow> 'v \<Rightarrow> 'k \<Rightarrow> ('c, 'v response) steps" where
  "umap_Erase_steps H dflt k =
     Step (\<lambda>myHashMap. fst (hl_erase H k myHashMap))
       (\<lambda>myHashMap. Return (EraseResp (snd (hl_erase H k myHashMap) > 0, dflt)))"

fun umap_steps ::
  "('k, 'v, 'c) hash_lib \<Rightarrow> 'v \<Rightarrow> ('k, 'v) request \<Rightarrow> ('c, 'v response) steps" where
  "umap_steps H dflt (PutReq k v) = umap_Put_steps H k v"
| "umap_steps H dflt (GetReq k) = umap_Get_steps H dflt k"
| "umap_steps H dflt (EraseReq k) = umap_Erase_steps H dflt k"

lemma umap_steps_run:
  "run_steps (umap_steps H dflt q) c
     = keyed_oper (umap_LocalPut H) (umap_LocalGet H dflt) (umap_LocalErase H dflt) q c"
  by (cases q) (simp_all add: umap_Put_steps_def umap_Get_steps_def umap_Erase_steps_def
      umap_LocalPut_def umap_LocalGet_def umap_LocalErase_def split: list.splits prod.splits)

lemma umap_locked_store:
  assumes "hash_container H ok"
  shows "locked_store (umap_LocalPut H) (umap_LocalGet H dflt) (umap_LocalErase H dflt)
           (umap_LocalGetAllDataInServer H) (umap_view H) ok dflt (umap_steps H dflt)"
  by (intro locked_store.intro locked_store_axioms.intro hash_container.umap_store [OF assms]
      umap_steps_run)

sublocale hash_container \<subseteq> uthreads: locked_store "umap_LocalPut H" "umap_LocalGet H dflt"
  "umap_LocalErase H dflt" "umap_LocalGetAllDataInServer H" "umap_view H" ok dflt
  "umap_steps H dflt"
  for dflt
  by (rule umap_locked_store [OF hash_container_axioms])

subsection \<open>Properties\<close>

text \<open>
  C6: threads of any number of processes may run Put, Get and Erase of a multimap on any of its
  servers and interleave inside the calls in any way: every call that has returned answered
  what it answers on one map, on which the calls are run one after the other in the order in
  which they released the mutexes, and a server nobody is inside of holds that map's values.
  No call is stuck: one that waits can always still return.
\<close>
theorem mmap_threads_share_one_map:
  assumes "multimap_container L lt ok"
    and "refines (\<lambda>k. home n (keyHash K k)) (mmap_ok L ok) (mmap_view L) w m"
    and "(locked_step (\<lambda>q. home n (keyHash K (request_key q))) (mmap_steps L dflt))\<^sup>*\<^sup>*
           (threads_start w) s"
  shows "\<exists>m'. run_requests (spec_request dflt) (map fst (call_log s)) m = (map snd (call_log s), m') \<and>
           (\<forall>k. mutexes s (home n (keyHash K k)) = None \<longrightarrow>
              mmap_view L (structures s (home n (keyHash K k))) k = m' k) \<and>
           (\<forall>t q. threads s t = Waiting q \<longrightarrow>
              (\<exists>s' log r. (locked_step (\<lambda>q. home n (keyHash K (request_key q))) (mmap_steps L dflt))\<^sup>*\<^sup>* s s' \<and>
                 call_log s' = call_log s @ log @ [(q, r)]))"
  using locked_store.threads_share_one_map [OF mmap_locked_store [OF assms(1)] assms(2,3)]
    every_call_can_return [OF assms(3)] by blast

definition sample_mmap_schedule :: "(nat \<times> (nat, nat) request option) list" where
  "sample_mmap_schedule =
     [(0, Some (PutReq 5 51)), (1, Some (GetReq 5)), (0, None), (0, None), (0, None), (1, None),
      (0, None), (0, None), (1, None), (1, None), (1, None), (0, Some (EraseReq 8))]"

lemma mmap_threads_share_one_map_witness:
  "\<exists>s. (locked_step (\<lambda>q. home 3 (keyHash sample_keys (request_key q)))
          (mmap_steps (list_map_lib (<)) 0))\<^sup>*\<^sup>* (threads_start sample_mmap_world) s \<and>
     call_log s = [(PutReq 5 51, PutResp True), (GetReq 5, GetResp (True, 51))] \<and>
     fst (run_requests (spec_request 0) [PutReq 5 51, GetReq 5] [2 \<mapsto> 20, 5 \<mapsto> 50, 8 \<mapsto> 80])
       = [PutResp True, GetResp (True, 51)]"
proof -
  let ?site = "\<lambda>q. home 3 (keyHash sample_keys (request_key q))"
  let ?s = "run_schedule ?site (mmap_steps (list_map_lib (<)) 0) sample_mmap_schedule sample_mmap_world"
  note run = run_schedule_reaches [of ?site "mmap_steps (list_map_lib (<)) 0" sample_mmap_world
      sample_mmap_schedule]
  have log: "call_log ?s = [(PutReq 5 51, PutResp True), (GetReq 5, GetResp (True, 51))]"
    by code_simp
  show ?thesis
    using mmap_threads_share_one_map [OF list_multimap.multimap_container_axioms
        sample_mmap_world_refines run] run log by auto
qed

end
