(* ===== verification/Queue_Threads.thy ===== *)
theory Queue_Threads
  imports Locked_Steps Fifo_Queue Prio_Queue
begin

section \<open>Threads on the queues\<close>

text \<open>
  The calls the local operations of queue and priority_queue make on their structure while they
  hold its mutex. Pop asks for the size, reads the front and removes it: without the mutex two
  threads could answer the same element. A call names its server, the first component.
\<close>

subsection \<open>queue\<close>

definition queue_Push_steps :: "('v, 'c) deque_lib \<Rightarrow> 'v \<Rightarrow> ('c, 'v qresponse) steps" where
  "queue_Push_steps Q data = write_step (dq_push_back Q data) (Return (PushResp True))"

definition queue_Pop_steps :: "('v, 'c) deque_lib \<Rightarrow> 'v \<Rightarrow> ('c, 'v qresponse) steps" where
  "queue_Pop_steps Q dflt =
     read_step (\<lambda>my_queue.
       if dq_size Q my_queue > 0
       then read_step (\<lambda>my_queue.
         let value = dq_front Q my_queue
         in write_step (dq_pop_front Q) (Return (PopResp (True, value))))
       else Return (PopResp (False, dflt)))"

definition queue_Size_steps :: "('v, 'c) deque_lib \<Rightarrow> ('c, 'v qresponse) steps" where
  "queue_Size_steps Q =
     read_step (\<lambda>my_queue. Return (SizeResp (word_of_nat (dq_size Q my_queue))))"

fun queue_steps ::
  "('v, 'c) deque_lib \<Rightarrow> 'v \<Rightarrow> u16 \<times> 'v qrequest \<Rightarrow> ('c, 'v qresponse) steps" where
  "queue_steps Q dflt (_, PushReq v) = queue_Push_steps Q v"
| "queue_steps Q dflt (_, PopReq) = queue_Pop_steps Q dflt"
| "queue_steps Q dflt (_, SizeReq) = queue_Size_steps Q"

interpretation queue_threads: locked_calls fst "queue_steps Q dflt" "\<lambda>q. queue_home Q dflt (snd q)"
proof
  show "run_steps (queue_steps Q dflt q) c = queue_home Q dflt (snd q) c" for q c
    by (cases q; cases "snd q")
      (auto simp: queue_Push_steps_def queue_Pop_steps_def queue_Size_steps_def queue_LocalPush_def
        queue_LocalPop_def queue_LocalSize_def Let_def)
qed

lemma queue_oper_sim:
  assumes "deque_container Q items" "queues_of items w = a"
  shows "fst (queue_home Q dflt (snd q) (w (fst q))) = fst (spec_queue dflt q a) \<and>
         queues_of items (w(fst q := snd (queue_home Q dflt (snd q) (w (fst q))))) = snd (spec_queue dflt q a)"
  using deque_container.queue_home_spec [OF assms(1), of a "fst q" "w (fst q)" dflt "snd q"] assms(2)
  by (auto simp: queues_of_def fun_eq_iff)

subsection \<open>priority_queue\<close>

definition pq_Push_steps :: "('v, 'c) heap_lib \<Rightarrow> 'v \<Rightarrow> ('c, 'v pq_response) steps" where
  "pq_Push_steps P data = write_step (hp_push P data) (Return (PqPushed True))"

definition pq_Pop_steps :: "('v, 'c) heap_lib \<Rightarrow> 'v \<Rightarrow> ('c, 'v pq_response) steps" where
  "pq_Pop_steps P dflt =
     read_step (\<lambda>queue.
       if hp_size P queue > 0
       then read_step (\<lambda>queue.
         let value = hp_top P queue
         in write_step (hp_pop P) (Return (PqFound (True, value))))
       else Return (PqFound (False, dflt)))"

definition pq_Top_steps :: "('v, 'c) heap_lib \<Rightarrow> 'v \<Rightarrow> ('c, 'v pq_response) steps" where
  "pq_Top_steps P dflt =
     read_step (\<lambda>queue.
       if hp_size P queue > 0
       then read_step (\<lambda>queue. Return (PqFound (True, hp_top P queue)))
       else Return (PqFound (False, dflt)))"

definition pq_Size_steps :: "('v, 'c) heap_lib \<Rightarrow> ('c, 'v pq_response) steps" where
  "pq_Size_steps P = read_step (\<lambda>queue. Return (PqCount (word_of_nat (hp_size P queue))))"

fun pq_steps ::
  "('v, 'c) heap_lib \<Rightarrow> 'v \<Rightarrow> u16 \<times> 'v pq_request \<Rightarrow> ('c, 'v pq_response) steps" where
  "pq_steps P dflt (_, PqPush v) = pq_Push_steps P v"
| "pq_steps P dflt (_, PqPop) = pq_Pop_steps P dflt"
| "pq_steps P dflt (_, PqTop) = pq_Top_steps P dflt"
| "pq_steps P dflt (_, PqSize) = pq_Size_steps P"

interpretation pq_threads: locked_calls fst "pq_steps P dflt" "\<lambda>q. pq_home P dflt (snd q)"
proof
  show "run_steps (pq_steps P dflt q) c = pq_home P dflt (snd q) c" for q c
    by (cases q; cases "snd q")
      (auto simp: pq_Push_steps_def pq_Pop_steps_def pq_Top_steps_def pq_Size_steps_def
        pq_LocalPush_def pq_LocalPop_def pq_LocalTop_def pq_LocalSize_def Let_def)
qed

lemma pq_run_spec:
  assumes "spec_run (on_site fst (\<lambda>q. pq_step lt dflt (snd q))) qs a rs b"
  shows "pq_run lt dflt qs a rs b"
  using assms
proof (induction rule: spec_run.induct)
  case (spec_more q a r b qs rs c)
  then show ?case
    by (cases q) (auto simp: on_site_def intro: pq_run.more)
qed (rule pq_run.finished)

lemma pq_threads_pop_greatest:
  assumes "heap_container P lt contents ok" "\<forall>i. ok (w i)"
    and "(locked_step fst (pq_steps P dflt))\<^sup>*\<^sup>* (threads_start w) s"
  shows "\<exists>M. pq_run lt dflt (map fst (call_log s)) (heaps_of contents w) (map snd (call_log s)) M \<and>
           (\<forall>i. mutexes s i = None \<longrightarrow> contents (structures s i) = M i)"
  using pq_threads.threads_follow [where ok = ok and view = contents
      and spec = "\<lambda>q. pq_step lt dflt (snd q)", OF assms(3,2)]
    heap_container.pq_home_step [OF assms(1)]
  unfolding heaps_of_def [abs_def] by (blast intro: pq_run_spec)

subsection \<open>Properties\<close>

text \<open>
  C7: threads of any number of processes may run Push, Pop and Size on any of the queues and
  interleave inside the calls in any way: on every server nobody is inside of, what it held
  before followed by what the returned calls pushed, in the order in which they released the
  mutex, is what they popped followed by what the server holds. No element is popped twice,
  and none is lost. No call is stuck: one that waits can always still return.
\<close>
theorem queue_threads_no_loss:
  assumes "deque_container Q items"
    and "(locked_step fst (queue_steps Q dflt))\<^sup>*\<^sup>* (threads_start w) s"
  shows "(mutexes s i = None \<longrightarrow>
            items (w i) @ pushed_at i (map fst (call_log s))
              = popped_at i (map fst (call_log s)) (map snd (call_log s)) @ items (structures s i)) \<and>
         (\<forall>t q. threads s t = Waiting q \<longrightarrow>
            (\<exists>s' log r. (locked_step fst (queue_steps Q dflt))\<^sup>*\<^sup>* s s' \<and>
               call_log s' = call_log s @ log @ [(q, r)]))"
proof -
  note sim = queue_oper_sim [OF assms(1)]
  obtain v a where a: "run_requests (spec_queue dflt) (map fst (call_log s)) (queues_of items w)
      = (map snd (call_log s), a)" "queues_of items v = a" "\<And>i. mutexes s i = None \<Longrightarrow> structures s i = v i"
    using queue_threads.threads_simulate [where R = "\<lambda>w a. queues_of items w = a"
        and spec = "spec_queue dflt", OF assms(2) refl sim] by blast
  have "items (w i) @ pushed_at i (map fst (call_log s))
      = popped_at i (map fst (call_log s)) (map snd (call_log s)) @ a i"
    using spec_queue_no_loss [of "queues_of items w" i "map fst (call_log s)" dflt]
    by (simp add: a(1) queues_of_def)
  moreover have "mutexes s i = None \<Longrightarrow> items (structures s i) = a i"
    using a(2,3) by (auto simp: queues_of_def)
  ultimately show ?thesis
    using every_call_can_return [OF assms(2)] by auto
qed

definition sample_queue_schedule :: "(nat \<times> (u16 \<times> nat qrequest) option) list" where
  "sample_queue_schedule =
     [(0, Some (1, PopReq)), (1, Some (1, PopReq)), (0, None), (1, None), (0, None), (0, None),
      (1, None), (0, None), (0, None), (1, None), (1, None), (1, None), (1, None), (1, None)]"

lemma queue_threads_no_loss_witness:
  "\<exists>s. (locked_step fst (queue_steps list_deque_lib 0))\<^sup>*\<^sup>* (threads_start (\<lambda>_. [7, 8, 9])) s \<and>
     call_log s = [((1, PopReq), PopResp (True, 7)), ((1, PopReq), PopResp (True, 8))] \<and>
     (structures s 1 :: nat list) = [9]"
proof -
  let ?s = "run_schedule fst (queue_steps list_deque_lib 0) sample_queue_schedule (\<lambda>_. [7, 8, 9 :: nat])"
  note run = run_schedule_reaches [of fst "queue_steps list_deque_lib 0" "\<lambda>_. [7, 8, 9 :: nat]"
      sample_queue_schedule]
  have log: "call_log ?s = [((1, PopReq), PopResp (True, 7)), ((1, PopReq), PopResp (True, 8))]"
    and free: "mutexes ?s 1 = None"
    by code_simp+
  have "structures ?s 1 = [9]"
    using queue_threads_no_loss [OF list_deque.deque_container_axioms run, of 1] free log by simp
  then show ?thesis using run log by blast
qed

end
