(* ===== verification/Set_Threads.thy ===== *)
theory Set_Threads
  imports Locked_Steps Ordered_Set
begin

section \<open>Threads on the set\<close>

text \<open>
  The calls that set's Put, Get, Erase, SeekFirst and PopFirst make on the structure while they
  hold its mutex. PopFirst asks for the size, takes \<open>begin()\<close>, copies the key and erases it.
  \<open>LocalSize\<close> takes no lock: what it reads while another thread writes is not defined, and it
  is left out here.
\<close>

subsection \<open>Calls\<close>

datatype 'k set_call =
    SetPut 'k | SetGet 'k | SetErase 'k | SetSeekFirst u16 | SetPopFirst u16

datatype 'k set_answer = Did bool | First "bool \<times> 'k"

text \<open>Keyed calls go to the home of their key, the others name a server.\<close>

fun set_site :: "('k \<Rightarrow> u16) \<Rightarrow> 'k set_call \<Rightarrow> u16" where
  "set_site hm (SetPut k) = hm k"
| "set_site hm (SetGet k) = hm k"
| "set_site hm (SetErase k) = hm k"
| "set_site hm (SetSeekFirst i) = i"
| "set_site hm (SetPopFirst i) = i"

definition set_Put_steps :: "('k, 'k, 'c) tree_lib \<Rightarrow> 'k \<Rightarrow> ('c, 'k set_answer) steps" where
  "set_Put_steps L k = write_step (tl_insert L k) (Return (Did True))"

definition set_Get_steps :: "('k, 'k, 'c) tree_lib \<Rightarrow> 'k \<Rightarrow> ('c, 'k set_answer) steps" where
  "set_Get_steps L k =
     read_step (\<lambda>myset. case tl_find L k myset of
        (_, e # _) \<Rightarrow> Return (Did True)
      | (_, []) \<Rightarrow> Return (Did False))"

definition set_Erase_steps :: "('k, 'k, 'c) tree_lib \<Rightarrow> 'k \<Rightarrow> ('c, 'k set_answer) steps" where
  "set_Erase_steps L k =
     Step (\<lambda>myset. fst (tl_erase L k myset))
       (\<lambda>myset. Return (Did (snd (tl_erase L k myset) > 0)))"

definition set_SeekFirst_steps :: "('k, 'k, 'c) tree_lib \<Rightarrow> 'k \<Rightarrow> ('c, 'k set_answer) steps" where
  "set_SeekFirst_steps L dflt =
     read_step (\<lambda>myset.
       if tl_size L myset > 0
       then read_step (\<lambda>myset. case tl_begin L myset of
              (_, value # _) \<Rightarrow> Return (First (True, value))
            | (_, []) \<Rightarrow> Return (First (False, dflt)))
       else Return (First (False, dflt)))"

definition set_PopFirst_steps :: "('k, 'k, 'c) tree_lib \<Rightarrow> 'k \<Rightarrow> ('c, 'k set_answer) steps" where
  "set_PopFirst_steps L dflt =
     read_step (\<lambda>myset.
       if tl_size L myset > 0
       then read_step (\<lambda>myset. case tl_begin L myset of
              (bs, value # as) \<Rightarrow>
                write_step (tl_erase_at L (bs, value # as)) (Return (First (True, value)))
            | (_, []) \<Rightarrow> Return (First (False, dflt)))
       else Return (First (False, dflt)))"

fun set_call_steps :: "('k, 'k, 'c) tree_lib \<Rightarrow> 'k \<Rightarrow> 'k set_call \<Rightarrow> ('c, 'k set_answer) steps" where
  "set_call_steps L dflt (SetPut k) = set_Put_steps L k"
| "set_call_steps L dflt (SetGet k) = set_Get_steps L k"
| "set_call_steps L dflt (SetErase k) = set_Erase_steps L k"
| "set_call_steps L dflt (SetSeekFirst _) = set_SeekFirst_steps L dflt"
| "set_call_steps L dflt (SetPopFirst _) = set_PopFirst_steps L dflt"

fun set_oper :: "('k, 'k, 'c) tree_lib \<Rightarrow> 'k \<Rightarrow> 'k set_call \<Rightarrow> 'c \<Rightarrow> 'k set_answer \<times> 'c" where
  "set_oper L dflt (SetPut k) c = map_prod Did id (set_LocalPut L k c)"
| "set_oper L dflt (SetGet k) c = map_prod Did id (set_LocalGet L k c)"
| "set_oper L dflt (SetErase k) c = map_prod Did id (set_LocalErase L k c)"
| "set_oper L dflt (SetSeekFirst _) c = map_prod First id (set_LocalSeekFirst L dflt c)"
| "set_oper L dflt (SetPopFirst _) c = map_prod First id (set_LocalPopFirst L dflt c)"

lemmas set_steps_defs = set_Put_steps_def set_Get_steps_def set_Erase_steps_def
  set_SeekFirst_steps_def set_PopFirst_steps_def

lemmas set_local_defs = set_LocalPut_def set_LocalGet_def set_LocalErase_def
  set_LocalSeekFirst_def set_LocalPopFirst_def

interpretation set_threads: locked_calls "set_site hm" "set_call_steps L dflt" "set_oper L dflt"
  for hm L dflt
proof
  show "run_steps (set_call_steps L dflt q) c = set_oper L dflt q c" for q c
    by (cases q) (auto simp: set_steps_defs set_local_defs split: list.splits prod.splits)
qed

subsection \<open>What the calls mean on a set\<close>

definition least_of :: "('k \<Rightarrow> 'k \<Rightarrow> bool) \<Rightarrow> 'k set \<Rightarrow> 'k \<Rightarrow> bool" where
  "least_of lt X y \<longleftrightarrow> y \<in> X \<and> (\<forall>x\<in>X. x = y \<or> lt y x)"

inductive set_spec ::
  "('k \<Rightarrow> 'k \<Rightarrow> bool) \<Rightarrow> 'k \<Rightarrow> 'k set_call \<Rightarrow> 'k set \<Rightarrow> 'k set_answer \<Rightarrow> 'k set \<Rightarrow> bool"
  for lt dflt where
  put: "set_spec lt dflt (SetPut k) X (Did True) (insert k X)"
| get: "set_spec lt dflt (SetGet k) X (Did (k \<in> X)) X"
| erase: "set_spec lt dflt (SetErase k) X (Did (k \<in> X)) (X - {k})"
| seek: "least_of lt X y \<Longrightarrow> set_spec lt dflt (SetSeekFirst i) X (First (True, y)) X"
| seek_none: "set_spec lt dflt (SetSeekFirst i) {} (First (False, dflt)) {}"
| pop: "least_of lt X y \<Longrightarrow> set_spec lt dflt (SetPopFirst i) X (First (True, y)) (X - {y})"
| pop_none: "set_spec lt dflt (SetPopFirst i) {} (First (False, dflt)) {}"

inductive_cases set_spec_cases: "set_spec lt dflt q X r Y"

context set_container
begin

lemma first_is_least:
  assumes "ok c" "elems L c = k # ks"
  shows "least_of lt (set (elems L c)) k" and "k \<notin> set ks"
  using strictly_ascending [OF assms(1)] distinct_set_elems [OF assms(1)]
  by (auto simp: least_of_def assms(2))

lemma set_oper_spec:
  assumes "ok c"
  shows "ok (snd (set_oper L dflt q c)) \<and>
         set_spec lt dflt q (set (elems L c)) (fst (set_oper L dflt q c))
           (set (elems L (snd (set_oper L dflt q c))))"
proof (cases q)
  case (SetPut k)
  then show ?thesis
    by (simp add: set_LocalPut_def ok_insert [OF assms] set_elems_insert [OF assms] put)
next
  case (SetGet k)
  have "set_LocalGet L k c = (k \<in> set (elems L c), c)"
    by (cases rule: find_cases [OF assms, of k]) (auto simp: set_LocalGet_def)
  then show ?thesis using SetGet assms get [of lt dflt k] by simp
next
  case (SetErase k)
  have "set_LocalErase L k c = (k \<in> set (elems L c), fst (tl_erase L k c))"
    using count_erase_pos [OF assms, of k] by (simp add: set_LocalErase_def split_beta)
  moreover have "set (elems L (fst (tl_erase L k c))) = set (elems L c) - {k}"
    by (auto simp: elems_erase [OF assms])
  ultimately show ?thesis
    using SetErase erase [of lt dflt k "set (elems L c)"] by (simp add: ok_erase [OF assms])
next
  case (SetSeekFirst i)
  show ?thesis
  proof (cases "elems L c")
    case Nil
    then show ?thesis
      using SetSeekFirst assms size_elems [OF assms] seek_none [of lt dflt i]
      by (simp add: set_LocalSeekFirst_def)
  next
    case (Cons k ks)
    then show ?thesis
      using SetSeekFirst assms size_elems [OF assms] begin_eq [OF assms]
        seek [OF first_is_least(1) [OF assms Cons], of dflt i]
      by (simp add: set_LocalSeekFirst_def)
  qed
next
  case (SetPopFirst i)
  note first = set_PopFirst_cases [OF assms, of dflt]
  show ?thesis
  proof (cases "elems L c")
    case Nil
    then show ?thesis
      using SetPopFirst first pop_none [of lt dflt i] by simp
  next
    case (Cons k ks)
    then show ?thesis
      using SetPopFirst first first_is_least(2) [OF assms Cons]
        pop [OF first_is_least(1) [OF assms Cons], of dflt i]
      by simp
  qed
qed

end

text \<open>How often a log pops a key from a server, and how often it puts it there.\<close>

definition pops_of :: "u16 \<Rightarrow> 'k \<Rightarrow> ('k set_call \<times> 'k set_answer) list \<Rightarrow> nat" where
  "pops_of i k log = count_list log (SetPopFirst i, First (True, k))"

definition puts_of :: "('k \<Rightarrow> u16) \<Rightarrow> u16 \<Rightarrow> 'k \<Rightarrow> ('k set_call \<times> 'k set_answer) list \<Rightarrow> nat" where
  "puts_of hm i k log = (if hm k = i then count_list (map fst log) (SetPut k) else 0)"

lemma set_step_balance:
  assumes "on_site (set_site hm) (set_spec lt dflt) q X r Y"
  shows "pops_of i k [(q, r)] + of_bool (k \<in> Y i) \<le> puts_of hm i k [(q, r)] + of_bool (k \<in> X i)"
proof -
  obtain x where x: "set_spec lt dflt q (X (set_site hm q)) r x" "Y = X(set_site hm q := x)"
    using assms by (auto simp: on_site_def)
  from x(1) show ?thesis
    by (cases rule: set_spec_cases)
      (auto simp: x(2) pops_of_def puts_of_def least_of_def of_bool_def split: if_splits)
qed

lemma set_run_balance:
  assumes "spec_run (on_site (set_site hm) (set_spec lt dflt)) qs X rs Y"
  shows "pops_of i k (zip qs rs) + of_bool (k \<in> Y i)
           \<le> puts_of hm i k (zip qs rs) + of_bool (k \<in> X i)"
  using assms
proof (induction rule: spec_run.induct)
  case (spec_finished a)
  then show ?case by (simp add: pops_of_def puts_of_def)
next
  case (spec_more q a r b qs rs c)
  have "pops_of i k (zip (q # qs) (r # rs)) = pops_of i k [(q, r)] + pops_of i k (zip qs rs)"
    "puts_of hm i k (zip (q # qs) (r # rs)) = puts_of hm i k [(q, r)] + puts_of hm i k (zip qs rs)"
    by (simp_all add: pops_of_def puts_of_def)
  then show ?case
    using set_step_balance [OF spec_more.hyps(1), of i k] spec_more.IH by linarith
qed

subsection \<open>Properties\<close>

text \<open>
  C8: Threads of any number of processes may run Put, Get, Erase, SeekFirst and PopFirst on the
  parts of a set and interleave inside the calls in any way: the calls that have returned
  answered what they answer on plain sets, one after the other in the order in which they
  released the mutex, the two on the first key always with the least one; a server nobody is
  inside of holds that set. A key is popped from a server at most as often as it was put there,
  and once more if it was there at the start. No call is stuck.
\<close>
theorem set_threads_pop_once:
  assumes "set_container L lt ok" "\<forall>i. ok (w i)"
    and "(locked_step (set_site hm) (set_call_steps L dflt))\<^sup>*\<^sup>* (threads_start w) s"
  shows "(\<exists>X. spec_run (on_site (set_site hm) (set_spec lt dflt)) (map fst (call_log s))
              (\<lambda>i. set (elems L (w i))) (map snd (call_log s)) X \<and>
            (\<forall>i. mutexes s i = None \<longrightarrow> set (elems L (structures s i)) = X i)) \<and>
         (\<forall>i k. pops_of i k (call_log s)
            \<le> puts_of hm i k (call_log s) + of_bool (k \<in> set (elems L (w i)))) \<and>
         (\<forall>t q. threads s t = Waiting q \<longrightarrow>
            (\<exists>s' log r. (locked_step (set_site hm) (set_call_steps L dflt))\<^sup>*\<^sup>* s s' \<and>
               call_log s' = call_log s @ log @ [(q, r)]))"
proof -
  obtain X where X: "spec_run (on_site (set_site hm) (set_spec lt dflt)) (map fst (call_log s))
      (\<lambda>i. set (elems L (w i))) (map snd (call_log s)) X"
    "\<forall>i. mutexes s i = None \<longrightarrow> set (elems L (structures s i)) = X i"
    using set_threads.threads_follow [where ok = ok and view = "\<lambda>c. set (elems L c)"
        and spec = "set_spec lt dflt", OF assms(3,2) set_container.set_oper_spec [OF assms(1)]]
    by blast
  have "pops_of i k (call_log s) \<le> puts_of hm i k (call_log s) + of_bool (k \<in> set (elems L (w i)))" for i k
    using set_run_balance [OF X(1), of i k] by (simp add: zip_map_fst_snd)
  then show ?thesis
    using X every_call_can_return [OF assms(3)] by blast
qed

definition sample_set_schedule :: "(nat \<times> nat set_call option) list" where
  "sample_set_schedule =
     [(0, Some (SetPopFirst 2)), (1, Some (SetPopFirst 2)), (0, None), (1, None), (0, None),
      (2, Some (SetPut 2)), (0, None), (1, None), (0, None), (0, None), (1, None), (2, None),
      (1, None), (1, None), (1, None), (1, None), (2, None), (2, None), (2, None)]"

lemma set_threads_pop_once_witness:
  "\<exists>s. (locked_step (set_site (\<lambda>_. 2)) (set_call_steps (list_set_lib (<)) 0))\<^sup>*\<^sup>*
          (threads_start (\<lambda>_. [2, 5, 8 :: nat])) s \<and>
     call_log s = [(SetPopFirst 2, First (True, 2)), (SetPopFirst 2, First (True, 5)), (SetPut 2, Did True)] \<and>
     pops_of 2 2 (call_log s) \<le> 2"
proof -
  let ?s = "run_schedule (set_site (\<lambda>_. 2)) (set_call_steps (list_set_lib (<)) 0) sample_set_schedule
      (\<lambda>_. [2, 5, 8 :: nat])"
  note run = run_schedule_reaches [of "set_site (\<lambda>_. 2)" "set_call_steps (list_set_lib (<)) 0"
      "\<lambda>_. [2, 5, 8 :: nat]" sample_set_schedule]
  have log: "call_log ?s
      = [(SetPopFirst 2, First (True, 2)), (SetPopFirst 2, First (True, 5)), (SetPut 2, Did True)]"
    by code_simp
  have "\<forall>i :: u16. sorted_wrt (<) ((\<lambda>_. [2, 5, 8 :: nat]) i)" by simp
  from set_threads_pop_once [OF list_set.set_container_axioms this run, THEN conjunct2, THEN conjunct1,
      rule_format, of 2 2]
  have "pops_of 2 2 (call_log ?s) \<le> puts_of (\<lambda>_. 2) 2 2 (call_log ?s) + 1"
    by (rule order_trans) simp
  then show ?thesis using run log by (auto simp: puts_of_def)
qed

end
