(* ===== verification/Concurrent_Gather.thy ===== *)
theory Concurrent_Gather
  imports Ordered_Map
begin

section \<open>GetAllData among the calls of others\<close>

text \<open>
  \<open>GetAllData\<close> and \<open>Contains\<close> visit one server after the other, and no lock is held between two
  visits: the calls of other clients run in between. \<open>env i\<close> is what they do to the servers
  before the loop looks at index \<open>i\<close>; where they do nothing the loop is the \<open>gather\<close> of
  \<open>Container_Object\<close>.
\<close>

fun gather_among ::
  "(nat \<Rightarrow> 'c world \<Rightarrow> 'c world) \<Rightarrow> (u16 \<Rightarrow> 'c world \<Rightarrow> 'a list result \<times> 'c world) \<Rightarrow> u16 \<Rightarrow>
     nat list \<Rightarrow> 'a list \<Rightarrow> 'c world \<Rightarrow> 'a list result \<times> 'c world" where
  "gather_among env ask my_server [] final_values w = (Inr final_values, w)"
| "gather_among env ask my_server (i # is) final_values w =
     (if int i \<noteq> uint my_server
      then (case ask (word_of_int (int i)) (env i w) of
              (Inl e, w') \<Rightarrow> (Inl e, w')
            | (Inr server, w') \<Rightarrow>
                gather_among env ask my_server is (final_values @ server) w')
      else gather_among env ask my_server is final_values (env i w))"

definition gather_all_among ::
  "(nat \<Rightarrow> 'c world \<Rightarrow> 'c world) \<Rightarrow> (u16 \<Rightarrow> 'c world \<Rightarrow> 'a list result \<times> 'c world) \<Rightarrow>
     ('c world \<Rightarrow> 'a list result \<times> 'c world) \<Rightarrow> container \<Rightarrow> 'c world \<Rightarrow>
     'a list result \<times> 'c world" where
  "gather_all_among env ask in_server obj w =
     (case in_server w of
        (Inl e, w') \<Rightarrow> (Inl e, w')
      | (Inr current_server, w') \<Rightarrow>
          gather_among env ask (obj_my_server obj) [0..<nat (obj_num_servers obj)]
            current_server w')"

lemma gather_among_nobody: "gather_among (\<lambda>_ w. w) ask my is acc w = gather ask my is acc w"
  by (induction "is" arbitrary: acc w) (simp_all split: prod.splits sum.splits)

lemma gather_all_among_nobody:
  "gather_all_among (\<lambda>_ w. w) ask in_server obj w = gather_all ask in_server obj w"
  by (simp add: gather_all_among_def gather_all_def gather_among_nobody split: prod.splits sum.splits)

subsection \<open>What the loop has seen\<close>

text \<open>
  \<open>at_visit W my i\<close> is the moment at which server \<open>i\<close> is asked, \<open>W t\<close> the world after the first
  \<open>t\<close> interruptions: the client's own server comes first, the others in the order of their
  indices. \<open>seen W my\<close> puts together what the servers held when they were asked.
\<close>

definition visit :: "u16 \<Rightarrow> u16 \<Rightarrow> nat" where
  "visit my i = (if i = my then 0 else Suc (unat i))"

definition seen :: "(nat \<Rightarrow> 'c world) \<Rightarrow> u16 \<Rightarrow> 'c world" where
  "seen W my i = W (visit my i) i"

lemma gather_among_reads:
  assumes "\<And>i w. unat i < n \<Longrightarrow> ask i w = (Inr (data (w i)), w)" "n \<le> 65536"
    and "\<And>t. W (Suc t) = env t (W t)"
  shows "j \<le> n \<Longrightarrow> gather_among env ask my [j..<n] acc (W j)
           = (Inr (acc @ concat (map (\<lambda>i. data (seen W my (word_of_nat i)))
                (filter (\<lambda>i. i \<noteq> unat my) [j..<n]))), W n)"
proof (induction j arbitrary: acc rule: inc_induct)
  case base
  then show ?case by simp
next
  case (step j)
  have "j < 65536" using step(2) assms(2) by simp
  then have u: "unat (word_of_nat j :: u16) = j"
    by (simp add: unat_of_nat)
  have my: "int j \<noteq> uint my \<longleftrightarrow> j \<noteq> unat my"
    by (simp only: uint_nat of_nat_eq_iff)
  have "ask (word_of_int (int j)) (env j (W j)) = (Inr (data (W (Suc j) (word_of_nat j))), W (Suc j))"
    using assms(1) [of "word_of_nat j"] u step(2) assms(3) by simp
  moreover have "j \<noteq> unat my \<Longrightarrow> W (Suc j) (word_of_nat j) = seen W my (word_of_nat j)"
    using u by (auto simp: seen_def visit_def)
  ultimately show ?case
    using step.hyps step.IH my assms(3) [of j] by (cases "j = unat my") (simp_all add: upt_conv_Cons)
qed

lemma gather_all_among_reads:
  assumes "client_ok obj"
    and "\<And>i w. unat i < n_servers obj \<Longrightarrow> ask i w = (Inr (data (w i)), w)"
    and "in_server (W 0) = (Inr (data (W 0 (obj_my_server obj))), W 0)"
    and "\<And>t. W (Suc t) = env t (W t)"
  shows "\<exists>xs. gather_all_among env ask in_server obj (W 0) = (Inr xs, W (n_servers obj)) \<and>
           mset xs = mset (concat (map (\<lambda>i. data (seen W (obj_my_server obj) (word_of_nat i)))
             [0..<n_servers obj]))"
proof -
  let ?n = "n_servers obj" and ?my = "obj_my_server obj"
  let ?f = "\<lambda>i. data (seen W ?my (word_of_nat i))"
  have n: "obj_num_servers obj = int ?n" "?n \<le> 65536" "unat ?my < ?n"
    using assms(1) by (simp_all add: client_ok_def)
  have "gather_all_among env ask in_server obj (W 0)
      = (Inr (?f (unat ?my) @ concat (map ?f (filter (\<lambda>i. i \<noteq> unat ?my) [0..<?n]))), W ?n)"
    using gather_among_reads [where W = W and env = env and ask = ask and data = data and n = ?n and j = 0]
      assms(2,4) n
    by (simp add: gather_all_among_def assms(3) seen_def visit_def)
  moreover have "mset (?f (unat ?my) @ concat (map ?f (filter (\<lambda>i. i \<noteq> unat ?my) [0..<?n])))
      = mset (concat (map ?f [0..<?n]))"
    using concat_map_insert [of "unat ?my" "[0..<?n]" ?f] n by simp
  ultimately show ?thesis by blast
qed

lemma refines_seen:
  assumes "\<And>t. refines hm ok lookup (W t) (M t)"
  shows "refines hm ok lookup (seen W my) (\<lambda>k. M (visit my (hm k)) k)"
proof -
  have "ok (W t i)" "lookup (W t i) k \<noteq> None \<Longrightarrow> hm k = i" "lookup (W t (hm k)) k = M t k" for t i k
    using assms [of t] by (auto simp: refines_def placed_def global_view_def dest: fun_cong [of _ _ k])
  then show ?thesis
    by (auto simp: refines_def placed_def global_view_def seen_def fun_eq_iff)
qed

subsection \<open>The calls of the others\<close>

text \<open>
  \<open>others t\<close> are the calls that run between the visits \<open>t\<close> and \<open>t + 1\<close>; \<open>map_after\<close> is the one
  map after the first \<open>t\<close> groups of them.
\<close>

definition after_calls ::
  "('q \<Rightarrow> 'w \<Rightarrow> 'r \<times> 'w) \<Rightarrow> (nat \<Rightarrow> 'q list) \<Rightarrow> 'w \<Rightarrow> nat \<Rightarrow> 'w" where
  "after_calls step others w t = snd (run_requests step (concat (map others [0..<t])) w)"

lemma after_calls_simps [simp]:
  "after_calls step others w 0 = w"
  "after_calls step others w (Suc t) = snd (run_requests step (others t) (after_calls step others w t))"
  by (simp_all add: after_calls_def run_requests_append split_beta)

lemma after_calls_map:
  "after_calls step (\<lambda>t. map f (others t)) w t = snd (run_requests step (map f (concat (map others [0..<t]))) w)"
  by (simp add: after_calls_def map_concat comp_def)

definition map_GetAllData_among ::
  "(nat \<Rightarrow> 'c world \<Rightarrow> 'c world) \<Rightarrow> ('k, 'v, 'c) env \<Rightarrow> ('k, 'k \<times> 'v, 'c) tree_lib \<Rightarrow> container \<Rightarrow>
     'c world \<Rightarrow> ('k \<times> 'v) list result \<times> 'c world" where
  "map_GetAllData_among env E L obj =
     gather_all_among env
       (\<lambda>i. RPC_CALL_WRAPPER E (obj_rpc obj) (obj_func_prefix obj) ''_GetAllData'' i as_pairs [])
       (map_GetAllDataInServer E L obj) obj"

lemma map_GetAllData_among_nobody: "map_GetAllData_among (\<lambda>_ w. w) E L obj w = map_GetAllData E L obj w"
  by (simp add: map_GetAllData_among_def map_GetAllData_def gather_all_among_nobody)

lemma map_after_calls_refine:
  assumes "map_container L lt ok" "compiled_in B impl"
    and "\<And>t. \<forall>r \<in> set (others t). joined n p (map_bindings B K L dflt impl p reg) (fst r)"
    and "refines (\<lambda>k. home n (keyHash K k)) ok (map_view L) w m"
  shows "refines (\<lambda>k. home n (keyHash K k)) ok (map_view L)
           (after_calls (map_request K L dflt) others w t)
           (after_calls (spec_request dflt) (\<lambda>t. map snd (others t)) m t)"
proof -
  have "map_request K L dflt q w = home_request (map_LocalPut L) (map_LocalGet L dflt)
      (map_LocalErase L dflt) (\<lambda>k. home n (keyHash K k)) (snd q) w"
    if "q \<in> set (concat (map others [0..<t]))" for q w
    using map_request_home [OF _ assms(2), of n p K L dflt reg "fst q" "snd q" w] assms(3) that
    by fastforce
  then show ?thesis
    using keyed_store.requests_refine [OF map_container.map_store [OF assms(1)] assms(4),
        of "concat (map others [0..<t])" "map_request K L dflt" dflt snd]
    by (simp add: after_calls_map) (simp add: after_calls_def)
qed

subsection \<open>Properties\<close>

text \<open>
  C14: while a client's GetAllData goes from server to server, other clients may Put, Get and
  Erase. Its answer has each key at most once, with the value the one map had at the moment
  the key's server was asked: the client's own server before all calls, server \<open>i\<close> after
  those that came before the loop reached \<open>i\<close>. A key whose value no call has changed is
  answered with it, but the answer as a whole need not be the map of any one moment.
\<close>
theorem map_GetAllData_among_writers:
  assumes "map_container L lt ok" "compiled_in B impl"
    and J: "joined n p (map_bindings B K L dflt impl p reg) (E, obj)"
    and "\<And>t. \<forall>r \<in> set (others t). joined n p (map_bindings B K L dflt impl p reg) (fst r)"
    and "refines (\<lambda>k. home n (keyHash K k)) ok (map_view L) w m"
  shows "\<exists>xs w'. map_GetAllData_among (\<lambda>t. snd \<circ> run_requests (map_request K L dflt) (others t)) E L obj w
             = (Inr xs, w') \<and> distinct (map fst xs) \<and>
           map_of xs = (\<lambda>k. after_calls (spec_request dflt) (\<lambda>t. map snd (others t)) m
             (visit (obj_my_server obj) (home n (keyHash K k))) k) \<and>
           refines (\<lambda>k. home n (keyHash K k)) ok (map_view L) w'
             (after_calls (spec_request dflt) (\<lambda>t. map snd (others t)) m n)"
proof -
  let ?W = "after_calls (map_request K L dflt) others w"
  note ans = map_answers(4) [OF assms(2)]
  note store = map_container.map_store [OF assms(1)]
  note R = map_after_calls_refine [where others = others, OF assms(1,2,4,5)]
  have read: "run_local (map_LocalGetAllDataInServer L) i v
      = (Inr (fst (map_LocalGetAllDataInServer L (v i))), v)" for i v
    by (rule run_local_read) (simp add: map_LocalGetAllDataInServer_def)
  have call: "RPC_CALL_WRAPPER E (obj_rpc obj) (obj_func_prefix obj) ''_GetAllData'' i as_pairs [] v
      = (Inr (fst (map_LocalGetAllDataInServer L (v i))), v)" if "unat i < n_servers obj" for i v
    using call_runs_home [OF J ans] that joinedD(3) [OF J] read by simp
  have here: "map_GetAllDataInServer E L obj v
      = (Inr (fst (map_LocalGetAllDataInServer L (v (obj_my_server obj)))), v)" for v
    by (simp add: map_GetAllDataInServer_def dispatch_in_server [OF J ans] read)
  have "\<exists>xs. map_GetAllData_among (\<lambda>t. snd \<circ> run_requests (map_request K L dflt) (others t)) E L obj (?W 0)
        = (Inr xs, ?W (n_servers obj)) \<and>
      mset xs = mset (concat (map (\<lambda>i. fst (map_LocalGetAllDataInServer L
        (seen ?W (obj_my_server obj) (word_of_nat i)))) [0..<n_servers obj]))"
    unfolding map_GetAllData_among_def
    by (rule gather_all_among_reads [where W = ?W]) (simp_all add: joinedD(1) [OF J] call here)
  then obtain xs where xs: "map_GetAllData_among (\<lambda>t. snd \<circ> run_requests (map_request K L dflt) (others t)) E L obj w
        = (Inr xs, ?W n)"
    "mset xs = mset (concat (map (\<lambda>i. fst (map_LocalGetAllDataInServer L
        (seen ?W (obj_my_server obj) (word_of_nat i)))) [0..<n]))"
    by (auto simp: joinedD [OF J])
  have "distinct (map fst xs) \<and> map_of xs = (\<lambda>k. after_calls (spec_request dflt) (\<lambda>t. map snd (others t)) m
      (visit (obj_my_server obj) (home n (keyHash K k))) k)"
    by (rule keyed_store.all_data_refines [OF store refines_seen [OF R] _ _ xs(2)])
      (use joinedD [OF J] in \<open>simp_all add: unat_home\<close>)
  then show ?thesis using xs(1) R [where t = n] by blast
qed

text \<open>
  A client next to server 0 gathers; before it asks server 1, another client puts the key 3,
  which belongs to server 0, and then the key 4, which belongs to server 1. The answer has the
  later entry and not the earlier one.
\<close>

definition sample_others :: "nat \<Rightarrow> ((nat, nat, (nat \<times> nat) list) client \<times> (nat, nat) request) list" where
  "sample_others t =
     (if t = 1
      then [(sample_client ''m'' (sample_map_reg ''m'') 2 False, PutReq 3 30),
            (sample_client ''m'' (sample_map_reg ''m'') 2 False, PutReq 4 40)]
      else [])"

lemma map_GetAllData_among_writers_witness:
  "\<exists>xs w'. map_GetAllData_among (\<lambda>t. snd \<circ> run_requests (map_request sample_keys (list_map_lib (<)) 0)
            (sample_others t)) (sample_env (sample_map_reg ''m'')) (list_map_lib (<))
            (sample_object ''m'' 0 True) (\<lambda>_. []) = (Inr xs, w') \<and>
     map_of xs 3 = None \<and> map_of xs 4 = Some 40"
proof -
  have others: "\<forall>r \<in> set (sample_others t). joined 3 ''m'' (map_bindings rpclib_only sample_keys
      (list_map_lib (<)) 0 RPCLIB ''m'' Map.empty) (fst r)" for t
    using sample_joined [of 2] by (auto simp: sample_others_def simp flip: sample_map_reg_def)
  have t: "after_calls (spec_request 0) (\<lambda>t. map snd (sample_others t)) Map.empty 0 = Map.empty"
    "after_calls (spec_request 0) (\<lambda>t. map snd (sample_others t)) Map.empty 2 = [3 \<mapsto> 30, 4 \<mapsto> 40]"
    by (simp_all add: numeral_2_eq_2 sample_others_def)
  have v: "visit 0 (home 3 3) = 0" "visit 0 (home 3 4) = 2"
    by (simp_all add: visit_def home_def)
  show ?thesis
    using map_GetAllData_among_writers [where others = sample_others,
        OF list_map.map_container_axioms rpclib_only_compiled
        sample_map_joined others list_map_empty_refines, of 0 True]
    by (auto simp: v t sample_object_def)
qed

end
