(* ===== verification/Life_Times.thy ===== *)
theory Life_Times
  imports Sample_Cluster Ordered_Map
begin

section \<open>The life of objects and their files\<close>

text \<open>
  \<open>Container_Object\<close> keeps the structures of a node in a map from paths. Here the files are
  those of the operating system: a process that has mapped a file keeps it, whatever becomes
  of its name. The constructors and destructors are written over the operations of
  \<open>managed_mapped_file\<close> and \<open>file_mapping\<close> they call. They refine the map from paths as long as
  names and files stay together; after a restart of a server they do not.
\<close>

subsection \<open>Mapped files\<close>

text \<open>
  \<open>fl_create\<close> creates a file and constructs the structure in it, \<open>None\<close> if the file exists;
  \<open>fl_open\<close> maps an existing file. A handle is what a process has mapped.
\<close>

record ('c, 'h, 'f) file_lib =
  fl_remove :: "string \<Rightarrow> 'f \<Rightarrow> 'f"
  fl_create :: "string \<Rightarrow> 'c segment \<Rightarrow> 'f \<Rightarrow> ('h \<times> 'f) option"
  fl_open :: "string \<Rightarrow> 'f \<Rightarrow> 'h option"
  fl_read :: "'h \<Rightarrow> 'f \<Rightarrow> 'c segment"
  fl_write :: "'h \<Rightarrow> 'c segment \<Rightarrow> 'f \<Rightarrow> 'f"

text \<open>
  What the sources rely on. Removing a file takes its name away and leaves every mapping as it
  is; no file has two names, and a new file has a handle no one has yet; a write through one handle is not seen through
  another.
\<close>

locale mapped_files =
  fixes F :: "('c, 'h, 'f) file_lib"
    and live :: "'h \<Rightarrow> 'f \<Rightarrow> bool"
    and ok :: "'f \<Rightarrow> bool"
  assumes ok_remove: "ok fs \<Longrightarrow> ok (fl_remove F path fs)"
    and open_remove: "fl_open F p (fl_remove F path fs) = (if p = path then None else fl_open F p fs)"
    and live_remove: "live h (fl_remove F path fs) \<longleftrightarrow> live h fs"
    and read_remove: "fl_read F h (fl_remove F path fs) = fl_read F h fs"
    and open_once: "ok fs \<Longrightarrow> fl_open F p fs = Some h \<Longrightarrow> fl_open F q fs = Some h \<Longrightarrow> p = q"
    and open_live: "ok fs \<Longrightarrow> fl_open F p fs = Some h \<Longrightarrow> live h fs"
    and create_exists: "fl_open F path fs \<noteq> None \<Longrightarrow> fl_create F path seg fs = None"
    and create_works: "ok fs \<Longrightarrow> fl_open F path fs = None \<Longrightarrow> fl_create F path seg fs \<noteq> None"
    and create_new: "ok fs \<Longrightarrow> fl_create F path seg fs = Some (h, fs') \<Longrightarrow>
      ok fs' \<and> \<not> live h fs \<and> live h fs' \<and> fl_read F h fs' = seg \<and>
      fl_open F p fs' = (if p = path then Some h else fl_open F p fs)"
    and create_keeps: "ok fs \<Longrightarrow> fl_create F path seg fs = Some (h, fs') \<Longrightarrow> live k fs \<Longrightarrow>
      live k fs' \<and> fl_read F k fs' = fl_read F k fs"
    and ok_write: "ok fs \<Longrightarrow> live h fs \<Longrightarrow> ok (fl_write F h seg fs)"
    and live_write: "live k (fl_write F h seg fs) \<longleftrightarrow> live k fs"
    and open_write: "fl_open F p (fl_write F h seg fs) = fl_open F p fs"
    and read_write: "live h fs \<Longrightarrow> live k fs \<Longrightarrow>
      fl_read F k (fl_write F h seg fs) = (if k = h then seg else fl_read F k fs)"

text \<open>A directory of numbered files meets the contract.\<close>

record 'c numbered =
  directory :: "string \<Rightarrow> nat option"
  contents :: "'c segment list"

definition numbered_lib :: "('c, nat, 'c numbered) file_lib" where
  "numbered_lib =
     \<lparr>fl_remove = (\<lambda>path fs. fs\<lparr>directory := (directory fs)(path := None)\<rparr>),
      fl_create = (\<lambda>path seg fs.
        if directory fs path \<noteq> None then None
        else Some (length (contents fs),
          fs\<lparr>directory := (directory fs)(path \<mapsto> length (contents fs)),
             contents := contents fs @ [seg]\<rparr>)),
      fl_open = (\<lambda>path fs. directory fs path),
      fl_read = (\<lambda>h fs. contents fs ! h),
      fl_write = (\<lambda>h seg fs. fs\<lparr>contents := (contents fs)[h := seg]\<rparr>)\<rparr>"

definition numbered_ok :: "'c numbered \<Rightarrow> bool" where
  "numbered_ok fs \<longleftrightarrow>
     (\<forall>path h. directory fs path = Some h \<longrightarrow> h < length (contents fs)) \<and>
     (\<forall>p q h. directory fs p = Some h \<longrightarrow> directory fs q = Some h \<longrightarrow> p = q)"

interpretation numbered: mapped_files numbered_lib "\<lambda>h fs. h < length (contents fs)" numbered_ok
  by unfold_locales
    (auto simp: numbered_lib_def numbered_ok_def nth_append nth_list_update less_Suc_eq
      split: if_splits)

subsection \<open>Constructors and destructors\<close>

text \<open>
  The part of a constructor that makes or finds the structure, for an object whose attributes
  are set; the result is the object's pointer, \<open>None\<close> for \<open>nullptr\<close>.
\<close>

definition map_structure ::
  "('c, 'h, 'f) file_lib \<Rightarrow> (container \<Rightarrow> string) \<Rightarrow> 'c \<Rightarrow> container \<Rightarrow> 'f \<Rightarrow> ('h option \<times> 'f) result"
  where
  "map_structure F obj_named initial obj fs =
     (if obj_is_server obj
      then
        let removed = fl_remove F (obj_backed_file obj) fs
        in (case fl_create F (obj_backed_file obj)
                   \<lparr>seg_memory = obj_memory_allocated obj, seg_object_name = obj_named obj,
                    seg_object = initial\<rparr> removed of
              None \<Rightarrow> Inl SegmentExists
            | Some (h, created) \<Rightarrow> Inr (Some h, created))
      else if obj_server_on_node obj
      then (case fl_open F (obj_backed_file obj) fs of
              None \<Rightarrow> Inl NoSegment
            | Some h \<Rightarrow>
                Inr (if seg_object_name (fl_read F h fs) = obj_named obj then Some h else None, fs))
      else Inr (None, fs))"

definition remove_structure :: "('c, 'h, 'f) file_lib \<Rightarrow> container \<Rightarrow> 'f \<Rightarrow> 'f" where
  "remove_structure F obj fs =
     (if obj_is_server obj then fl_remove F (obj_backed_file obj) fs else fs)"

text \<open>A local operation through the object's pointer.\<close>

definition through_pointer ::
  "('c, 'h, 'f) file_lib \<Rightarrow> 'h option \<Rightarrow> ('c \<Rightarrow> 'r \<times> 'c) \<Rightarrow> 'f \<Rightarrow> 'r result \<times> 'f" where
  "through_pointer F ptr f fs =
     (case ptr of
        None \<Rightarrow> (Inl NullPointer, fs)
      | Some h \<Rightarrow>
          let seg = fl_read F h fs
          in (case f (seg_object seg) of
                (r, c) \<Rightarrow> (Inr r, fl_write F h (seg\<lparr>seg_object := c\<rparr>) fs)))"

text \<open>The node of \<open>Container_Object\<close>: what is reached by name.\<close>

definition node_of :: "('c, 'h, 'f) file_lib \<Rightarrow> 'f \<Rightarrow> 'c node" where
  "node_of F fs path = map_option (\<lambda>h. fl_read F h fs) (fl_open F path fs)"

text \<open>Local operations of several processes, in some order: through which handle, and which.\<close>

fun run_through ::
  "('c, 'h, 'f) file_lib \<Rightarrow> ('h \<times> ('c \<Rightarrow> 'r \<times> 'c)) list \<Rightarrow> 'f \<Rightarrow> 'f" where
  "run_through F [] fs = fs"
| "run_through F ((h, f) # ops) fs = run_through F ops (snd (through_pointer F (Some h) f fs))"

fun run_on :: "'h \<Rightarrow> ('h \<times> ('c \<Rightarrow> 'r \<times> 'c)) list \<Rightarrow> 'c \<Rightarrow> 'c" where
  "run_on k [] c = c"
| "run_on k ((h, f) # ops) c = run_on k ops (if h = k then snd (f c) else c)"

lemma run_on_append: "run_on k (xs @ ys) c = run_on k ys (run_on k xs c)"
  by (induction xs arbitrary: c) auto

context mapped_files
begin

lemma through_live:
  assumes "ok fs" "live h fs"
  shows "ok (snd (through_pointer F (Some h) f fs))"
    and "live k (snd (through_pointer F (Some h) f fs)) \<longleftrightarrow> live k fs"
    and "fl_open F p (snd (through_pointer F (Some h) f fs)) = fl_open F p fs"
    and "live k fs \<Longrightarrow> seg_object (fl_read F k (snd (through_pointer F (Some h) f fs)))
           = (if h = k then snd (f (seg_object (fl_read F k fs))) else seg_object (fl_read F k fs))"
  using assms ok_write [OF assms]
  by (auto simp: through_pointer_def Let_def live_write open_write read_write split: prod.splits)

lemma run_through_live:
  assumes "ok fs" "\<forall>(h, f) \<in> set ops. live h fs"
  shows "ok (run_through F ops fs)"
    and "live k (run_through F ops fs) \<longleftrightarrow> live k fs"
    and "live k fs \<Longrightarrow>
      seg_object (fl_read F k (run_through F ops fs)) = run_on k ops (seg_object (fl_read F k fs))"
proof -
  have "ok (run_through F ops fs) \<and> (live k (run_through F ops fs) \<longleftrightarrow> live k fs) \<and>
        (live k fs \<longrightarrow>
           seg_object (fl_read F k (run_through F ops fs)) = run_on k ops (seg_object (fl_read F k fs)))"
    using assms
  proof (induction ops arbitrary: fs)
    case Nil
    then show ?case by simp
  next
    case (Cons op ops)
    obtain h f where op: "op = (h, f)" by fastforce
    have h: "live h fs" using Cons.prems(2) by (simp add: op)
    note step = through_live [where f = f, OF Cons.prems(1) h]
    show ?case
      using Cons.IH [of "snd (through_pointer F (Some h) f fs)"] Cons.prems step
      by (auto simp: op split_beta)
  qed
  then show "ok (run_through F ops fs)" "live k (run_through F ops fs) \<longleftrightarrow> live k fs"
    "live k fs \<Longrightarrow>
      seg_object (fl_read F k (run_through F ops fs)) = run_on k ops (seg_object (fl_read F k fs))"
    by blast+
qed

end

subsection \<open>Refinement of the map from paths\<close>

text \<open>
  While every object reaches its structure by name, the files are the node of
  \<open>Container_Object\<close>: the constructors, the destructors and the local operations do the same.
\<close>

context mapped_files
begin

lemma map_structure_server:
  assumes "ok fs" "obj_is_server obj"
  obtains h fs' where "map_structure F named initial obj fs = Inr (Some h, fs')" "ok fs'"
    "\<not> live h fs" "live h fs'" "seg_object (fl_read F h fs') = initial"
    "\<And>k. live k fs \<Longrightarrow> live k fs' \<and> fl_read F k fs' = fl_read F k fs"
    "\<And>p. fl_open F p fs' = (if p = obj_backed_file obj then Some h else fl_open F p fs)"
    "fl_read F h fs' = \<lparr>seg_memory = obj_memory_allocated obj, seg_object_name = named obj,
                        seg_object = initial\<rparr>"
proof -
  let ?path = "obj_backed_file obj" and ?fs = "fl_remove F (obj_backed_file obj) fs"
  let ?seg = "\<lparr>seg_memory = obj_memory_allocated obj, seg_object_name = named obj, seg_object = initial\<rparr>"
  note ok = ok_remove [OF assms(1), of ?path]
  obtain h fs' where c: "fl_create F ?path ?seg ?fs = Some (h, fs')"
    using create_works [OF ok, of ?path ?seg] by (auto simp: open_remove)
  note new = create_new [OF ok c] and keep = create_keeps [OF ok c]
  show thesis
    by (rule that [of h fs'])
      (use assms(2) c new keep in \<open>auto simp: map_structure_def live_remove read_remove open_remove\<close>)
qed

lemma map_structure_client:
  assumes "\<not> obj_is_server obj" "obj_server_on_node obj"
  shows "map_structure F named initial obj fs
           = (case fl_open F (obj_backed_file obj) fs of
                None \<Rightarrow> Inl NoSegment
              | Some h \<Rightarrow>
                  Inr (if seg_object_name (fl_read F h fs) = named obj then Some h else None, fs))"
  using assms by (simp add: map_structure_def)

lemma node_of_server:
  assumes "ok fs" "obj_is_server obj" "map_structure F named initial obj fs = Inr (ptr, fs')"
  shows "node_of F fs' = (node_of F fs)(obj_backed_file obj \<mapsto>
           \<lparr>seg_memory = obj_memory_allocated obj, seg_object_name = named obj, seg_object = initial\<rparr>)"
proof -
  obtain h where h: "\<And>k. live k fs \<Longrightarrow> fl_read F k fs' = fl_read F k fs"
    "\<And>p. fl_open F p fs' = (if p = obj_backed_file obj then Some h else fl_open F p fs)"
    "fl_read F h fs' = \<lparr>seg_memory = obj_memory_allocated obj, seg_object_name = named obj,
                        seg_object = initial\<rparr>"
    using map_structure_server [OF assms(1,2), of named initial] assms(3) by (metis Inr_inject prod.inject)
  show ?thesis
  proof
    show "node_of F fs' p = ((node_of F fs)(obj_backed_file obj \<mapsto>
        \<lparr>seg_memory = obj_memory_allocated obj, seg_object_name = named obj, seg_object = initial\<rparr>)) p" for p
      using h(1) open_live [OF assms(1), of p]
      by (cases "fl_open F p fs") (simp_all add: node_of_def h(2,3))
  qed
qed

lemma node_of_remove: "node_of F (remove_structure F obj fs) = destroy_container obj (node_of F fs)"
  by (simp add: node_of_def remove_structure_def destroy_container_def open_remove read_remove
      fun_eq_iff)

lemma node_of_through:
  assumes "ok fs" "fl_open F path fs = Some h"
  shows "node_of F (snd (through_pointer F (Some h) f fs))
           = (node_of F fs)(path \<mapsto> (fl_read F h fs)\<lparr>seg_object := snd (f (seg_object (fl_read F h fs)))\<rparr>)"
proof
  note h = open_live [OF assms]
  have other: "fl_open F p fs = Some k \<Longrightarrow> p \<noteq> path \<Longrightarrow> k \<noteq> h" for p k
    using open_once [OF assms(1)] assms(2) by blast
  show "node_of F (snd (through_pointer F (Some h) f fs)) p
      = ((node_of F fs)(path \<mapsto> (fl_read F h fs)\<lparr>seg_object := snd (f (seg_object (fl_read F h fs)))\<rparr>)) p" for p
    using assms(2) h other [of p] open_live [OF assms(1), of p]
    by (cases "fl_open F p fs")
      (auto simp: node_of_def through_pointer_def Let_def open_write read_write split: prod.splits)
qed

end

lemma construct_over_files:
  assumes "mapped_files F live ok" "ok fs"
    and "new_container B files mpi nam st = Inr (obj, st')"
  shows "construct_container B files mpi nam named initial binds st (node_of F fs, reg)
           = bind_result (map_structure F named initial obj fs) (\<lambda>(ptr, fs').
               Inr (obj, map_option (\<lambda>_. obj_backed_file obj) ptr, st', node_of F fs',
                    if obj_is_server obj
                    then binds (RPC_IMPLEMENTATION (fst st')) (obj_func_prefix obj) reg else reg))"
proof (cases "obj_is_server obj")
  case True
  note server = mapped_files.map_structure_server [OF assms(1,2) True, of named initial]
  obtain h fs' where m: "map_structure F named initial obj fs = Inr (Some h, fs')"
    by (rule server)
  show ?thesis
    using True mapped_files.node_of_server [OF assms(1,2) True m]
    by (cases st') (simp add: construct_container_def assms(3) m)
next
  case False
  then show ?thesis
    by (cases st'; cases "fl_open F (obj_backed_file obj) fs")
      (auto simp: construct_container_def assms(3) map_structure_def node_of_def)
qed

text \<open>
  C21: A container over real files is the container of the node's map from paths: in any
  directory the constructor makes or finds the same structure, with the same error when a
  client opens a file that is missing and the same null pointer when it finds no structure of
  its name; the destructor removes the same file; and a local operation through a pointer that
  was reached by name changes that structure alone.
\<close>
theorem containers_over_files:
  assumes "mapped_files F live ok" "ok fs"
    and "new_container B files mpi nam st = Inr (obj, st')"
  shows "construct_container B files mpi nam named initial binds st (node_of F fs, reg)
           = bind_result (map_structure F named initial obj fs) (\<lambda>(ptr, fs').
               Inr (obj, map_option (\<lambda>_. obj_backed_file obj) ptr, st', node_of F fs',
                    if obj_is_server obj
                    then binds (RPC_IMPLEMENTATION (fst st')) (obj_func_prefix obj) reg else reg)) \<and>
         node_of F (remove_structure F obj fs) = destroy_container obj (node_of F fs) \<and>
         (\<forall>path h f. fl_open F path fs = Some h \<longrightarrow>
            node_of F (snd (through_pointer F (Some h) f fs))
              = (node_of F fs)(path \<mapsto>
                  (fl_read F h fs)\<lparr>seg_object := snd (f (seg_object (fl_read F h fs)))\<rparr>))"
  using construct_over_files [OF assms, of named initial binds reg]
    mapped_files.node_of_remove [OF assms(1)] mapped_files.node_of_through [OF assms(1,2)]
  by blast

definition no_files :: "'c numbered" where
  "no_files = \<lparr>directory = Map.empty, contents = []\<rparr>"

lemma no_files_ok [simp]: "numbered_ok no_files"
  by (simp add: numbered_ok_def no_files_def)

lemma containers_over_files_witness:
  "\<exists>obj st' fs'.
     construct_container rpclib_only two_hosts (8, 7) ''m'' obj_name (0 :: nat) (\<lambda>_ _ r. r)
       (sample_conf True, Map.empty)
       (node_of numbered_lib no_files, Map.empty :: (nat, nat, nat) registry)
       = Inr (obj, Some (obj_backed_file obj), st', node_of numbered_lib fs', Map.empty) \<and>
     map_structure numbered_lib obj_name 0 obj no_files = Inr (Some 0, fs') \<and>
     node_of numbered_lib (remove_structure numbered_lib obj fs')
       = destroy_container obj (node_of numbered_lib fs')"
proof -
  obtain obj c r where n:
    "new_container rpclib_only two_hosts (8, 7) ''m'' (sample_conf True, Map.empty) = Inr (obj, c, r)"
    using sample_new_container by blast
  have server: "obj_is_server obj"
    using new_container_Inr [OF n] by (simp add: sample_conf_def)
  obtain fs' where m: "map_structure numbered_lib obj_name (0 :: nat) obj no_files = Inr (Some 0, fs')"
    using server by (simp add: map_structure_def numbered_lib_def no_files_def)
  have ok: "numbered_ok fs'"
    by (rule mapped_files.map_structure_server
        [OF numbered.mapped_files_axioms no_files_ok server, of obj_name "0 :: nat"])
      (use m in simp)
  note new = containers_over_files [OF numbered.mapped_files_axioms no_files_ok n, where named = obj_name
      and initial = "0 :: nat" and binds = "\<lambda>_ _ r. r" and reg = "Map.empty :: (nat, nat, nat) registry"]
  have "construct_container rpclib_only two_hosts (8, 7) ''m'' obj_name (0 :: nat) (\<lambda>_ _ r. r)
       (sample_conf True, Map.empty)
       (node_of numbered_lib no_files, Map.empty :: (nat, nat, nat) registry)
       = Inr (obj, Some (obj_backed_file obj), (c, r), node_of numbered_lib fs', Map.empty)"
    using conjunct1 [OF new] by (simp only: m) (simp add: bind_result_def)
  moreover have "node_of numbered_lib (remove_structure numbered_lib obj fs')
      = destroy_container obj (node_of numbered_lib fs')"
    using containers_over_files [OF numbered.mapped_files_axioms ok n] by blast
  ultimately show ?thesis
    using m by (intro exI [of _ obj] exI [of _ "(c, r)"] exI [of _ fs'] conjI)
qed

subsection \<open>Objects that outlive the server\<close>

text \<open>A server of the map, and one that is started again later.\<close>

definition restart_server ::
  "('c, 'h, 'f) file_lib \<Rightarrow> (container \<Rightarrow> string) \<Rightarrow> 'c \<Rightarrow> container \<Rightarrow> 'f \<Rightarrow> ('h option \<times> 'f) result"
  where
  "restart_server F obj_named initial obj fs =
     map_structure F obj_named initial obj (remove_structure F obj fs)"

text \<open>
  C12: A client that has mapped the structure of a server keeps that structure when the server
  is destroyed and started again on the same path. The new server has another, empty one: from
  then on, however the calls through the two pointers interleave, each structure goes through
  exactly the operations of its own pointer, so nothing the client writes reaches the server
  and nothing the server writes reaches the client.
\<close>
theorem clients_miss_a_restart:
  assumes "mapped_files F live ok" "ok fs" "obj_is_server server"
    and "\<not> obj_is_server client" "obj_server_on_node client"
    and "obj_backed_file client = obj_backed_file server" "named client = named server"
  shows "\<exists>h fs1. map_structure F named initial server fs = Inr (Some h, fs1) \<and>
    map_structure F named initial client fs1 = Inr (Some h, fs1) \<and>
    (\<forall>before. \<exists>h' fs2.
       restart_server F named initial server (run_through F (map (Pair h) before) fs1)
         = Inr (Some h', fs2) \<and> h' \<noteq> h \<and>
       map_structure F named initial client fs2 = Inr (Some h', fs2) \<and>
       (\<forall>calls. set (map fst calls) \<subseteq> {h, h'} \<longrightarrow>
          seg_object (fl_read F h (run_through F calls fs2))
            = run_on h (map (Pair h) before @ calls) initial \<and>
          seg_object (fl_read F h' (run_through F calls fs2)) = run_on h' calls initial))"
proof -
  note server = mapped_files.map_structure_server [OF assms(1) _ assms(3), of _ named initial]
  note client = mapped_files.map_structure_client [OF assms(1,4,5), of named initial]
  note run = mapped_files.run_through_live [OF assms(1)]
  obtain h fs1 where h: "map_structure F named initial server fs = Inr (Some h, fs1)" "ok fs1"
    "live h fs1" "seg_object (fl_read F h fs1) = initial"
    "fl_open F (obj_backed_file server) fs1 = Some h"
    "seg_object_name (fl_read F h fs1) = named server"
    by (rule server [OF assms(2)]) simp
  have "\<exists>h' fs2.
       restart_server F named initial server (run_through F (map (Pair h) before) fs1)
         = Inr (Some h', fs2) \<and> h' \<noteq> h \<and>
       map_structure F named initial client fs2 = Inr (Some h', fs2) \<and>
       (\<forall>calls. set (map fst calls) \<subseteq> {h, h'} \<longrightarrow>
          seg_object (fl_read F h (run_through F calls fs2))
            = run_on h (map (Pair h) before @ calls) initial \<and>
          seg_object (fl_read F h' (run_through F calls fs2)) = run_on h' calls initial)" for before
  proof -
    let ?ops = "map (Pair h) before" and ?fs = "run_through F (map (Pair h) before) fs1"
    have "\<forall>(k, f) \<in> set ?ops. live k fs1" using h(3) by auto
    note old = run [OF h(2) this]
    note ok = mapped_files.ok_remove [OF assms(1) old(1), of "obj_backed_file server"]
    have gone: "remove_structure F server ?fs = fl_remove F (obj_backed_file server) ?fs"
      using assms(3) by (simp add: remove_structure_def)
    have live: "live h (fl_remove F (obj_backed_file server) ?fs)"
      using old(2) h(3) by (simp add: mapped_files.live_remove [OF assms(1)])
    obtain h' fs2 where h': "restart_server F named initial server ?fs = Inr (Some h', fs2)"
      "ok fs2" "h' \<noteq> h" "live h' fs2" "live h fs2" "seg_object (fl_read F h' fs2) = initial"
      "fl_read F h fs2 = fl_read F h ?fs" "fl_open F (obj_backed_file server) fs2 = Some h'"
      "seg_object_name (fl_read F h' fs2) = named server"
      by (rule server [OF ok])
        (use live in \<open>simp add: restart_server_def gone mapped_files.read_remove [OF assms(1)]; blast\<close>)
    have "seg_object (fl_read F h (run_through F calls fs2)) = run_on h (?ops @ calls) initial \<and>
        seg_object (fl_read F h' (run_through F calls fs2)) = run_on h' calls initial"
      if "set (map fst calls) \<subseteq> {h, h'}" for calls
    proof -
      have "\<forall>(k, f) \<in> set calls. live k fs2" using that h'(4,5) by force
      from run(3) [OF h'(2) this] show ?thesis
        using h'(4-7) h(3,4) old(3) by (simp add: run_on_append)
    qed
    then show ?thesis using h'(1,3,8,9) assms(6,7) by (simp add: client)
  qed
  moreover have "map_structure F named initial client fs1 = Inr (Some h, fs1)"
    using h(5,6) assms(6,7) by (simp add: client)
  ultimately show ?thesis using h(1) by blast
qed

lemma clients_miss_a_restart_witness:
  "\<exists>h h' fs1 fs2.
     map_structure numbered_lib obj_name [] ((sample_object ''m'' 0 True)\<lparr>obj_is_server := True\<rparr>)
       no_files = Inr (Some h, fs1) \<and>
     restart_server numbered_lib obj_name [] ((sample_object ''m'' 0 True)\<lparr>obj_is_server := True\<rparr>)
       (run_through numbered_lib [(h, map_LocalPut (list_map_lib (<)) (4 :: nat) (40 :: nat))] fs1)
       = Inr (Some h', fs2) \<and>
     (let calls = [(h, map_LocalPut (list_map_lib (<)) 2 20), (h', map_LocalPut (list_map_lib (<)) 3 30)] in
        seg_object (fl_read numbered_lib h (run_through numbered_lib calls fs2)) = [(2, 20), (4, 40)] \<and>
        seg_object (fl_read numbered_lib h' (run_through numbered_lib calls fs2)) = [(3, 30)])"
proof -
  let ?client = "sample_object ''m'' 0 True"
  let ?server = "?client\<lparr>obj_is_server := True\<rparr>"
  let ?put = "map_LocalPut (list_map_lib (<)) :: nat \<Rightarrow> nat \<Rightarrow> _"
  have puts: "snd (?put 4 40 []) = [(4, 40)]" "snd (?put 2 20 [(4, 40)]) = [(2, 20), (4, 40)]"
    "snd (?put 3 30 []) = [(3, 30)]"
    by code_simp+
  obtain h fs1 where h: "map_structure numbered_lib obj_name ([] :: (nat \<times> nat) list) ?server no_files
        = Inr (Some h, fs1)"
    and rest: "\<forall>before. \<exists>h' fs2.
       restart_server numbered_lib obj_name [] ?server (run_through numbered_lib
           (map (Pair h) (before :: ((nat \<times> nat) list \<Rightarrow> bool \<times> (nat \<times> nat) list) list)) fs1)
         = Inr (Some h', fs2) \<and> h' \<noteq> h \<and>
       map_structure numbered_lib obj_name [] ?client fs2 = Inr (Some h', fs2) \<and>
       (\<forall>calls. set (map fst calls) \<subseteq> {h, h'} \<longrightarrow>
          seg_object (fl_read numbered_lib h (run_through numbered_lib calls fs2))
            = run_on h (map (Pair h) before @ calls) [] \<and>
          seg_object (fl_read numbered_lib h' (run_through numbered_lib calls fs2)) = run_on h' calls [])"
    using clients_miss_a_restart [OF numbered.mapped_files_axioms no_files_ok,
        of ?server ?client obj_name "[]"]
    by (simp add: sample_object_def) blast
  obtain h' fs2 where h': "restart_server numbered_lib obj_name [] ?server
      (run_through numbered_lib [(h, ?put 4 40)] fs1) = Inr (Some h', fs2)" "h' \<noteq> h"
    "\<forall>calls. set (map fst calls) \<subseteq> {h, h'} \<longrightarrow>
          seg_object (fl_read numbered_lib h (run_through numbered_lib calls fs2))
            = run_on h ((h, ?put 4 40) # calls) [] \<and>
          seg_object (fl_read numbered_lib h' (run_through numbered_lib calls fs2)) = run_on h' calls []"
    using rest [rule_format, of "[?put 4 40]"] by auto
  show ?thesis
    using h h'(1,2) h'(3) [rule_format, of "[(h, ?put 2 20), (h', ?put 3 30)]"]
    by (intro exI [of _ h] exI [of _ h'] exI [of _ fs1] exI [of _ fs2]) (simp add: puts)
qed

subsection \<open>Bound functions that outlive the object\<close>

text \<open>
  The constructors bind \<open>std::bind(&map::LocalPut, this, ...)\<close>. A server process is what its
  objects at their addresses point to, and the files. \<open>bind_this\<close> is what the function bound
  does: run with decoded arguments, it reads the pointer of the object at \<open>this\<close>, if there still
  is one.
\<close>

type_synonym ('h, 'f) server_process = "(nat \<Rightarrow> 'h option) \<times> 'f"

definition bind_this ::
  "('c, 'h, 'f) file_lib \<Rightarrow> nat \<Rightarrow> ('k, 'v, 'c) handler \<Rightarrow> ('k, 'v, ('h, 'f) server_process) handler"
  where
  "bind_this F this func args s =
     (case s of (objs, fs) \<Rightarrow>
        (case objs this of
           None \<Rightarrow> (Inl DanglingPointer, (objs, fs))
         | Some h \<Rightarrow>
             let seg = fl_read F h fs
             in (case func args (seg_object seg) of
                   (r, c) \<Rightarrow> (r, (objs, fl_write F h (seg\<lparr>seg_object := c\<rparr>) fs)))))"

text \<open>
  The \<open>RPC\<close> of the process belongs to the factory and keeps, for each name, the object and the
  member function bound last. It looks a name up when the call arrives.
\<close>

type_synonym ('k, 'v, 'c) bound_members = "string \<Rightarrow> (nat \<times> ('k, 'v, 'c) handler) option"

type_synonym ('k, 'v, 'c, 'h, 'f) rpc_process = "('h, 'f) server_process \<times> ('k, 'v, 'c) bound_members"

definition dispatch_call ::
  "('c, 'h, 'f) file_lib \<Rightarrow> string \<Rightarrow> ('k, 'v, ('k, 'v, 'c, 'h, 'f) rpc_process) handler" where
  "dispatch_call F nam args s =
     (case s of (proc, bound) \<Rightarrow>
        (case bound nam of
           None \<Rightarrow> (Inl (UnboundFunction nam), s)
         | Some (this, func) \<Rightarrow>
             (case bind_this F this func args proc of (r, proc') \<Rightarrow> (r, (proc', bound)))))"

definition rpc_server :: "('c, 'h, 'f) file_lib \<Rightarrow> ('k, 'v, ('k, 'v, 'c, 'h, 'f) rpc_process) registry" where
  "rpc_server F = (\<lambda>nam. Some (dispatch_call F nam))"

text \<open>
  A constructor, from the point where the attributes are set, places the object at \<open>this\<close>: it
  makes or finds the structure and, on a server, binds \<open>this\<close> and its member functions. The
  destructor ends the life of the object at \<open>this\<close> after its body has run.
\<close>

definition construct_object ::
  "('c, 'h, 'f) file_lib \<Rightarrow> 'c \<Rightarrow> (string \<Rightarrow> ('k, 'v, 'c) registry \<Rightarrow> ('k, 'v, 'c) registry) \<Rightarrow>
     nat \<Rightarrow> container \<Rightarrow> ('k, 'v, 'c, 'h, 'f) rpc_process \<Rightarrow> ('k, 'v, 'c, 'h, 'f) rpc_process result"
  where
  "construct_object F initial bindings this obj s =
     (case s of ((objs, fs), bound) \<Rightarrow>
        bind_result (map_structure F obj_name initial obj fs) (\<lambda>(ptr, fs').
          Inr ((objs(this := ptr), fs'),
               if obj_is_server obj
               then bound ++ (\<lambda>nam. map_option (Pair this) (bindings (obj_func_prefix obj) Map.empty nam))
               else bound)))"

definition destroy_object ::
  "('c, 'h, 'f) file_lib \<Rightarrow> nat \<Rightarrow> container \<Rightarrow> ('k, 'v, 'c, 'h, 'f) rpc_process \<Rightarrow>
     ('k, 'v, 'c, 'h, 'f) rpc_process" where
  "destroy_object F this obj s =
     (case s of ((objs, fs), bound) \<Rightarrow> ((objs(this := None), remove_structure F obj fs), bound))"

lemma dispatch_bound:
  assumes "served_calls E P (rpc_server F)" "unat i < length (server_list P)"
    and "w i = ((objs, fs), bound)" "bound (p @ nam) = Some (this, func)"
    and "\<And>c. \<exists>x. func args c = (Inr x, snd (f c)) \<and> as_ret x = Some (fst (f c))"
  shows "objs this = Some h \<Longrightarrow>
      RPC_CALL_WRAPPER E P p nam i as_ret args w
        = (fst (through_pointer F (Some h) f fs),
           w(i := ((objs, snd (through_pointer F (Some h) f fs)), bound)))"
    and "objs this = None \<Longrightarrow>
      RPC_CALL_WRAPPER E P p nam i as_ret args w = (Inl DanglingPointer, w)"
proof -
  have here: "rpc_server F (p @ nam) = Some (dispatch_call F (p @ nam))"
    by (simp add: rpc_server_def)
  obtain x where x: "func args (seg_object (fl_read F h fs)) = (Inr x, snd (f (seg_object (fl_read F h fs))))"
    "as_ret x = Some (fst (f (seg_object (fl_read F h fs))))"
    using assms(5) by blast
  note served = served_calls.wrapper_served [OF assms(1,2) here]
    served_calls.wrapper_fails [OF assms(1,2) here]
  show "RPC_CALL_WRAPPER E P p nam i as_ret args w
      = (fst (through_pointer F (Some h) f fs), w(i := ((objs, snd (through_pointer F (Some h) f fs)), bound)))"
    if "objs this = Some h"
    using that assms(3,4)
    by (auto simp: x dispatch_call_def bind_this_def through_pointer_def split_beta Let_def intro!: served)
  show "RPC_CALL_WRAPPER E P p nam i as_ret args w = (Inl DanglingPointer, w)" if "objs this = None"
    by (rule served(2)) (simp add: that assms(3,4) dispatch_call_def bind_this_def)
qed

lemma dispatch_unbound:
  assumes "served_calls E P (rpc_server F)" "unat i < length (server_list P)"
    and "snd (w i) (p @ nam) = None"
  shows "RPC_CALL_WRAPPER E P p nam i as_ret args w = (Inl (UnboundFunction (p @ nam)), w)"
  by (rule served_calls.wrapper_fails [OF assms(1,2), where h = "dispatch_call F (p @ nam)"])
    (use assms(3) in \<open>auto simp: rpc_server_def dispatch_call_def split: prod.splits\<close>)



end
