(* ===== verification/Shared_Server.thy ===== *)
theory Shared_Server
  imports Life_Times Locked_Steps
begin

section \<open>Containers that share their servers\<close>

text \<open>
  A program has several containers on the same servers: their files lie in one directory, and
  their functions are bound in one registry. Here two maps of different names are constructed
  in every server process and called in any order. Their names keep apart what they own: no two
  files and no two bound functions have the same name, and a call on one map leaves the
  structure of the other as it is.
\<close>

subsection \<open>Names\<close>

lemma split_at_last:
  assumes "xs @ c # ds = ys @ c # es" "c \<notin> set ds" "c \<notin> set es"
  shows "xs = ys \<and> ds = es"
proof -
  have "takeWhile (\<lambda>x. x \<noteq> c) (rev (xs @ c # ds)) = takeWhile (\<lambda>x. x \<noteq> c) (rev (ys @ c # es))"
    using assms(1) by simp
  moreover have "takeWhile (\<lambda>x. x \<noteq> c) (rev (zs @ c # fs)) = rev fs" if "c \<notin> set fs" for zs fs
    using that by (auto simp: takeWhile_append takeWhile_eq_all_conv)
  ultimately have "ds = es" using assms(2,3) by simp
  then show ?thesis using assms(1) by simp
qed

lemma to_string_no_underscore: "CHR ''_'' \<notin> set (to_string i)"
proof -
  have "\<not> is_digit (CHR ''_'')" by (simp add: is_digit_def)
  then show ?thesis
    using nat_digits_are_digits by (auto simp: to_string_def)
qed

text \<open>The path of a container's file on a server determines the container's name and the server.\<close>

definition backed_file_of :: "string \<Rightarrow> string \<Rightarrow> u16 \<Rightarrow> string" where
  "backed_file_of dir nam my_server = dir @ path_separator @ nam @ ''_'' @ to_string (uint my_server)"

lemma backed_file_inject:
  "backed_file_of dir p i = backed_file_of dir q j \<longleftrightarrow> p = q \<and> i = j"
proof
  assume "backed_file_of dir p i = backed_file_of dir q j"
  then have "p @ CHR ''_'' # to_string (uint i) = q @ CHR ''_'' # to_string (uint j)"
    by (simp add: backed_file_of_def)
  from split_at_last [OF this to_string_no_underscore to_string_no_underscore]
  show "p = q \<and> i = j" by (simp add: word_uint_eq_iff)
qed simp

text \<open>The functions of map begin with an underscore and have no other.\<close>

definition map_binds ::
  "'k key_ops \<Rightarrow> ('k, 'k \<times> 'v, 'c) tree_lib \<Rightarrow> 'v \<Rightarrow> (string \<times> ('k, 'v, 'c) handler) list" where
  "map_binds K L dflt =
     [(''_Put'', handle_key_val WBool (map_LocalPut L)),
      (''_Get'', handle_key (\<lambda>(b, v). WFoundVal b v) (map_LocalGet L dflt)),
      (''_Erase'', handle_key (\<lambda>(b, v). WFoundVal b v) (map_LocalErase L dflt)),
      (''_GetAllData'', handle0 WPairs (map_LocalGetAllDataInServer L)),
      (''_Contains'', handle_key_key WPairs (map_LocalContainsInServer K L))]"

lemma map_bindings_all: "map_bindings B K L dflt impl p reg = bind_all B impl p (map_binds K L dflt) reg"
  by (simp add: map_bindings_def map_binds_def)

definition function_name :: "string \<Rightarrow> bool" where
  "function_name nam \<longleftrightarrow> (\<exists>ds. nam = CHR ''_'' # ds \<and> CHR ''_'' \<notin> set ds)"

lemma map_binds_names: "\<forall>(nam, h) \<in> set (map_binds K L dflt). function_name nam"
  by (simp add: map_binds_def function_name_def)

lemma function_names_apart:
  "function_name a \<Longrightarrow> function_name b \<Longrightarrow> p \<noteq> q \<Longrightarrow> p @ a \<noteq> q @ b"
  using split_at_last by (fastforce simp: function_name_def)

lemma bind_all_apart:
  assumes "p \<noteq> q" "function_name a" "\<forall>(nam, h) \<in> set hs. function_name nam"
  shows "bind_all B impl q hs (RPC_bind B' impl' (p @ a) f reg)
           = RPC_bind B' impl' (p @ a) f (bind_all B impl q hs reg)"
  using assms(3)
proof (induction hs arbitrary: reg)
  case Nil
  then show ?case by simp
next
  case (Cons x hs)
  obtain b g where x: "x = (b, g)" by fastforce
  have "p @ a \<noteq> q @ b"
    using function_names_apart [OF assms(2) _ assms(1)] Cons.prems by (simp add: x)
  then have "RPC_bind B impl (q @ b) g (RPC_bind B' impl' (p @ a) f reg)
      = RPC_bind B' impl' (p @ a) f (RPC_bind B impl (q @ b) g reg)"
    by (auto simp: RPC_bind_def fun_upd_twist)
  then show ?case using Cons by (simp add: x)
qed

lemma bind_all_commute:
  assumes "p \<noteq> q" "\<forall>(nam, h) \<in> set gs. function_name nam" "\<forall>(nam, h) \<in> set hs. function_name nam"
  shows "bind_all B impl q hs (bind_all B' impl' p gs reg)
           = bind_all B' impl' p gs (bind_all B impl q hs reg)"
  using assms(2)
  by (induction gs arbitrary: reg) (auto simp: bind_all_apart [OF assms(1) _ assms(3)])

text \<open>Two maps of different names bind their functions in any order.\<close>

lemma map_bindings_commute:
  "p \<noteq> q \<Longrightarrow> map_bindings B K L dflt impl q (map_bindings B K' L' dflt' impl p reg)
     = map_bindings B K' L' dflt' impl p (map_bindings B K L dflt impl q reg)"
  unfolding map_bindings_all by (rule bind_all_commute) (simp_all add: map_binds_names)

subsection \<open>A container inside a larger state\<close>

text \<open>
  \<open>get\<close> reads a container's structure out of a state and \<open>put\<close> writes it back. The library of
  the container, working on the state, is again one that keeps the container's contract.
\<close>

locale state_part =
  fixes get :: "'s \<Rightarrow> 'c"
    and put :: "'c \<Rightarrow> 's \<Rightarrow> 's"
    and holds :: "'s \<Rightarrow> bool"
  assumes get_put: "holds s \<Longrightarrow> get (put c s) = c"
    and inv_put: "holds s \<Longrightarrow> holds (put c s)"

definition lib_in ::
  "('s \<Rightarrow> 'c) \<Rightarrow> ('c \<Rightarrow> 's \<Rightarrow> 's) \<Rightarrow> 's \<Rightarrow> ('k, 'e, 'c) tree_lib \<Rightarrow> ('k, 'e, 's) tree_lib" where
  "lib_in get put s0 L =
     \<lparr>tl_empty = s0,
      tl_size = (\<lambda>s. tl_size L (get s)),
      tl_begin = (\<lambda>s. tl_begin L (get s)),
      tl_find = (\<lambda>k s. tl_find L k (get s)),
      tl_lower_bound = (\<lambda>k s. tl_lower_bound L k (get s)),
      tl_insert = (\<lambda>e s. put (tl_insert L e (get s)) s),
      tl_insert_or_assign = (\<lambda>e s. put (tl_insert_or_assign L e (get s)) s),
      tl_erase = (\<lambda>k s. (put (fst (tl_erase L k (get s))) s, snd (tl_erase L k (get s)))),
      tl_erase_at = (\<lambda>it s. put (tl_erase_at L it (get s)) s)\<rparr>"

lemma lib_in_simps [simp]:
  "tl_empty (lib_in get put s0 L) = s0"
  "tl_size (lib_in get put s0 L) s = tl_size L (get s)"
  "tl_begin (lib_in get put s0 L) s = tl_begin L (get s)"
  "tl_find (lib_in get put s0 L) k s = tl_find L k (get s)"
  "tl_lower_bound (lib_in get put s0 L) k s = tl_lower_bound L k (get s)"
  "tl_insert (lib_in get put s0 L) e s = put (tl_insert L e (get s)) s"
  "tl_insert_or_assign (lib_in get put s0 L) e s = put (tl_insert_or_assign L e (get s)) s"
  "tl_erase (lib_in get put s0 L) k s
     = (put (fst (tl_erase L k (get s))) s, snd (tl_erase L k (get s)))"
  "tl_erase_at (lib_in get put s0 L) it s = put (tl_erase_at L it (get s)) s"
  by (simp_all add: lib_in_def)

lemma elems_lib_in [simp]: "elems (lib_in get put s0 L) s = elems L (get s)"
  by (simp add: elems_def)

context state_part
begin

lemma map_container_in:
  assumes "map_container L lt ok" "holds s0" "get s0 = tl_empty L"
  shows "map_container (lib_in get put s0 L) lt (\<lambda>s. holds s \<and> ok (get s))"
proof -
  note tree = map_container.axioms(1) [OF assms(1)]
  note laws = tree_container.begin_empty [OF tree] tree_container.begin_front [OF tree]
    tree_container.size_elems [OF tree] tree_container.elems_erase [OF tree]
    tree_container.count_erase [OF tree] tree_container.elems_erase_at [OF tree]
    map_container.map_of_assign [OF assms(1)]
  have "tree_container (lib_in get put s0 L) lt fst (\<lambda>s. holds s \<and> ok (get s))"
    apply (intro tree_container.intro)
    apply (simp_all add: assms(2,3) get_put inv_put laws tree_container.order [OF tree]
        tree_container.ok_empty [OF tree] tree_container.ok_erase [OF tree]
        tree_container.ok_erase_at [OF tree] tree_container.ascending [OF tree])
    subgoal by (elim conjE) (rule tree_container.find_split [OF tree])
    subgoal by (elim conjE) (rule tree_container.find_end [OF tree])
    subgoal by (elim conjE) (rule tree_container.find_here [OF tree])
    subgoal by (elim conjE) (rule tree_container.lower_bound_split [OF tree])
    done
  then show ?thesis
    by (intro map_container.intro map_container_axioms.intro)
      (simp_all add: get_put inv_put laws map_container.keys_ascending [OF assms(1)]
        map_container.ok_assign [OF assms(1)])
qed

end

subsection \<open>The structure of one object in a server process\<close>

definition structure_at :: "('c, 'h, 'f) file_lib \<Rightarrow> nat \<Rightarrow> ('h, 'f) server_process \<Rightarrow> 'c" where
  "structure_at F this s = (case s of (objs, fs) \<Rightarrow> seg_object (fl_read F (the (objs this)) fs))"

definition store_at ::
  "('c, 'h, 'f) file_lib \<Rightarrow> nat \<Rightarrow> 'c \<Rightarrow> ('h, 'f) server_process \<Rightarrow> ('h, 'f) server_process" where
  "store_at F this c s =
     (case s of (objs, fs) \<Rightarrow>
        let h = the (objs this) in (objs, fl_write F h ((fl_read F h fs)\<lparr>seg_object := c\<rparr>) fs))"

definition two_objects ::
  "('h \<Rightarrow> 'f \<Rightarrow> bool) \<Rightarrow> ('f \<Rightarrow> bool) \<Rightarrow> nat \<Rightarrow> nat \<Rightarrow> ('h, 'f) server_process \<Rightarrow> bool" where
  "two_objects live ok a b s \<longleftrightarrow>
     (case s of (objs, fs) \<Rightarrow>
        ok fs \<and> (\<exists>h k. objs a = Some h \<and> objs b = Some k \<and> h \<noteq> k \<and> live h fs \<and> live k fs))"

lemmas object_defs = structure_at_def store_at_def two_objects_def

lemma two_objects_swap: "two_objects live ok b a = two_objects live ok a b"
  by (auto simp: two_objects_def fun_eq_iff)

context mapped_files
begin

lemma object_part: "state_part (structure_at F a) (store_at F a) (two_objects live ok a b)"
  by unfold_locales
    (auto simp: object_defs Let_def read_write live_write ok_write split: prod.splits)

lemma other_object:
  assumes "two_objects live ok a b s"
  shows "structure_at F b (store_at F a c s) = structure_at F b s"
  using assms by (auto simp: object_defs Let_def read_write)

end

sublocale mapped_files \<subseteq> object: state_part "structure_at F a" "store_at F a" "two_objects live ok a b"
  for a b
  by (rule object_part)

interpretation numbered_object: state_part "structure_at numbered_lib a" "store_at numbered_lib a"
  "two_objects (\<lambda>h fs. h < length (contents fs)) numbered_ok a b"
  for a b
  by (rule numbered.object_part)

abbreviation lib_at ::
  "('c, 'h, 'f) file_lib \<Rightarrow> nat \<Rightarrow> ('h, 'f) server_process \<Rightarrow> ('k, 'e, 'c) tree_lib \<Rightarrow>
     ('k, 'e, ('h, 'f) server_process) tree_lib" where
  "lib_at F this s0 L \<equiv> lib_in (structure_at F this) (store_at F this) s0 L"

text \<open>What a bound function does through \<open>this\<close> is the operation of that library.\<close>

lemma bind_this_lib_at:
  assumes "objs this = Some h"
  shows "bind_this F this (handle_key_val enc (map_LocalPut L)) [WKey k, WVal v] (objs, fs)
           = handle_key_val enc (map_LocalPut (lib_at F this s0 L)) [WKey k, WVal v] (objs, fs)"
    and "bind_this F this (handle_key enc' (map_LocalErase L dflt)) [WKey k] (objs, fs)
           = handle_key enc' (map_LocalErase (lib_at F this s0 L) dflt) [WKey k] (objs, fs)"
  using assms
  by (simp_all add: bind_this_def map_LocalPut_def map_LocalErase_def object_defs Let_def split_beta)

lemma lib_at_changes_own:
  assumes "mapped_files F live ok" "two_objects live ok a b s"
    and "s' = snd (keyed_oper (map_LocalPut (lib_at F a s0 L)) (map_LocalGet (lib_at F a s0 L) dflt)
           (map_LocalErase (lib_at F a s0 L) dflt) q s)"
  shows "two_objects live ok a b s' \<and> structure_at F b s' = structure_at F b s"
proof -
  note part = mapped_files.object_part [OF assms(1), of a b]
  have "s' = s \<or> (\<exists>c. s' = store_at F a c s)"
    unfolding assms(3)
    by (cases q) (auto simp: map_LocalPut_def map_LocalGet_def map_LocalErase_def split_beta
        split: prod.splits list.splits)
  then show ?thesis
    using assms(2) state_part.inv_put [OF part assms(2)]
      mapped_files.other_object [OF assms(1,2)] by auto
qed

subsection \<open>Two maps\<close>

text \<open>A server process constructs the two maps, one after the other, at two addresses.\<close>

definition two_maps ::
  "('c, 'h, 'f) file_lib \<Rightarrow> 'c \<Rightarrow> container \<Rightarrow> nat \<Rightarrow> container \<Rightarrow> nat \<Rightarrow> 'f \<Rightarrow>
     ('h, 'f) server_process result" where
  "two_maps F initial obj1 a obj2 b fs =
     bind_result (map_structure F obj_name initial obj1 fs) (\<lambda>(ptr1, fs1).
     bind_result (map_structure F obj_name initial obj2 fs1) (\<lambda>(ptr2, fs2).
       Inr (Map.empty(a := ptr1, b := ptr2), fs2)))"

definition two_maps_registry ::
  "build \<Rightarrow> 'k key_ops \<Rightarrow> ('c, 'h, 'f) file_lib \<Rightarrow> ('k, 'k \<times> 'v, 'c) tree_lib \<Rightarrow> 'v \<Rightarrow>
     RPCImplementation \<Rightarrow> string \<Rightarrow> nat \<Rightarrow> string \<Rightarrow> nat \<Rightarrow> ('h, 'f) server_process \<Rightarrow>
     ('k, 'v, ('h, 'f) server_process) registry" where
  "two_maps_registry B K F L dflt impl p a q b s0 =
     map_bindings B K (lib_at F b s0 L) dflt impl q
       (map_bindings B K (lib_at F a s0 L) dflt impl p Map.empty)"

text \<open>Requests to the first map are \<open>Inl\<close>, those to the second \<open>Inr\<close>.\<close>

fun two_request ::
  "'k key_ops \<Rightarrow> ('k, 'k \<times> 'v, 's) tree_lib \<Rightarrow> ('k, 'k \<times> 'v, 's) tree_lib \<Rightarrow> 'v \<Rightarrow>
     ('k, 'v, 's) client \<times> ('k, 'v) request + ('k, 'v, 's) client \<times> ('k, 'v) request \<Rightarrow>
     's world \<Rightarrow> 'v response result \<times> 's world" where
  "two_request K L1 L2 dflt (Inl r) w = map_request K L1 dflt r w"
| "two_request K L1 L2 dflt (Inr r) w = map_request K L2 dflt r w"

fun spec_two ::
  "'v \<Rightarrow> ('k, 'v) request + ('k, 'v) request \<Rightarrow> ('k \<rightharpoonup> 'v) \<times> ('k \<rightharpoonup> 'v) \<Rightarrow>
     'v response \<times> (('k \<rightharpoonup> 'v) \<times> ('k \<rightharpoonup> 'v))" where
  "spec_two dflt (Inl q) (m1, m2) = map_prod id (\<lambda>m. (m, m2)) (spec_request dflt q m1)"
| "spec_two dflt (Inr q) (m1, m2) = map_prod id (\<lambda>m. (m1, m)) (spec_request dflt q m2)"

lemma two_maps_ready:
  assumes "mapped_files F live ok" "ok fs" "obj_is_server obj1" "obj_is_server obj2"
    and "obj_backed_file obj1 \<noteq> obj_backed_file obj2" "a \<noteq> b"
  shows "\<exists>s. two_maps F initial obj1 a obj2 b fs = Inr s \<and> two_objects live ok a b s \<and>
           structure_at F a s = initial \<and> structure_at F b s = initial"
proof -
  note server = mapped_files.map_structure_server [OF assms(1), where named = obj_name and initial = initial]
  obtain h fs1 where 1: "map_structure F obj_name initial obj1 fs = Inr (Some h, fs1)" "ok fs1"
    "live h fs1" "seg_object (fl_read F h fs1) = initial"
    by (rule server [OF assms(2,3)]) blast
  obtain k fs2 where 2: "map_structure F obj_name initial obj2 fs1 = Inr (Some k, fs2)" "ok fs2"
    "\<not> live k fs1" "live k fs2" "seg_object (fl_read F k fs2) = initial"
    "live h fs2" "fl_read F h fs2 = fl_read F h fs1"
    by (rule server [OF 1(2) assms(4)]) (use 1(3) in blast)
  have "h \<noteq> k" using 1(3) 2(3) by blast
  then show ?thesis
    using 1 2 assms(6) by (auto simp: two_maps_def bind_result_def object_defs)
qed

lemma refines_other:
  assumes "refines hm ok view w m" "view c = view (w i)" "ok c"
  shows "refines hm ok view (w(i := c)) m"
  using assms by (auto simp: refines_def placed_def global_view_def fun_eq_iff)

lemma two_request_step:
  assumes F: "mapped_files F live okf" and L: "map_container L lt ok" and "compiled_in B impl"
    and "joined n p (map_bindings B K (lib_at F a s0 L) dflt impl p reg) cl"
    and s0: "two_objects live okf a b s0" "structure_at F a s0 = tl_empty L"
    and R: "refines hm (\<lambda>s. two_objects live okf a b s \<and> ok (structure_at F a s))
        (map_view (lib_at F a s0 L)) w m" "hm = (\<lambda>k. home n (keyHash K k))"
    and R': "refines hm (\<lambda>s. two_objects live okf a b s \<and> ok (structure_at F b s))
        (map_view (lib_at F b s0 L)) w m'"
  shows "fst (map_request K (lib_at F a s0 L) dflt (cl, q) w) = Inr (fst (spec_request dflt q m)) \<and>
         refines hm (\<lambda>s. two_objects live okf a b s \<and> ok (structure_at F a s))
           (map_view (lib_at F a s0 L)) (snd (map_request K (lib_at F a s0 L) dflt (cl, q) w))
           (snd (spec_request dflt q m)) \<and>
         refines hm (\<lambda>s. two_objects live okf a b s \<and> ok (structure_at F b s))
           (map_view (lib_at F b s0 L)) (snd (map_request K (lib_at F a s0 L) dflt (cl, q) w)) m'"
proof -
  let ?La = "lib_at F a s0 L" and ?i = "hm (request_key q)"
  note lib = state_part.map_container_in [OF mapped_files.object_part [OF F] L s0]
  have run: "map_request K ?La dflt (cl, q) w = home_request (map_LocalPut ?La) (map_LocalGet ?La dflt)
      (map_LocalErase ?La dflt) hm q w"
    using map_request_home [OF assms(4,3)] by (simp add: R(2))
  let ?s = "snd (keyed_oper (map_LocalPut ?La) (map_LocalGet ?La dflt) (map_LocalErase ?La dflt) q (w ?i))"
  have world: "snd (map_request K ?La dflt (cl, q) w) = w(?i := ?s)"
    by (simp add: run home_request_oper run_local_def split_beta)
  have both: "two_objects live okf a b (w ?i)" "ok (structure_at F b (w ?i))"
    using R' by (simp_all add: refines_def)
  note own = lib_at_changes_own [OF F both(1) refl, of s0 L dflt q]
  have "refines hm (\<lambda>s. two_objects live okf a b s \<and> ok (structure_at F b s))
      (map_view (lib_at F b s0 L)) (w(?i := ?s)) m'"
    by (rule refines_other [OF R']) (use own both(2) in \<open>auto simp: map_view_def fun_eq_iff\<close>)
  then show ?thesis
    using keyed_store.request_refines [OF map_container.map_store [OF lib] R(1), of dflt q] world
    by (simp add: run)
qed

lemma two_maps_run:
  assumes F: "mapped_files F live okf" and L: "map_container L lt ok" and B: "compiled_in B impl"
    and pq: "p \<noteq> q"
    and w: "\<And>i. two_objects live okf a b (w i)" "\<And>i. structure_at F a (w i) = tl_empty L"
      "\<And>i. structure_at F b (w i) = tl_empty L"
    and J1: "\<And>r. Inl r \<in> set reqs \<Longrightarrow>
      joined n p (two_maps_registry B K F L dflt impl p a q b (w 0)) (fst r)"
    and J2: "\<And>r. Inr r \<in> set reqs \<Longrightarrow>
      joined n q (two_maps_registry B K F L dflt impl p a q b (w 0)) (fst r)"
  shows "fst (run_requests (two_request K (lib_at F a (w 0) L) (lib_at F b (w 0) L) dflt) reqs w)
           = map Inr (fst (run_requests (spec_two dflt) (map (map_sum snd snd) reqs)
               (Map.empty, Map.empty)))"
proof -
  let ?La = "lib_at F a (w 0) L" and ?Lb = "lib_at F b (w 0) L"
  let ?reg = "two_maps_registry B K F L dflt impl p a q b (w 0)"
  define hm where "hm = (\<lambda>k. home n (keyHash K k))"
  define A where "A = refines hm (\<lambda>s. two_objects live okf a b s \<and> ok (structure_at F a s)) (map_view ?La)"
  define B' where "B' = refines hm (\<lambda>s. two_objects live okf a b s \<and> ok (structure_at F b s)) (map_view ?Lb)"
  have commuted: "?reg = map_bindings B K ?La dflt impl p (map_bindings B K ?Lb dflt impl q Map.empty)"
    unfolding two_maps_registry_def by (rule map_bindings_commute) (rule pq)
  have ok0: "ok (tl_empty L)"
    by (rule tree_container.ok_empty [OF map_container.axioms(1) [OF L]])
  have start: "A w Map.empty \<and> B' w Map.empty"
    using w ok0 tree_container.elems_empty [OF map_container.axioms(1) [OF L]]
    by (simp add: A_def B'_def refines_def placed_def global_view_def map_view_def fun_eq_iff)
  have first: "fst (map_request K ?La dflt r v) = Inr (fst (spec_request dflt (snd r) m1)) \<and>
      A (snd (map_request K ?La dflt r v)) (snd (spec_request dflt (snd r) m1)) \<and>
      B' (snd (map_request K ?La dflt r v)) m2"
    if "Inl r \<in> set reqs" "A v m1" "B' v m2" for r v m1 m2
    using two_request_step [OF F L B J1 [OF that(1), unfolded commuted] w(1,2)
        that(2) [unfolded A_def] hm_def that(3) [unfolded B'_def], of "snd r"]
    by (simp add: A_def B'_def)
  have second: "fst (map_request K ?Lb dflt r v) = Inr (fst (spec_request dflt (snd r) m2)) \<and>
      B' (snd (map_request K ?Lb dflt r v)) (snd (spec_request dflt (snd r) m2)) \<and>
      A (snd (map_request K ?Lb dflt r v)) m1"
    if "Inr r \<in> set reqs" "A v m1" "B' v m2" for r v m1 m2
    using two_request_step [where a = b and b = a and live = live and okf = okf, unfolded two_objects_swap [of live okf b a],
        OF F L B J2 [OF that(1), unfolded two_maps_registry_def] w(1,3)
        that(3) [unfolded B'_def] hm_def that(2) [unfolded A_def], of "snd r"]
    by (simp add: A_def B'_def)
  have step: "fst (two_request K ?La ?Lb dflt r v) = Inr (fst (spec_two dflt (map_sum snd snd r) m)) \<and>
      A (snd (two_request K ?La ?Lb dflt r v)) (fst (snd (spec_two dflt (map_sum snd snd r) m))) \<and>
      B' (snd (two_request K ?La ?Lb dflt r v)) (snd (snd (spec_two dflt (map_sum snd snd r) m)))"
    if "r \<in> set reqs" "A v (fst m) \<and> B' v (snd m)" for r v m
  proof (cases r)
    case (Inl x)
    then show ?thesis using first [of x v "fst m" "snd m"] that by (cases m) simp
  next
    case (Inr x)
    then show ?thesis using second [of x v "fst m" "snd m"] that by (cases m) simp
  qed
  show ?thesis
    by (rule conjunct1 [OF run_simulation [where R = "\<lambda>v m. A v (fst m) \<and> B' v (snd m)"]])
      (use start step in auto)
qed

subsection \<open>Property\<close>

text \<open>
  C15: Every server process constructs two maps of different names; their files are in one
  directory and their functions in one registry. Whatever calls of Put, Get and Erase any
  clients make on either map, in any order, local or remote: each map answers as a map of its
  own that starts empty, and no call fails.
\<close>
theorem two_maps_share_servers:
  assumes F: "mapped_files F live okf" and L: "map_container L lt ok" and B: "compiled_in B impl"
    and "p \<noteq> q" "a \<noteq> b" "\<And>i. okf (fs i)"
    and "\<And>i. obj_is_server (o1 i) \<and> obj_backed_file (o1 i) = backed_file_of dir p i"
    and "\<And>i. obj_is_server (o2 i) \<and> obj_backed_file (o2 i) = backed_file_of dir q i"
  shows "\<exists>w. (\<forall>i. two_maps F (tl_empty L) (o1 i) a (o2 i) b (fs i) = Inr (w i)) \<and>
    (\<forall>n reqs.
       (\<forall>r. Inl r \<in> set reqs \<longrightarrow> joined n p (two_maps_registry B K F L dflt impl p a q b (w 0)) (fst r)) \<and>
       (\<forall>r. Inr r \<in> set reqs \<longrightarrow> joined n q (two_maps_registry B K F L dflt impl p a q b (w 0)) (fst r)) \<longrightarrow>
       fst (run_requests (two_request K (lib_at F a (w 0) L) (lib_at F b (w 0) L) dflt) reqs w)
         = map Inr (fst (run_requests (spec_two dflt) (map (map_sum snd snd) reqs) (Map.empty, Map.empty))))"
proof -
  have "\<exists>s. two_maps F (tl_empty L) (o1 i) a (o2 i) b (fs i) = Inr s \<and> two_objects live okf a b s \<and>
      structure_at F a s = tl_empty L \<and> structure_at F b s = tl_empty L" for i
    by (rule two_maps_ready [OF F]) (use assms(4-8) in \<open>simp_all add: backed_file_inject\<close>)
  then obtain w where w: "\<And>i. two_maps F (tl_empty L) (o1 i) a (o2 i) b (fs i) = Inr (w i)"
    "\<And>i. two_objects live okf a b (w i)" "\<And>i. structure_at F a (w i) = tl_empty L"
    "\<And>i. structure_at F b (w i) = tl_empty L"
    by metis
  from two_maps_run [where w = w, OF F L B assms(4) w(2-4)] w(1) show ?thesis
    by (intro exI [of _ w]) blast
qed

definition sample_server :: "string \<Rightarrow> u16 \<Rightarrow> container" where
  "sample_server nam i = (sample_object nam i True)\<lparr>obj_is_server := True\<rparr>"

definition sample_two_reg ::
  "(nat, (nat \<times> nat) list numbered) server_process \<Rightarrow>
     (nat, nat, (nat, (nat \<times> nat) list numbered) server_process) registry" where
  "sample_two_reg s0 =
     two_maps_registry rpclib_only sample_keys numbered_lib (list_map_lib (<)) 0 RPCLIB ''m'' 7 ''m_1'' 8 s0"

text \<open>The second map is called \<open>m_1\<close>, as the file of the first on server 1 is.\<close>

lemma two_maps_share_servers_witness:
  "\<exists>w. (\<forall>i. two_maps numbered_lib [] (sample_server ''m'' i) 7 (sample_server ''m_1'' i) 8 no_files = Inr (w i)) \<and>
     fst (run_requests (two_request sample_keys (lib_at numbered_lib 7 (w 0) (list_map_lib (<)))
            (lib_at numbered_lib 8 (w 0) (list_map_lib (<))) 0)
          [Inl (sample_client ''m'' (sample_two_reg (w 0)) 1 True, PutReq 4 40),
           Inr (sample_client ''m_1'' (sample_two_reg (w 0)) 2 False, PutReq 4 50),
           Inr (sample_client ''m_1'' (sample_two_reg (w 0)) 0 True, EraseReq 7),
           Inl (sample_client ''m'' (sample_two_reg (w 0)) 0 False, GetReq 4)] w)
       = [Inr (PutResp True), Inr (PutResp True), Inr (EraseResp (False, 0)), Inr (GetResp (True, 40))]"
proof -
  have server: "obj_is_server (sample_server nam i) \<and>
      obj_backed_file (sample_server nam i) = backed_file_of ''/dev/shm'' nam i" for nam i
    by (simp add: sample_server_def sample_object_def backed_file_of_def path_separator_def)
  have empty: "tl_empty (list_map_lib (<)) = ([] :: (nat \<times> nat) list)"
    by (simp add: ol_defs)
  obtain w where "\<forall>i. two_maps numbered_lib [] (sample_server ''m'' i) 7 (sample_server ''m_1'' i) 8 no_files = Inr (w i)"
    and run: "\<forall>n reqs.
       (\<forall>r. Inl r \<in> set reqs \<longrightarrow> joined n ''m'' (sample_two_reg (w 0)) (fst r)) \<and>
       (\<forall>r. Inr r \<in> set reqs \<longrightarrow> joined n ''m_1'' (sample_two_reg (w 0)) (fst r)) \<longrightarrow>
       fst (run_requests (two_request sample_keys (lib_at numbered_lib 7 (w 0) (list_map_lib (<)))
            (lib_at numbered_lib 8 (w 0) (list_map_lib (<))) 0) reqs w)
         = map Inr (fst (run_requests (spec_two 0) (map (map_sum snd snd) reqs) (Map.empty, Map.empty)))"
    using two_maps_share_servers [where fs = "\<lambda>_. no_files", OF numbered.mapped_files_axioms
        list_map.map_container_axioms rpclib_only_compiled _ _ no_files_ok server server,
        of "''m''" "''m_1''" 7 8 sample_keys "0 :: nat"]
    unfolding sample_two_reg_def empty by auto
  then show ?thesis
    by (intro exI [of _ w]) (subst run [rule_format, of _ 3]; auto simp: sample_joined)
qed

end
