(* ===== verification/Debug_Tools.thy ===== *)
theory Debug_Tools
  imports Basket_Prelude Complex_Main
begin

section \<open>The timer and the signal handler\<close>

text \<open>
  \<open>include/basket/common/debug.h\<close>: \<open>Timer\<close>, which the tests read their timings off, and the
  signal handler. \<open>rnd\<close> is the rounding of the machine's \<open>double\<close>; time points are counts of
  nanoseconds. \<open>AutoTrace\<close> is empty in the builds that compile.
\<close>

subsection \<open>Timer\<close>

record timer =
  t1 :: int
  elapsed_time :: rat

text \<open>A \<open>time_point\<close> without initializer is the epoch of its clock.\<close>

definition Timer :: timer where
  "Timer = \<lparr>t1 = 0, elapsed_time = 0\<rparr>"

definition resumeTime :: "int \<Rightarrow> timer \<Rightarrow> timer" where
  "resumeTime now t = t\<lparr>t1 := now\<rparr>"

text \<open>
  The count is converted to \<open>double\<close>, divided and added, and each of the three is rounded.
\<close>

definition pauseTime :: "(rat \<Rightarrow> rat) \<Rightarrow> int \<Rightarrow> timer \<Rightarrow> rat \<times> timer" where
  "pauseTime rnd t2 t =
     (let elapsed = rnd (elapsed_time t + rnd (rnd (of_int (t2 - t1 t)) / 1000000))
      in (elapsed, t\<lparr>elapsed_time := elapsed\<rparr>))"

definition getElapsedTime :: "timer \<Rightarrow> rat" where
  "getElapsedTime t = elapsed_time t"

text \<open>A program's calls of a timer, with the readings of the clock.\<close>

datatype timer_call = Resume int | Pause int

fun timer_calls :: "(rat \<Rightarrow> rat) \<Rightarrow> timer_call list \<Rightarrow> timer \<Rightarrow> timer" where
  "timer_calls rnd [] t = t"
| "timer_calls rnd (Resume now # cs) t = timer_calls rnd cs (resumeTime now t)"
| "timer_calls rnd (Pause now # cs) t = timer_calls rnd cs (snd (pauseTime rnd now t))"

text \<open>
  The milliseconds from the last Resume to each Pause, exactly: a second Pause counts the time
  since the Resume once more. The second function sums their magnitudes by \<open>g\<close>, which is the
  identity or the absolute value.
\<close>

fun intervals :: "timer_call list \<Rightarrow> int \<Rightarrow> rat list" where
  "intervals [] start = []"
| "intervals (Resume now # cs) start = intervals cs now"
| "intervals (Pause now # cs) start = of_int (now - start) / 1000000 # intervals cs start"

lemma rounded_twice:
  fixes d c :: rat
  assumes "\<And>x. \<bar>rnd x - x\<bar> \<le> u * \<bar>x\<bar>" "0 \<le> u" "0 < c"
  shows "\<bar>rnd (rnd d / c) - d / c\<bar> \<le> ((1 + u) ^ 2 - 1) * \<bar>d / c\<bar>"
proof -
  have factor: "u * ((1 + u) * y) + u * y = ((1 + u) ^ 2 - 1) * y" for y
    by (simp add: power2_eq_square algebra_simps)
  have conv: "\<bar>rnd d / c - d / c\<bar> \<le> u * \<bar>d / c\<bar>"
    using divide_right_mono [OF assms(1) [of d], of c] assms(3)
    by (simp add: diff_divide_distrib [symmetric] abs_divide)
  have "\<bar>rnd (rnd d / c) - rnd d / c\<bar> \<le> u * \<bar>rnd d / c\<bar>"
    by (rule assms(1))
  also have "\<dots> \<le> u * ((1 + u) * \<bar>d / c\<bar>)"
    using conv assms(2) by (intro mult_left_mono) (auto simp: algebra_simps abs_le_iff abs_if split: if_splits)
  finally have "\<bar>rnd (rnd d / c) - d / c\<bar> \<le> u * ((1 + u) * \<bar>d / c\<bar>) + u * \<bar>d / c\<bar>"
    using conv by linarith
  also have "\<dots> = ((1 + u) ^ 2 - 1) * \<bar>d / c\<bar>"
    using factor .
  finally show ?thesis .
qed

lemma rounded_sum:
  fixes a s d x m :: rat
  assumes rnd: "\<And>x. \<bar>rnd x - x\<bar> \<le> u * \<bar>x\<bar>" and u: "0 \<le> u"
    and "\<bar>a - s\<bar> \<le> ((1 + u) ^ (k + 2) - 1) * m" "\<bar>s\<bar> \<le> m"
    and "\<bar>x - d\<bar> \<le> ((1 + u) ^ 2 - 1) * \<bar>d\<bar>"
  shows "\<bar>rnd (a + x) - (s + d)\<bar> \<le> ((1 + u) ^ (Suc k + 2) - 1) * (m + \<bar>d\<bar>)"
proof -
  let ?E = "((1 + u) ^ (k + 2) - 1) * (m + \<bar>d\<bar>)"
  have "(1 + u) ^ 2 \<le> (1 + u) ^ (k + 2)"
    using u by (intro power_increasing) auto
  then have "((1 + u) ^ 2 - 1) * \<bar>d\<bar> \<le> ((1 + u) ^ (k + 2) - 1) * \<bar>d\<bar>"
    by (intro mult_right_mono) auto
  then have E: "\<bar>(a + x) - (s + d)\<bar> \<le> ?E"
    using assms(3,5) by (simp add: distrib_left)
  have "\<bar>a + x\<bar> \<le> (m + \<bar>d\<bar>) + ?E"
    using E assms(4) by linarith
  from mult_left_mono [OF this u] have "\<bar>rnd (a + x) - (a + x)\<bar> \<le> u * ((m + \<bar>d\<bar>) + ?E)"
    using rnd [of "a + x"] by linarith
  then have "\<bar>rnd (a + x) - (s + d)\<bar> \<le> u * ((m + \<bar>d\<bar>) + ?E) + ?E"
    using E by linarith
  also have "\<dots> = ((1 + u) ^ (Suc k + 2) - 1) * (m + \<bar>d\<bar>)"
    by (simp add: algebra_simps)
  finally show ?thesis .
qed

lemma timer_error:
  assumes rnd: "\<And>x. \<bar>rnd x - x\<bar> \<le> u * \<bar>x\<bar>" and u: "0 \<le> u"
    and "\<bar>elapsed_time t - s\<bar> \<le> ((1 + u) ^ (k + 2) - 1) * m" "\<bar>s\<bar> \<le> m"
  shows "\<bar>elapsed_time (timer_calls rnd cs t) - (s + sum_list (intervals cs (t1 t)))\<bar>
           \<le> ((1 + u) ^ (k + length (intervals cs (t1 t)) + 2) - 1) *
              (m + sum_list (map abs (intervals cs (t1 t))))"
  using assms(3,4)
proof (induction cs arbitrary: t s k m)
  case Nil
  then show ?case by simp
next
  case (Cons c cs)
  show ?case
  proof (cases c)
    case (Resume now)
    then show ?thesis
      using Cons.IH [of "resumeTime now t" s k m] Cons.prems by (simp add: resumeTime_def)
  next
    case (Pause now)
    let ?d = "of_int (now - t1 t) / 1000000 :: rat"
    note step = rounded_sum [OF rnd u Cons.prems rounded_twice [OF rnd u, of 1000000 "of_int (now - t1 t)"]]
    have "\<bar>s + ?d\<bar> \<le> m + \<bar>?d\<bar>" using Cons.prems(2) by linarith
    from Cons.IH [of "snd (pauseTime rnd now t)" "s + ?d" "Suc k" "m + \<bar>?d\<bar>", OF _ this] step
    show ?thesis
      by (simp add: Pause pauseTime_def Let_def add.assoc)
  qed
qed

subsection \<open>The signal handler\<close>

text \<open>
  \<open>backtrace\<close> writes the addresses of at most 300 frames of the stack into an array of ten;
  then the handler prints them and ends the process with status 0.
\<close>

definition handler :: "string list \<Rightarrow> int \<Rightarrow> (string list \<times> int) result" where
  "handler stack sig =
     (let size = min 300 (length stack)
      in if size > 10 then Inl BufferOverflow
         else Inr ((''Error: signal '' @ to_string sig) # take size stack, 0))"

lemma handler_overflow: "handler stack sig = Inl BufferOverflow \<longleftrightarrow> 10 < length stack"
  by (simp add: handler_def Let_def)

subsection \<open>Property\<close>

text \<open>
  C40: Whatever calls of Resume and Pause a program makes, the elapsed time is the sum of the
  intervals from the last Resume before each Pause, in milliseconds, up to an error relative to
  the sum of their magnitudes: for a machine whose rounding has relative error \<open>u\<close>, a factor
  \<open>(1 + u) ^ (n + 2) - 1\<close> after \<open>n\<close> calls of Pause.
\<close>
theorem timer_sums_intervals:
  assumes "\<And>x. \<bar>rnd x - x\<bar> \<le> u * \<bar>x\<bar>" and "0 \<le> u"
  shows "\<bar>getElapsedTime (timer_calls rnd cs Timer) - sum_list (intervals cs 0)\<bar>
           \<le> ((1 + u) ^ (length (intervals cs 0) + 2) - 1) * sum_list (map abs (intervals cs 0))"
  using timer_error [OF assms, of Timer 0 0 0 cs] by (simp add: getElapsedTime_def Timer_def)

definition sample_rounding :: "rat \<Rightarrow> rat" where
  "sample_rounding x = x * (1 + 1 / 1024)"

lemma timer_sums_intervals_witness:
  "\<bar>getElapsedTime (timer_calls sample_rounding [Resume 1000000, Pause 3000000, Pause 4000000] Timer) - 5\<bar>
     \<le> 1 / 50"
proof -
  have "\<bar>sample_rounding x - x\<bar> \<le> 1 / 1024 * \<bar>x\<bar>" for x
    by (simp add: sample_rounding_def algebra_simps abs_mult)
  from timer_sums_intervals [OF this, of "[Resume 1000000, Pause 3000000, Pause 4000000]"]
  show ?thesis by (auto intro: order_trans)
qed

end
