(* ===== verification/Query_Threads.thy ===== *)
theory Query_Threads
  imports Map_Threads Sample_Cluster
begin

section \<open>Queries among threads\<close>

text \<open>
  \<open>LocalGetAllDataInServer\<close> and \<open>LocalContainsInServer\<close> of map walk over the structure while
  they hold its mutex: the size, the lower bound and every element are read by a call of their
  own. Here each of these is a step, and the threads that run queries, Put, Get and Erase
  interleave between them. An iterator is kept as its distance from \<open>begin()\<close> and looked up in
  the structure again at every step, so that a change in between would show in the answer.
\<close>

subsection \<open>The loops as steps\<close>

primrec bind_steps :: "('c, 'a) steps \<Rightarrow> ('a \<Rightarrow> ('c, 'b) steps) \<Rightarrow> ('c, 'b) steps" where
  "bind_steps (Return r) f = f r"
| "bind_steps (Step act next) f = Step act (\<lambda>c. bind_steps (next c) f)"

lemma run_bind_steps: "run_steps (bind_steps p f) c = (case run_steps p c of (r, c') \<Rightarrow> run_steps (f r) c')"
  by (induction p arbitrary: c) simp_all

text \<open>
  \<open>while (it != end()) { if (brk(*it)) break; push_back(*it); it++; }\<close> from the element at
  distance \<open>i\<close>, for at most \<open>fuel\<close> rounds; \<open>None\<close> where they are not enough.
\<close>

fun scan_steps ::
  "('k, 'e, 'c) tree_lib \<Rightarrow> ('e \<Rightarrow> bool) \<Rightarrow> nat \<Rightarrow> nat \<Rightarrow> 'e list \<Rightarrow> ('c, 'e list option) steps" where
  "scan_steps L brk 0 i final_values = Return None"
| "scan_steps L brk (Suc fuel) i final_values =
     read_step (\<lambda>c. case drop i (elems L c) of
        [] \<Rightarrow> Return (Some final_values)
      | e # _ \<Rightarrow>
          if brk e then Return (Some final_values)
          else scan_steps L brk fuel (Suc i) (final_values @ [e]))"

lemma run_scan_steps:
  "length (elems L c) - i < fuel \<Longrightarrow>
     run_steps (scan_steps L brk fuel i acc) c
       = (Some (acc @ takeWhile (\<lambda>e. \<not> brk e) (drop i (elems L c))), c)"
proof (induction fuel arbitrary: i acc)
  case 0
  then show ?case by simp
next
  case (Suc fuel)
  show ?case
  proof (cases "drop i (elems L c)")
    case Nil
    then show ?thesis by simp
  next
    case (Cons e es)
    then have "es = drop (Suc i) (elems L c)" "i < length (elems L c)"
      by (metis drop_Suc list.sel(3) tl_drop, metis drop_eq_Nil list.distinct(1) not_le)
    then show ?thesis
      using Cons Suc.IH [of "Suc i" "acc @ [e]"] Suc.prems by simp
  qed
qed

declare scan_steps.simps [simp del]

subsection \<open>Calls\<close>

datatype ('k, 'v) map_call =
    Keyed "('k, 'v) request" | AllIn u16 | RangeIn u16 'k 'k

datatype ('k, 'v) map_answer = Answer "'v response" | Entries "('k \<times> 'v) list option"

fun map_site :: "('k \<Rightarrow> u16) \<Rightarrow> ('k, 'v) map_call \<Rightarrow> u16" where
  "map_site hm (Keyed q) = hm (request_key q)"
| "map_site hm (AllIn i) = i"
| "map_site hm (RangeIn i _ _) = i"

text \<open>The fuel is the size at the start: nobody may insert while the mutex is held.\<close>

definition map_GetAll_steps ::
  "('k, 'k \<times> 'v, 'c) tree_lib \<Rightarrow> ('c, ('k \<times> 'v) list option) steps" where
  "map_GetAll_steps L =
     read_step (\<lambda>mymap. scan_steps L (\<lambda>_. False) (Suc (tl_size L mymap)) 0 [])"

definition map_Contains_steps ::
  "'k key_ops \<Rightarrow> ('k, 'k \<times> 'v, 'c) tree_lib \<Rightarrow> 'k \<Rightarrow> 'k \<Rightarrow> ('c, ('k \<times> 'v) list option) steps" where
  "map_Contains_steps K L key_start key_end =
     read_step (\<lambda>mymap.
       let size = tl_size L mymap;
           scan = (\<lambda>i. scan_steps L (\<lambda>e. key_gt K (fst e) key_end) (Suc size) i [])
       in if size = 0 then Return (Some [])
          else if size = 1 then
            read_step (\<lambda>mymap. case tl_begin L mymap of
               (_, e # _) \<Rightarrow> Return (Some (if key_gt K (fst e) key_start then [e] else []))
             | (_, []) \<Rightarrow> Return (Some []))
          else
            read_step (\<lambda>mymap. case tl_lower_bound L key_start mymap of
               (_, []) \<Rightarrow> Return (Some [])
             | ([], _ # _) \<Rightarrow> scan 0
             | (_ # before, _ # _) \<Rightarrow>
                 read_step (\<lambda>mymap. case drop (length before) (elems L mymap) of
                    [] \<Rightarrow> Return None
                  | e # _ \<Rightarrow>
                      if key_gt K key_start (fst e) then scan (Suc (length before))
                      else scan (length before))))"

fun map_call_steps ::
  "'k key_ops \<Rightarrow> ('k, 'k \<times> 'v, 'c) tree_lib \<Rightarrow> 'v \<Rightarrow> ('k, 'v) map_call \<Rightarrow>
     ('c, ('k, 'v) map_answer) steps" where
  "map_call_steps K L dflt (Keyed q) = bind_steps (map_steps L dflt q) (\<lambda>r. Return (Answer r))"
| "map_call_steps K L dflt (AllIn _) = bind_steps (map_GetAll_steps L) (\<lambda>r. Return (Entries r))"
| "map_call_steps K L dflt (RangeIn _ lo hi) =
     bind_steps (map_Contains_steps K L lo hi) (\<lambda>r. Return (Entries r))"

interpretation map_calls: locked_calls "map_site hm" "map_call_steps K L dflt"
  "\<lambda>q. run_steps (map_call_steps K L dflt q)"
  for hm K L dflt
  by unfold_locales (rule refl)

subsection \<open>Run alone they are the operations of \<open>Ordered_Map\<close>\<close>

context map_container
begin

lemma GetAll_steps_run:
  assumes "ok c"
  shows "run_steps (map_GetAll_steps L) c = map_prod Some id (map_LocalGetAllDataInServer L c)"
  by (simp add: map_GetAll_steps_def run_scan_steps size_elems [OF assms] begin_eq [OF assms]
      map_LocalGetAllDataInServer_def scan_loop_eq)

lemma Contains_steps_run:
  assumes "ok c"
  shows "run_steps (map_Contains_steps K L lo hi) c
           = map_prod Some id (map_LocalContainsInServer K L lo hi c)"
proof -
  obtain bs as where lb: "tl_lower_bound L lo c = (bs, as)" by fastforce
  note split = lower_bound_split [OF assms lb]
  have first: "size \<noteq> 0 \<Longrightarrow> tl_size L c = size \<Longrightarrow> \<exists>e es. tl_begin L c = ([], e # es)" for size
    using size_elems [OF assms] begin_eq [OF assms] by (cases "elems L c") auto
  note defs = map_Contains_steps_def map_LocalContainsInServer_def Let_def
  consider "tl_size L c = 0" | "tl_size L c = 1" | "tl_size L c \<noteq> 0" "tl_size L c \<noteq> 1" "as = []"
    | e es where "tl_size L c \<noteq> 0" "tl_size L c \<noteq> 1" "as = e # es" "bs = []"
    | e es b bs' where "tl_size L c \<noteq> 0" "tl_size L c \<noteq> 1" "as = e # es" "bs = b # bs'"
    by (metis neq_Nil_conv)
  then show ?thesis
  proof cases
    case 1
    then show ?thesis by (simp add: defs)
  next
    case 2
    then show ?thesis using first [of 1] by (auto simp: defs)
  next
    case 3
    then show ?thesis by (auto simp: defs lb split: list.splits)
  next
    case 4
    then show ?thesis
      using split by (simp add: defs lb run_scan_steps size_elems [OF assms] scan_loop_eq step_back_def)
  next
    case 5
    have "drop (length bs') (elems L c) = b # as" "drop (Suc (length bs')) (elems L c) = as"
      using split by (simp_all add: 5)
    then show ?thesis
      using 5 split
      by (simp add: defs lb run_scan_steps size_elems [OF assms] scan_loop_eq step_back_def
          iter_prev_def)
  qed
qed

end

subsection \<open>What the calls mean on a map\<close>

text \<open>The entries of a map in the order of its keys.\<close>

definition entries_of :: "('k \<Rightarrow> 'k \<Rightarrow> bool) \<Rightarrow> ('k \<rightharpoonup> 'v) \<Rightarrow> ('k \<times> 'v) list \<Rightarrow> bool" where
  "entries_of lt m xs \<longleftrightarrow> sorted_wrt lt (map fst xs) \<and> distinct (map fst xs) \<and> map_of xs = m"

text \<open>A query in a range answers the entries in it; a map of one entry is special.\<close>

inductive map_call_spec ::
  "('k \<Rightarrow> 'k \<Rightarrow> bool) \<Rightarrow> 'v \<Rightarrow> ('k, 'v) map_call \<Rightarrow> ('k \<rightharpoonup> 'v) \<Rightarrow> ('k, 'v) map_answer \<Rightarrow>
     ('k \<rightharpoonup> 'v) \<Rightarrow> bool" for lt dflt where
  keyed: "spec_request dflt q m = (r, m') \<Longrightarrow> map_call_spec lt dflt (Keyed q) m (Answer r) m'"
| all_in: "entries_of lt m xs \<Longrightarrow> map_call_spec lt dflt (AllIn i) m (Entries (Some xs)) m"
| range_in: "(\<And>k v. m \<noteq> [k \<mapsto> v]) \<Longrightarrow>
     entries_of lt (\<lambda>k. if lt k lo \<or> lt hi k then None else m k) xs \<Longrightarrow>
     map_call_spec lt dflt (RangeIn i lo hi) m (Entries (Some xs)) m"
| range_in_one: "map_call_spec lt dflt (RangeIn i lo hi) [k \<mapsto> v]
     (Entries (Some (if lt lo k then [(k, v)] else []))) [k \<mapsto> v]"

context map_container
begin

lemma one_entry: "ok c \<Longrightarrow> tl_size L c = 1 \<longleftrightarrow> (\<exists>k v. map_view L c = [k \<mapsto> v])"
proof
  assume "ok c" "tl_size L c = 1"
  then show "\<exists>k v. map_view L c = [k \<mapsto> v]"
    by (fastforce simp: size_elems map_view_def length_Suc_conv)
next
  assume "ok c" "\<exists>k v. map_view L c = [k \<mapsto> v]"
  then obtain k v where "map_of (elems L c) = [k \<mapsto> v]" by (auto simp: map_view_def)
  then have "fst ` set (elems L c) = {k}"
    using dom_map_of_conv_image_fst [of "elems L c"] by simp
  then have "card (set (map fst (elems L c))) = 1" by simp
  then show "tl_size L c = 1"
    using distinct_card [OF distinct_map_keys [OF \<open>ok c\<close>]] \<open>ok c\<close> by (simp add: size_elems)
qed

lemma entries_of_filter:
  assumes "ok c"
  shows "entries_of lt (\<lambda>k. if P k then map_view L c k else None) (filter (\<lambda>e. P (fst e)) (elems L c))"
  using keys_ascending [OF assms] distinct_map_keys [OF assms]
  by (auto simp: entries_of_def map_view_def sorted_wrt_map distinct_map map_of_filter
      intro: sorted_wrt_filter inj_on_subset)

lemma map_call_meets:
  assumes "ok c" and gt: "\<And>a b. key_gt K a b \<longleftrightarrow> lt b a"
  shows "ok (snd (run_steps (map_call_steps K L dflt q) c)) \<and>
         map_call_spec lt dflt q (map_view L c) (fst (run_steps (map_call_steps K L dflt q) c))
           (map_view L (snd (run_steps (map_call_steps K L dflt q) c)))"
proof (cases q)
  case (Keyed r)
  note oper = keyed_store.keyed_oper_spec [OF map_store assms(1), of dflt r]
  show ?thesis
    using oper keyed [OF oper(2), of lt]
    by (simp add: Keyed run_bind_steps map_steps_run split_beta)
next
  case (AllIn i)
  then show ?thesis
    using assms(1) all_in [of lt "map_view L c" "elems L c" dflt i] entries_of_filter [OF assms(1), of "\<lambda>_. True"]
    by (simp add: run_bind_steps GetAll_steps_run map_LocalGetAllDataInServer_def scan_loop_all begin_eq)
next
  case (RangeIn i lo hi)
  note run = Contains_steps_run [OF assms(1), of K lo hi]
  show ?thesis
  proof (cases "tl_size L c = 1")
    case True
    then obtain k v where e: "elems L c = [(k, v)]"
      using size_elems [OF assms(1)] by (cases "elems L c") auto
    then show ?thesis
      using assms(1) range_in_one [of lt dflt i lo hi k v] begin_eq [OF assms(1)]
      by (simp add: RangeIn run_bind_steps run map_LocalContainsInServer_def True gt map_view_def)
  next
    case False
    have range: "(\<lambda>k. if lt k lo \<or> lt hi k then None else map_view L c k)
        = (\<lambda>k. if \<not> lt k lo \<and> \<not> lt hi k then map_view L c k else None)"
      by auto
    have "entries_of lt (\<lambda>k. if lt k lo \<or> lt hi k then None else map_view L c k)
        (filter (\<lambda>e. \<not> lt (fst e) lo \<and> \<not> lt hi (fst e)) (elems L c))"
      using entries_of_filter [OF assms(1), of "\<lambda>k. \<not> lt k lo \<and> \<not> lt hi k"]
      by (simp add: range)
    then show ?thesis
      using assms(1) False one_entry [OF assms(1)] range_in [of "map_view L c" lt lo hi _ dflt i]
      by (simp add: RangeIn run_bind_steps run map_range_exact [OF assms(1) gt])
  qed
qed

end

subsection \<open>Property\<close>

text \<open>
  C9: Threads of any number of processes may run Put, Get, Erase and the two queries on the
  servers of a map and interleave between any two reads of a query: every query that has
  returned answered the entries of one moment, all of them in the order of the keys or those
  in its range (a server with a single entry looks at the lower bound only, strictly), namely
  what the server held when the calls before it in the order of their releases had run. No
  query leaves its loop for want of fuel, and no call is stuck.
\<close>
theorem map_queries_are_snapshots:
  assumes "map_container L lt ok" "\<And>a b. key_gt K a b \<longleftrightarrow> lt b a" "\<forall>i. ok (w i)"
    and "(locked_step (map_site hm) (map_call_steps K L dflt))\<^sup>*\<^sup>* (threads_start w) s"
  shows "(\<exists>m. spec_run (on_site (map_site hm) (map_call_spec lt dflt)) (map fst (call_log s))
              (\<lambda>i. map_view L (w i)) (map snd (call_log s)) m \<and>
            (\<forall>i. mutexes s i = None \<longrightarrow> map_view L (structures s i) = m i)) \<and>
         (\<forall>t q. threads s t = Waiting q \<longrightarrow>
            (\<exists>s' log r. (locked_step (map_site hm) (map_call_steps K L dflt))\<^sup>*\<^sup>* s s' \<and>
               call_log s' = call_log s @ log @ [(q, r)]))"
  using map_calls.threads_follow [where ok = ok and view = "map_view L" and spec = "map_call_spec lt dflt",
      OF assms(4,3) map_container.map_call_meets [OF assms(1) _ assms(2)]]
    every_call_can_return [OF assms(4)] by blast

definition sample_query_schedule :: "(nat \<times> (nat, nat) map_call option) list" where
  "sample_query_schedule =
     [(0, Some (AllIn 1)), (1, Some (Keyed (PutReq 3 30))), (0, None), (0, None), (0, None), (1, None),
      (0, None), (1, None), (0, None), (0, None), (1, None), (1, None), (1, None),
      (2, Some (RangeIn 1 3 5)), (2, None), (2, None), (2, None), (2, None), (2, None), (2, None),
      (2, None), (2, None)]"

lemma map_queries_are_snapshots_witness:
  "\<exists>s m. (locked_step (map_site (\<lambda>_. 1)) (map_call_steps sample_keys (list_map_lib (<)) 0))\<^sup>*\<^sup>*
            (threads_start (\<lambda>_. [(2, 20), (5, 50)])) s \<and>
     call_log s = [(AllIn 1, Entries (Some [(2, 20), (5, 50)])), (Keyed (PutReq 3 30), Answer (PutResp True)),
       (RangeIn 1 3 5, Entries (Some [(3, 30), (5, 50 :: nat)]))] \<and>
     spec_run (on_site (map_site (\<lambda>_. 1)) (map_call_spec (<) 0)) (map fst (call_log s))
       (\<lambda>_. map_view (list_map_lib (<)) [(2 :: nat, 20), (5, 50)]) (map snd (call_log s)) m"
proof -
  let ?code = "map_call_steps sample_keys (list_map_lib (<)) (0 :: nat)"
  let ?s = "run_schedule (map_site (\<lambda>_. 1)) ?code sample_query_schedule (\<lambda>_. [(2 :: nat, 20), (5, 50)])"
  note run = run_schedule_reaches [of "map_site (\<lambda>_. 1)" ?code "\<lambda>_. [(2, 20), (5, 50)]" sample_query_schedule]
  have log: "call_log ?s = [(AllIn 1, Entries (Some [(2, 20), (5, 50)])),
      (Keyed (PutReq 3 30), Answer (PutResp True)), (RangeIn 1 3 5, Entries (Some [(3, 30), (5, 50)]))]"
    by code_simp
  have ok: "\<forall>i :: u16. sorted_wrt (\<lambda>a b. fst a < fst b) ((\<lambda>_. [(2 :: nat, 20 :: nat), (5, 50)]) i)"
    by simp
  have gt: "key_gt sample_keys a b \<longleftrightarrow> b < a" for a b
    by simp
  show ?thesis
    using map_queries_are_snapshots [OF list_map.map_container_axioms gt ok run] run log by blast
qed

end
