(* ===== verification/Unlocked_Reads.thy ===== *)
theory Unlocked_Reads
  imports Queue_Threads Set_Threads
begin

section \<open>Reads that take no lock\<close>

text \<open>
  \<open>queue::LocalWaitForElement\<close> polls \<open>size()\<close> and \<open>set::LocalSize\<close> reads it while other threads
  may be inside an operation. What such a read finds is a structure that the operation in
  progress passes through. The read itself is taken as one step here; in C++ it races with the
  writer.
\<close>

subsection \<open>The structures a call passes through\<close>

primrec passes :: "('c, 'r) steps \<Rightarrow> 'c \<Rightarrow> 'c list" where
  "passes (Return r) = (\<lambda>c. [c])"
| "passes (Step act next) = (\<lambda>c. c # passes (next c) (act c))"

lemma passes_read_write [simp]:
  "passes (read_step next) c = c # passes (next c) c"
  "passes (write_step act rest) c = c # passes rest (act c)"
  by (simp_all add: read_step_def write_step_def)

lemma passes_start: "c \<in> set (passes p c)"
  by (cases p) auto

text \<open>Whoever is inside has come to what is left of his call on a way through it.\<close>

inductive comes_to :: "('c, 'r) steps \<Rightarrow> 'c \<Rightarrow> ('c, 'r) steps \<Rightarrow> 'c \<Rightarrow> bool" where
  come_start: "comes_to p c p c"
| come_step: "comes_to p c (Step act next) d \<Longrightarrow> comes_to p c (next d) (act d)"

lemma comes_to_passes: "comes_to p c q d \<Longrightarrow> set (passes q d) \<subseteq> set (passes p c)"
  by (induction rule: comes_to.induct) auto

lemma comes_to_passed: "comes_to p c q d \<Longrightarrow> d \<in> set (passes p c)"
  by (rule subsetD [OF comes_to_passes passes_start])

definition passing_inv ::
  "('q \<Rightarrow> u16) \<Rightarrow> ('q \<Rightarrow> ('c, 'r) steps) \<Rightarrow> 'c world \<Rightarrow> ('c, 'q, 'r) threads_state \<Rightarrow> bool" where
  "passing_inv site code w s \<longleftrightarrow>
     (\<exists>v. run_requests (at_once site code) (map fst (call_log s)) w = (map snd (call_log s), v) \<and>
          mutex_inv site code v (structures s) (mutexes s) (threads s) \<and>
          (\<forall>t q p. threads s t = Inside q p \<longrightarrow>
             comes_to (code q) (v (site q)) p (structures s (site q))))"

lemma passing_inv_step:
  assumes "locked_step site code s s'" "passing_inv site code w s"
  shows "passing_inv site code w s'"
proof -
  obtain v where v: "run_requests (at_once site code) (map fst (call_log s)) w = (map snd (call_log s), v)"
    "mutex_inv site code v (structures s) (mutexes s) (threads s)"
    "\<And>t q p. threads s t = Inside q p \<Longrightarrow> comes_to (code q) (v (site q)) p (structures s (site q))"
    using assms(2) by (auto simp: passing_inv_def)
  note free = mutex_invD(3) [OF v(2)]
  from assms(1) show ?thesis
  proof cases
    case (call t q)
    then show ?thesis
      using v(1,3) mutex_inv_call [OF v(2)] by (fastforce simp: passing_inv_def split: if_splits)
  next
    case (lock t q)
    then show ?thesis
      using v(1,3) mutex_inv_lock [OF v(2)] free [of "site q"]
      by (auto simp: passing_inv_def intro: come_start split: if_splits)
  next
    case (work t q act nxt)
    have alone: "u = t" if "threads s u = Inside q' p" "site q' = site q" for u q' p
      using mutex_inv_alone [OF v(2) work(2) that] .
    show ?thesis
      using v(1) mutex_inv_work [OF v(2) work(2)] v(3) alone come_step [OF v(3) [OF work(2)]]
      by (auto simp: passing_inv_def work(1) split: if_splits)
  next
    case (unlock t q r)
    have alone: "u = t" if "threads s u = Inside q' p" "site q' = site q" for u q' p
      using mutex_inv_alone [OF v(2) unlock(2) that] .
    show ?thesis
      using v(1) mutex_inv_unlock [OF v(2) unlock(2)] v(3) alone
      by (auto simp: passing_inv_def unlock(1) run_requests_snoc at_once_def split: if_splits)
  qed
qed

lemma passing_inv_reachable:
  "(locked_step site code)\<^sup>*\<^sup>* (threads_start w) s \<Longrightarrow> passing_inv site code w s"
  by (induction rule: rtranclp_induct)
    (auto simp: threads_start_def passing_inv_def mutex_inv_start dest: passing_inv_step [unfolded passing_inv_def])

text \<open>
  A call that changes the structure once passes through the structure before it and the one
  after it only: the read falls before or after the call as a whole.
\<close>

context locked_calls
begin

lemma unlocked_read:
  assumes "(locked_step site code)\<^sup>*\<^sup>* (threads_start w) s"
    and "\<And>q c. set (passes (code q) c) \<subseteq> {c, snd (oper q c)}"
  shows "\<exists>extra. (extra = [] \<or> (\<exists>t q p. threads s t = Inside q p \<and> site q = i \<and> extra = [q])) \<and>
           structures s i = snd (run_requests (at_once site code) (map fst (call_log s) @ extra) w) i"
proof -
  obtain v where v: "run_requests (at_once site code) (map fst (call_log s)) w = (map snd (call_log s), v)"
    "mutex_inv site code v (structures s) (mutexes s) (threads s)"
    "\<And>t q p. threads s t = Inside q p \<Longrightarrow> comes_to (code q) (v (site q)) p (structures s (site q))"
    using passing_inv_reachable [OF assms(1)] by (auto simp: passing_inv_def)
  show ?thesis
  proof (cases "structures s i = v i")
    case True
    then show ?thesis by (intro exI [of _ "[]"]) (simp add: v(1))
  next
    case False
    then obtain t where "mutexes s i = Some t" using mutex_invD(3) [OF v(2)] by (cases "mutexes s i") auto
    then obtain q p where t: "threads s t = Inside q p" "site q = i"
      using mutex_invD(4) [OF v(2)] by blast
    have "structures s i \<in> set (passes (code q) (v i))"
      using comes_to_passed [OF v(3) [OF t(1)]] t(2) by simp
    then have "structures s i = snd (oper q (v i))"
      using assms(2) [of q "v i"] False by blast
    then show ?thesis
      using t by (intro exI [of _ "[q]"]) (auto simp: run_requests_append v(1) at_once_oper split_beta)
  qed
qed

end

subsection \<open>queue and set\<close>

lemma queue_passes: "set (passes (queue_steps Q dflt q) c) \<subseteq> {c, snd (queue_home Q dflt (snd q) c)}"
  by (cases q; cases "snd q")
    (auto simp: queue_Push_steps_def queue_Pop_steps_def queue_Size_steps_def queue_LocalPush_def
      queue_LocalPop_def queue_LocalSize_def Let_def)

lemma set_passes: "set (passes (set_call_steps L dflt q) c) \<subseteq> {c, snd (set_oper L dflt q c)}"
proof (cases q)
  case (SetErase k)
  then show ?thesis by (auto simp: set_steps_defs set_local_defs split_beta)
qed (auto simp: set_steps_defs set_local_defs split: list.splits prod.splits if_splits)

lemma queue_at_once:
  assumes "deque_container Q items"
  shows "queues_of items (snd (run_requests (at_once fst (queue_steps Q dflt)) qs w))
           = snd (run_requests (spec_queue dflt) qs (queues_of items w))"
proof -
  have "fst (run_requests (at_once fst (queue_steps Q dflt)) qs w)
        = map id (fst (run_requests (spec_queue dflt) (map id qs) (queues_of items w))) \<and>
      queues_of items (snd (run_requests (at_once fst (queue_steps Q dflt)) qs w))
        = snd (run_requests (spec_queue dflt) (map id qs) (queues_of items w))"
    by (rule run_simulation [where R = "\<lambda>w a. queues_of items w = a"])
      (use queue_oper_sim [OF assms] in \<open>simp_all add: queue_threads.at_once_oper\<close>)
  then show ?thesis by simp
qed

text \<open>The calls a read can be placed after: those that have returned and maybe one in progress.\<close>

definition up_to_now ::
  "('q \<Rightarrow> u16) \<Rightarrow> u16 \<Rightarrow> ('c, 'q, 'r) threads_state \<Rightarrow> 'q list \<Rightarrow> bool" where
  "up_to_now site i s qs \<longleftrightarrow>
     qs = map fst (call_log s) \<or>
     (\<exists>t q p. threads s t = Inside q p \<and> site q = i \<and> qs = map fst (call_log s) @ [q])"

lemma run_reaches:
  assumes "f 0 = threads_start w" "\<And>t. f (Suc t) = f t \<or> locked_step site code (f t) (f (Suc t))"
  shows "(locked_step site code)\<^sup>*\<^sup>* (threads_start w) (f t)"
proof (induction t)
  case 0
  then show ?case by (simp add: assms(1))
next
  case (Suc t)
  then show ?case using assms(2) [of t] by (auto intro: rtranclp.rtrancl_into_rtrancl)
qed

lemma queue_read:
  assumes "deque_container Q items" "(locked_step fst (queue_steps Q dflt))\<^sup>*\<^sup>* (threads_start w) s"
  shows "\<exists>qs. up_to_now fst i s qs \<and>
           items (structures s i) = snd (run_requests (spec_queue dflt) qs (queues_of items w)) i"
proof -
  obtain extra where extra: "extra = [] \<or> (\<exists>t q p. threads s t = Inside q p \<and> fst q = i \<and> extra = [q])"
    "structures s i = snd (run_requests (at_once fst (queue_steps Q dflt)) (map fst (call_log s) @ extra) w) i"
    using queue_threads.unlocked_read [OF assms(2) queue_passes] by blast
  have "items (structures s i)
      = snd (run_requests (spec_queue dflt) (map fst (call_log s) @ extra) (queues_of items w)) i"
    using queue_at_once [OF assms(1), of dflt "map fst (call_log s) @ extra" w]
    by (metis extra(2) queues_of_def)
  then show ?thesis using extra(1) by (auto simp: up_to_now_def)
qed

lemma queue_read_free:
  assumes "deque_container Q items" "(locked_step fst (queue_steps Q dflt))\<^sup>*\<^sup>* (threads_start w) s"
    and "mutexes s i = None"
  shows "items (structures s i)
           = snd (run_requests (spec_queue dflt) (map fst (call_log s)) (queues_of items w)) i"
proof -
  obtain v where v: "run_requests (at_once fst (queue_steps Q dflt)) (map fst (call_log s)) w
      = (map snd (call_log s), v)" "mutex_inv fst (queue_steps Q dflt) v (structures s) (mutexes s) (threads s)"
    using locked_inv_reachable [OF assms(2)] by (auto simp: locked_inv_def)
  show ?thesis
    using queue_at_once [OF assms(1), of dflt "map fst (call_log s)" w] mutex_invD(3) [OF v(2) assms(3)]
    by (simp add: v(1) queues_of_def fun_eq_iff)
qed

subsection \<open>Properties\<close>

text \<open>
  C30: A process waits for an element of a queue, and polls at any moments of a run in which
  threads interleave inside Push, Pop and Size. If the wait returns, then there was a moment at
  which the queue, as the calls that had returned by then and at most one in progress make it,
  held an element. Conversely it returns as soon as a poll falls on a moment at which nobody is
  inside and the calls that have returned leave an element, unless that poll comes after the
  counter of the loop has overflown.
\<close>
theorem queue_wait_among_threads:
  assumes "deque_container Q items" "f 0 = threads_start w"
    and "\<And>t. f (Suc t) = f t \<or> locked_step fst (queue_steps Q dflt) (f t) (f (Suc t))"
  shows "(fst (queue_LocalWaitForElement Q my_rank (\<lambda>t. structures (f (poll t)) i)) = Inr True \<longrightarrow>
            (\<exists>t qs. up_to_now fst i (f (poll t)) qs \<and>
               snd (run_requests (spec_queue dflt) qs (queues_of items w)) i \<noteq> [])) \<and>
         (\<forall>t. mutexes (f (poll t)) i = None \<and>
            snd (run_requests (spec_queue dflt) (map fst (call_log (f (poll t)))) (queues_of items w)) i \<noteq> []
            \<longrightarrow> fst (queue_LocalWaitForElement Q my_rank (\<lambda>t. structures (f (poll t)) i)) = Inr True \<or>
                2 ^ 31 \<le> t \<and>
                fst (queue_LocalWaitForElement Q my_rank (\<lambda>t. structures (f (poll t)) i)) = Inl IntOverflow)"
proof -
  note reach = run_reaches [of f w, OF assms(2,3)]
  note size = deque_container.size_items [OF assms(1)]
  show ?thesis
    using queue_read [OF assms(1) reach] queue_read_free [OF assms(1) reach]
    by (auto simp: wait_outcome size not_less) (metis not_less)+
qed

text \<open>A run from a schedule: one move after the other, and then nothing.\<close>

definition moves ::
  "('q \<Rightarrow> u16) \<Rightarrow> ('q \<Rightarrow> ('c, 'r) steps) \<Rightarrow> (nat \<times> 'q option) list \<Rightarrow> 'c world \<Rightarrow> nat \<Rightarrow>
     ('c, 'q, 'r) threads_state" where
  "moves site code sched w t = fold (move site code) (take t sched) (threads_start w)"

lemma moves_run:
  "moves site code sched w 0 = threads_start w"
  "moves site code sched w (Suc t) = moves site code sched w t \<or>
     locked_step site code (moves site code sched w t) (moves site code sched w (Suc t))"
  using move_moves by (cases "t < length sched"; fastforce simp: moves_def take_Suc_conv_app_nth)+

definition sample_wait_schedule :: "(nat \<times> (u16 \<times> nat qrequest) option) list" where
  "sample_wait_schedule = [(0, Some (1, PushReq 7)), (0, None), (0, None), (0, None)]"

lemma queue_wait_among_threads_witness:
  "fst (queue_LocalWaitForElement list_deque_lib 0
     (\<lambda>t. structures (moves fst (queue_steps list_deque_lib 0) sample_wait_schedule (\<lambda>_. []) t) 1))
     = Inr True"
proof -
  let ?f = "moves fst (queue_steps list_deque_lib 0) sample_wait_schedule (\<lambda>_. [])"
  have free: "mutexes (?f 4) 1 = None" and log: "map fst (call_log (?f 4)) = [(1, PushReq 7)]"
    by code_simp+
  have left: "snd (run_requests (spec_queue 0) [(1, PushReq (7 :: nat))] (queues_of id (\<lambda>_. []))) 1 \<noteq> []"
    by simp
  show ?thesis
    using queue_wait_among_threads [where f = ?f and poll = "\<lambda>t. t" and i = 1 and my_rank = 0,
        OF list_deque.deque_container_axioms moves_run, THEN conjunct2, THEN spec, of 4]
    unfolding log using free left by (auto dest: mp [OF _ conjI])
qed

text \<open>
  The unlocked \<open>Size\<close> of a set, read at any moment of a run in which threads interleave
  inside Put, Get, Erase, SeekFirst and PopFirst, is the number of keys that the set holds after
  the calls that have returned by then and at most one in progress.
\<close>
theorem set_Size_among_threads:
  assumes "set_container L lt ok" "\<forall>i. ok (w i)"
    and "(locked_step (set_site hm) (set_call_steps L dflt))\<^sup>*\<^sup>* (threads_start w) s"
  shows "\<exists>qs rs X. up_to_now (set_site hm) i s qs \<and>
           spec_run (on_site (set_site hm) (set_spec lt dflt)) qs (\<lambda>i. set (elems L (w i))) rs X \<and>
           fst (set_LocalSize L (structures s i)) = word_of_nat (card (X i))"
proof -
  obtain extra where extra: "extra = [] \<or> (\<exists>t q p. threads s t = Inside q p \<and> set_site hm q = i \<and> extra = [q])"
    "structures s i = snd (run_requests (at_once (set_site hm) (set_call_steps L dflt))
       (map fst (call_log s) @ extra) w) i"
    using set_threads.unlocked_read [OF assms(3) set_passes] by blast
  note runs = set_threads.at_once_follows [where ok = ok and view = "\<lambda>c. set (elems L c)"
      and spec = "set_spec lt dflt", OF set_container.set_oper_spec [OF assms(1)] assms(2),
      of hm "map fst (call_log s) @ extra"]
  have "ok (structures s i)" using runs extra(2) by simp
  then have "tl_size L (structures s i) = card (set (elems L (structures s i)))"
    using tree_container.size_elems [OF set_container.axioms(1) [OF assms(1)]]
      set_container.distinct_set_elems [OF assms(1)] by (simp add: distinct_card)
  then have "fst (set_LocalSize L (structures s i)) = word_of_nat (card (set (elems L (structures s i))))"
    by (simp add: set_LocalSize_def)
  moreover have "up_to_now (set_site hm) i s (map fst (call_log s) @ extra)"
    using extra(1) by (auto simp: up_to_now_def)
  ultimately show ?thesis using runs extra(2) by metis
qed

lemma set_Size_among_threads_witness:
  "\<exists>qs rs X. up_to_now (set_site (\<lambda>_. 2)) 2
       (run_schedule (set_site (\<lambda>_. 2)) (set_call_steps (list_set_lib (<)) 0) (take 8 sample_set_schedule)
          (\<lambda>_. [2, 5, 8 :: nat])) qs \<and>
     spec_run (on_site (set_site (\<lambda>_. 2)) (set_spec (<) 0)) qs (\<lambda>_. {2, 5, 8}) rs X \<and>
     word_of_nat (card (X 2)) = (3 :: u64)"
proof -
  let ?s = "run_schedule (set_site (\<lambda>_. 2)) (set_call_steps (list_set_lib (<)) 0)
      (take 8 sample_set_schedule) (\<lambda>_. [2, 5, 8 :: nat])"
  have ok: "\<forall>i :: u16. sorted_wrt (<) ((\<lambda>_. [2, 5, 8 :: nat]) i)" by simp
  have size: "fst (set_LocalSize (list_set_lib (<)) (structures ?s 2)) = 3" by code_simp
  have start: "set (elems (list_set_lib (<)) [2, 5, 8 :: nat]) = {2, 5, 8}"
    by (simp add: ol_defs)
  show ?thesis
    using set_Size_among_threads [OF list_set.set_container_axioms ok run_schedule_reaches
        [of "set_site (\<lambda>_. 2)" "set_call_steps (list_set_lib (<)) 0" "\<lambda>_. [2, 5, 8 :: nat]"
          "take 8 sample_set_schedule"], of 2]
    by (simp only: size start) metis
qed

end
