(* ===== verification/Full_Segments.thy ===== *)
theory Full_Segments
  imports Query_Threads
begin

section \<open>Full mapped files\<close>

text \<open>
  A server creates its mapped file with the size that the configuration gives. A Put that finds
  no memory in it ends in \<open>boost::interprocess::bad_alloc\<close>; the destructor of its
  \<open>scoped_lock\<close> releases the mutex as the exception leaves the operation. A remote caller gets
  \<open>rpc_error\<close> instead, as the rpclib server is told to answer exceptions
  (\<open>suppress_exceptions\<close>). Here Put of map, multimap and unordered_map is modelled with this
  outcome, as an operation and as steps of threads, and for the map also over the network.
\<close>

subsection \<open>What fits into a file\<close>

text \<open>
  \<open>fits c\<close>: the file has the memory that \<open>c\<close> takes; an insertion throws where its result does
  not fit. The containers allocate a node per entry and no other memory for it: what fits still
  does without an entry, or with another value in its place.
\<close>

locale bounded_map = map_container L lt ok
  for L :: "('k, 'k \<times> 'v, 'c) tree_lib" and lt and ok +
  fixes fits :: "'c \<Rightarrow> bool"
  assumes fits_assign: "ok c \<Longrightarrow> fits c \<Longrightarrow> k \<in> fst ` set (elems L c) \<Longrightarrow>
      fits (tl_insert_or_assign L (k, v) c)"
    and fits_erase: "ok c \<Longrightarrow> fits c \<Longrightarrow> fits (fst (tl_erase L k c))"

locale bounded_multimap = multimap_container L lt ok
  for L :: "('k, 'k \<times> 'v, 'c) tree_lib" and lt and ok +
  fixes fits :: "'c \<Rightarrow> bool"
  assumes fits_replace: "ok c \<Longrightarrow> fits c \<Longrightarrow> elems L c = rev bs @ e # as \<Longrightarrow>
      fits (tl_insert L (k, v) (tl_erase_at L (bs, e # as) c))"
    and fits_erase: "ok c \<Longrightarrow> fits c \<Longrightarrow> fits (fst (tl_erase L k c))"

locale bounded_hash = hash_container H ok
  for H :: "('k, 'v, 'c) hash_lib" and ok +
  fixes fits :: "'c \<Rightarrow> bool"
  assumes fits_assign: "ok c \<Longrightarrow> fits c \<Longrightarrow> map_of (entries H c) k \<noteq> None \<Longrightarrow>
      fits (hl_insert_or_assign H k v c)"
    and fits_erase: "ok c \<Longrightarrow> fits c \<Longrightarrow> fits (fst (hl_erase H k c))"

subsection \<open>Put, with its exception\<close>

definition map_LocalPut_in ::
  "('c \<Rightarrow> bool) \<Rightarrow> ('k, 'k \<times> 'v, 'c) tree_lib \<Rightarrow> 'k \<Rightarrow> 'v \<Rightarrow> 'c \<Rightarrow> bool result \<times> 'c" where
  "map_LocalPut_in fits L k data mymap =
     (let assigned = tl_insert_or_assign L (k, data) mymap
      in if fits assigned then (Inr True, assigned) else (Inl BadAlloc, mymap))"

definition mmap_LocalPut_in ::
  "('c \<Rightarrow> bool) \<Rightarrow> ('k, 'k \<times> 'v, 'c) tree_lib \<Rightarrow> 'k \<Rightarrow> 'v \<Rightarrow> 'c \<Rightarrow> bool result \<times> 'c" where
  "mmap_LocalPut_in fits L k data mymap =
     (let erased = (case tl_find L k mymap of
                      (bs, e # as) \<Rightarrow> tl_erase_at L (bs, e # as) mymap
                    | (_, []) \<Rightarrow> mymap);
          inserted = tl_insert L (k, data) erased
      in if fits inserted then (Inr True, inserted) else (Inl BadAlloc, erased))"

definition umap_LocalPut_in ::
  "('c \<Rightarrow> bool) \<Rightarrow> ('k, 'v, 'c) hash_lib \<Rightarrow> 'k \<Rightarrow> 'v \<Rightarrow> 'c \<Rightarrow> bool result \<times> 'c" where
  "umap_LocalPut_in fits H k data myHashMap =
     (let assigned = hl_insert_or_assign H k data myHashMap
      in if fits assigned then (Inr True, assigned) else (Inl BadAlloc, myHashMap))"

text \<open>The other operations allocate nothing.\<close>

fun full_oper ::
  "('k \<Rightarrow> 'v \<Rightarrow> 'c \<Rightarrow> bool result \<times> 'c) \<Rightarrow> ('k \<Rightarrow> 'c \<Rightarrow> (bool \<times> 'v) \<times> 'c) \<Rightarrow>
     ('k \<Rightarrow> 'c \<Rightarrow> (bool \<times> 'v) \<times> 'c) \<Rightarrow> ('k, 'v) request \<Rightarrow> 'c \<Rightarrow> 'v response result \<times> 'c" where
  "full_oper fput lget lerase (PutReq k v) c = map_prod (map_sum id PutResp) id (fput k v c)"
| "full_oper fput lget lerase (GetReq k) c = map_prod (Inr \<circ> GetResp) id (lget k c)"
| "full_oper fput lget lerase (EraseReq k) c = map_prod (Inr \<circ> EraseResp) id (lerase k c)"

subsection \<open>The promise: a map that may refuse a new key\<close>

text \<open>A refusal has a reason: what the key's server holds leaves no room for the entry.\<close>

inductive full_spec ::
  "basket_error set \<Rightarrow> ('k \<Rightarrow> 'v \<Rightarrow> ('k \<rightharpoonup> 'v) \<Rightarrow> bool) \<Rightarrow> 'v \<Rightarrow> ('k, 'v) request \<Rightarrow> ('k \<rightharpoonup> 'v) \<Rightarrow>
     'v response result \<Rightarrow> ('k \<rightharpoonup> 'v) \<Rightarrow> bool" for errors full dflt where
  answered: "spec_request dflt q m = (r, m') \<Longrightarrow> full_spec errors full dflt q m (Inr r) m'"
| refused: "m k = None \<Longrightarrow> full k v m \<Longrightarrow> e \<in> errors \<Longrightarrow>
     full_spec errors full dflt (PutReq k v) m (Inl e) m"

lemma full_spec_thrown:
  "full_spec {e} full dflt q m r m' \<Longrightarrow> full_spec {e'} full dflt q m (map_sum (\<lambda>_. e') id r) m'"
  by (induction rule: full_spec.induct) (auto intro: full_spec.intros)

definition no_room ::
  "('k \<Rightarrow> 'v \<Rightarrow> 'c \<Rightarrow> bool \<times> 'c) \<Rightarrow> ('c \<Rightarrow> bool) \<Rightarrow> ('c \<Rightarrow> 'k \<Rightarrow> 'v option) \<Rightarrow> ('k \<Rightarrow> u16) \<Rightarrow>
     'k \<Rightarrow> 'v \<Rightarrow> ('k \<rightharpoonup> 'v) \<Rightarrow> bool" where
  "no_room lput fit lookup hm k v m \<longleftrightarrow>
     (\<exists>c. fit c \<and> lookup c = (\<lambda>k'. if hm k' = hm k then m k' else None) \<and> \<not> fit (snd (lput k v c)))"

lemma refines_fits:
  "refines hm (\<lambda>c. ok c \<and> fits c) lookup w m \<longleftrightarrow> refines hm ok lookup w m \<and> (\<forall>i. fits (w i))"
  by (auto simp: refines_def)

locale full_store = keyed_store lput lget lerase lall lookup ok dflt
  for lput :: "'k \<Rightarrow> 'v \<Rightarrow> 'c \<Rightarrow> bool \<times> 'c" and lget lerase lall lookup ok dflt +
  fixes fput :: "'k \<Rightarrow> 'v \<Rightarrow> 'c \<Rightarrow> bool result \<times> 'c"
    and fits :: "'c \<Rightarrow> bool"
  assumes fput_cases: "ok c \<Longrightarrow> fits c \<Longrightarrow>
      fput k v c = (Inr True, snd (lput k v c)) \<and> fits (snd (lput k v c)) \<or>
      fput k v c = (Inl BadAlloc, c) \<and> lookup c k = None \<and> \<not> fits (snd (lput k v c))"
    and fits_lerase: "ok c \<Longrightarrow> fits c \<Longrightarrow> fits (snd (lerase k c))"
begin

lemma full_request_refines:
  assumes "refines hm (\<lambda>c. ok c \<and> fits c) lookup w m"
  shows "\<exists>m'. full_spec {BadAlloc} (no_room lput (\<lambda>c. ok c \<and> fits c) lookup hm) dflt q m
             (fst (full_oper fput lget lerase q (w (hm (request_key q))))) m' \<and>
           refines hm (\<lambda>c. ok c \<and> fits c) lookup
             (w(hm (request_key q) := snd (full_oper fput lget lerase q (w (hm (request_key q)))))) m'"
proof -
  have R: "refines hm ok lookup w m" and ok: "ok (w i)" and fits: "fits (w i)" for i
    using assms by (auto simp: refines_fits refines_def)
  have here: "lookup (w (hm k)) k = m k" for k
    using R by (auto simp: refines_def global_view_def)
  have there: "lookup (w (hm k)) = (\<lambda>k'. if hm k' = hm k then m k' else None)" for k
  proof
    show "lookup (w (hm k)) k' = (if hm k' = hm k then m k' else None)" for k'
    proof (cases "hm k' = hm k")
      case True
      then show ?thesis using here [of k'] by simp
    next
      case False
      then show ?thesis using R by (cases "lookup (w (hm k)) k'") (auto simp: refines_def placed_def)
    qed
  qed
  let ?full = "no_room lput (\<lambda>c. ok c \<and> fits c) lookup hm"
  note served = request_refines [OF R, of q, unfolded home_request_oper run_local_def split_beta]
  have answer: ?thesis
    if "full_oper fput lget lerase q (w (hm (request_key q)))
          = map_prod Inr id (keyed_oper lput lget lerase q (w (hm (request_key q))))"
      "fits (snd (keyed_oper lput lget lerase q (w (hm (request_key q)))))"
    using that served fits answered [of dflt q m _ "snd (spec_request dflt q m)" "{BadAlloc}" ?full]
    by (auto simp: refines_fits intro!: exI [of _ "snd (spec_request dflt q m)"])
  show ?thesis
  proof (cases q)
    case (PutReq k v)
    note put = put_result [OF ok, of k v "hm k"]
    show ?thesis
    proof (cases "fput k v (w (hm k)) = (Inr True, snd (lput k v (w (hm k))))")
      case True
      then show ?thesis
        using put fput_cases [OF ok fits, of k v "hm k"]
        by (intro answer) (auto simp: PutReq prod_eq_iff)
    next
      case False
      then have threw: "fput k v (w (hm k)) = (Inl BadAlloc, w (hm k))" "m k = None"
        "\<not> fits (snd (lput k v (w (hm k))))"
        using fput_cases [OF ok fits, of k v "hm k"] here by auto
      then have "?full k v m"
        unfolding no_room_def using ok fits there by blast
      with threw show ?thesis
        using assms by (auto simp: PutReq intro!: exI [of _ m] refused)
    qed
  next
    case (GetReq k)
    then show ?thesis
      by (intro answer) (simp_all add: get_eq [OF ok] fits)
  next
    case (EraseReq k)
    then show ?thesis
      by (intro answer) (simp_all add: fits_lerase [OF ok fits] prod_eq_iff)
  qed
qed

end

subsection \<open>The steps of a Put\<close>

text \<open>
  The insertion is one step. Where it throws, the structure stays and the operation is over: what
  is left is to release the mutex.
\<close>

definition alloc_step :: "('c \<Rightarrow> bool) \<Rightarrow> ('c \<Rightarrow> 'c) \<Rightarrow> 'r \<Rightarrow> ('c, 'r result) steps" where
  "alloc_step fits ins r =
     Step (\<lambda>c. if fits (ins c) then ins c else c)
       (\<lambda>c. Return (if fits (ins c) then Inr r else Inl BadAlloc))"

lemma run_alloc_step [simp]:
  "run_steps (alloc_step fits ins r) c = (if fits (ins c) then (Inr r, ins c) else (Inl BadAlloc, c))"
  by (simp add: alloc_step_def)

definition map_Put_steps_in ::
  "('c \<Rightarrow> bool) \<Rightarrow> ('k, 'k \<times> 'v, 'c) tree_lib \<Rightarrow> 'k \<Rightarrow> 'v \<Rightarrow> ('c, 'v response result) steps" where
  "map_Put_steps_in fits L k data = alloc_step fits (tl_insert_or_assign L (k, data)) (PutResp True)"

definition mmap_Put_steps_in ::
  "('c \<Rightarrow> bool) \<Rightarrow> ('k, 'k \<times> 'v, 'c) tree_lib \<Rightarrow> 'k \<Rightarrow> 'v \<Rightarrow> ('c, 'v response result) steps" where
  "mmap_Put_steps_in fits L k data =
     read_step (\<lambda>mymap.
       let insert_data = alloc_step fits (tl_insert L (k, data)) (PutResp True)
       in case tl_find L k mymap of
            (bs, e # as) \<Rightarrow> write_step (tl_erase_at L (bs, e # as)) insert_data
          | (_, []) \<Rightarrow> insert_data)"

definition umap_Put_steps_in ::
  "('c \<Rightarrow> bool) \<Rightarrow> ('k, 'v, 'c) hash_lib \<Rightarrow> 'k \<Rightarrow> 'v \<Rightarrow> ('c, 'v response result) steps" where
  "umap_Put_steps_in fits H k data = alloc_step fits (hl_insert_or_assign H k data) (PutResp True)"

text \<open>The other calls are those of \<open>Map_Threads\<close>.\<close>

fun full_steps ::
  "('k \<Rightarrow> 'v \<Rightarrow> ('c, 'v response result) steps) \<Rightarrow> (('k, 'v) request \<Rightarrow> ('c, 'v response) steps) \<Rightarrow>
     ('k, 'v) request \<Rightarrow> ('c, 'v response result) steps" where
  "full_steps put others (PutReq k v) = put k v"
| "full_steps put others q = bind_steps (others q) (\<lambda>r. Return (Inr r))"

lemma full_steps_run:
  assumes "\<And>k v. run_steps (put k v) c = map_prod (map_sum id PutResp) id (fput k v c)"
    and "run_steps (others q) c = keyed_oper lput lget lerase q c"
  shows "run_steps (full_steps put others q) c = full_oper fput lget lerase q c"
  using assms by (cases q) (simp_all add: run_bind_steps split_beta prod_eq_iff)

locale full_threads = full_store lput lget lerase lall lookup ok dflt fput fits
  for lput :: "'k \<Rightarrow> 'v \<Rightarrow> 'c \<Rightarrow> bool \<times> 'c" and lget lerase lall lookup ok dflt fput fits +
  fixes code :: "('k, 'v) request \<Rightarrow> ('c, 'v response result) steps"
  assumes full_code: "run_steps (code q) c = full_oper fput lget lerase q c"
begin

lemma threads_on_full_files:
  assumes "refines hm (\<lambda>c. ok c \<and> fits c) lookup w m"
    and "(locked_step (\<lambda>q. hm (request_key q)) code)\<^sup>*\<^sup>* (threads_start w) s"
  shows "\<exists>m'. spec_run (full_spec {BadAlloc} (no_room lput (\<lambda>c. ok c \<and> fits c) lookup hm) dflt)
             (map fst (call_log s)) m (map snd (call_log s)) m' \<and>
           (\<forall>k. mutexes s (hm k) = None \<longrightarrow> lookup (structures s (hm k)) k = m' k)"
proof -
  have calls: "locked_calls code (full_oper fput lget lerase)"
    by (rule locked_calls.intro) (rule full_code)
  let ?spec = "full_spec {BadAlloc} (no_room lput (\<lambda>c. ok c \<and> fits c) lookup hm) dflt"
  obtain v m' where m': "spec_run ?spec (map fst (call_log s)) m (map snd (call_log s)) m'"
    "refines hm (\<lambda>c. ok c \<and> fits c) lookup v m'" "\<And>i. mutexes s i = None \<Longrightarrow> structures s i = v i"
    using locked_calls.threads_follow_on [where R = "refines hm (\<lambda>c. ok c \<and> fits c) lookup"
        and spec = ?spec, OF calls assms(2,1) full_request_refines]
    by blast
  then show ?thesis
    by (auto simp: refines_def global_view_def intro!: exI [of _ m'])
qed

end

subsection \<open>map, multimap and unordered_map\<close>

fun map_steps_in ::
  "('c \<Rightarrow> bool) \<Rightarrow> ('k, 'k \<times> 'v, 'c) tree_lib \<Rightarrow> 'v \<Rightarrow> ('k, 'v) request \<Rightarrow> ('c, 'v response result) steps" where
  "map_steps_in fits L dflt q = full_steps (map_Put_steps_in fits L) (map_steps L dflt) q"

fun mmap_steps_in ::
  "('c \<Rightarrow> bool) \<Rightarrow> ('k, 'k \<times> 'v, 'c) tree_lib \<Rightarrow> 'v \<Rightarrow> ('k, 'v) request \<Rightarrow> ('c, 'v response result) steps" where
  "mmap_steps_in fits L dflt q = full_steps (mmap_Put_steps_in fits L) (mmap_steps L dflt) q"

fun umap_steps_in ::
  "('c \<Rightarrow> bool) \<Rightarrow> ('k, 'v, 'c) hash_lib \<Rightarrow> 'v \<Rightarrow> ('k, 'v) request \<Rightarrow> ('c, 'v response result) steps" where
  "umap_steps_in fits H dflt q = full_steps (umap_Put_steps_in fits H) (umap_steps H dflt) q"

lemma steps_in_run:
  "run_steps (map_steps_in fits L dflt q) c
     = full_oper (map_LocalPut_in fits L) (map_LocalGet L dflt) (map_LocalErase L dflt) q c"
  "run_steps (mmap_steps_in fits L dflt q) c
     = full_oper (mmap_LocalPut_in fits L) (mmap_LocalGet L dflt) (mmap_LocalErase L dflt) q c"
  "run_steps (umap_steps_in fits H dflt q) d
     = full_oper (umap_LocalPut_in fits H) (umap_LocalGet H dflt) (umap_LocalErase H dflt) q d"
  unfolding map_steps_in.simps mmap_steps_in.simps umap_steps_in.simps
  by (rule full_steps_run [OF _ map_steps_run] full_steps_run [OF _ mmap_steps_run]
      full_steps_run [OF _ umap_steps_run],
      simp add: map_Put_steps_in_def map_LocalPut_in_def mmap_Put_steps_in_def mmap_LocalPut_in_def
        umap_Put_steps_in_def umap_LocalPut_in_def Let_def split: list.splits prod.splits)+

context bounded_map
begin

lemma full_store:
  "full_store (map_LocalPut L) (map_LocalGet L dflt) (map_LocalErase L dflt)
     (map_LocalGetAllDataInServer L) (map_view L) ok dflt (map_LocalPut_in fits L) fits"
proof (intro full_store.intro full_store_axioms.intro map_store)
  show "map_LocalPut_in fits L k v c = (Inr True, snd (map_LocalPut L k v c)) \<and>
        fits (snd (map_LocalPut L k v c)) \<or>
      map_LocalPut_in fits L k v c = (Inl BadAlloc, c) \<and> map_view L c k = None \<and>
        \<not> fits (snd (map_LocalPut L k v c))"
    if "ok c" "fits c" for c k v
    using fits_assign [OF that, of k v]
    by (auto simp: map_LocalPut_in_def map_LocalPut_def map_view_def map_of_eq_None_iff Let_def)
qed (simp add: map_LocalErase_def split_beta fits_erase)

lemma full_map_threads:
  "full_threads (map_LocalPut L) (map_LocalGet L dflt) (map_LocalErase L dflt)
     (map_LocalGetAllDataInServer L) (map_view L) ok dflt (map_LocalPut_in fits L) fits
     (map_steps_in fits L dflt)"
  by (intro full_threads.intro full_threads_axioms.intro full_store steps_in_run)

end

context bounded_hash
begin

lemma full_store:
  "full_store (umap_LocalPut H) (umap_LocalGet H dflt) (umap_LocalErase H dflt)
     (umap_LocalGetAllDataInServer H) (umap_view H) ok dflt (umap_LocalPut_in fits H) fits"
proof (intro full_store.intro full_store_axioms.intro umap_store)
  show "umap_LocalPut_in fits H k v c = (Inr True, snd (umap_LocalPut H k v c)) \<and>
        fits (snd (umap_LocalPut H k v c)) \<or>
      umap_LocalPut_in fits H k v c = (Inl BadAlloc, c) \<and> umap_view H c k = None \<and>
        \<not> fits (snd (umap_LocalPut H k v c))"
    if "ok c" "fits c" for c k v
    using fits_assign [OF that, of k v]
    by (cases "map_of (entries H c) k") (auto simp: umap_LocalPut_in_def umap_LocalPut_def umap_view_def Let_def)
qed (simp add: umap_LocalErase_def split_beta fits_erase)

lemma full_umap_threads:
  "full_threads (umap_LocalPut H) (umap_LocalGet H dflt) (umap_LocalErase H dflt)
     (umap_LocalGetAllDataInServer H) (umap_view H) ok dflt (umap_LocalPut_in fits H) fits
     (umap_steps_in fits H dflt)"
  by (intro full_threads.intro full_threads_axioms.intro full_store steps_in_run)

end

context multimap_container
begin

text \<open>Without the law of \<open>bounded_multimap\<close>: what a Put that throws leaves.\<close>

lemma mmap_Put_in_cases:
  assumes "mmap_ok L ok c"
  shows "mmap_LocalPut_in fits L k v c = (Inr True, snd (mmap_LocalPut L k v c)) \<and>
           fits (snd (mmap_LocalPut L k v c)) \<or>
         (\<exists>c'. mmap_LocalPut_in fits L k v c = (Inl BadAlloc, c') \<and> mmap_ok L ok c' \<and>
           mmap_view L c' = (mmap_view L c)(k := None) \<and> \<not> fits (snd (mmap_LocalPut L k v c)))"
proof -
  have c: "ok c" "distinct (map fst (elems L c))"
    using assms by (simp_all add: mmap_ok_def)
  show ?thesis
  proof (cases rule: find_cases [OF c(1), of k])
    case (1 bs)
    have "(mmap_view L c)(k := None) = mmap_view L c"
      using 1(2) by (simp add: mmap_view_def fun_upd_idem map_of_eq_None_iff)
    then show ?thesis
      using 1 assms by (auto simp: mmap_LocalPut_in_def mmap_LocalPut_def Let_def)
  next
    case (2 bs e as)
    note erased = ok_erase_at [OF c(1) 2(3)] elems_erase_at [OF c(1) 2(3)]
    have "rev bs @ as = filter (\<lambda>e. fst e \<noteq> k) (elems L c)"
      using filter_key_split [of "rev bs" e as] c(2) 2(2) by (simp add: 2(3))
    then have "mmap_view L (tl_erase_at L (bs, e # as) c) = (mmap_view L c)(k := None)"
      by (simp add: mmap_view_def erased(2) map_of_filter_neq)
    moreover have "mmap_ok L ok (tl_erase_at L (bs, e # as) c)"
      using c(2) 2(3) by (simp add: mmap_ok_def erased)
    ultimately show ?thesis
      using 2(1) by (auto simp: mmap_LocalPut_in_def mmap_LocalPut_def Let_def)
  qed
qed

end

context bounded_multimap
begin

lemma full_store:
  "full_store (mmap_LocalPut L) (mmap_LocalGet L dflt) (mmap_LocalErase L dflt)
     (mmap_LocalGetAllDataInServer L) (mmap_view L) (mmap_ok L ok) dflt (mmap_LocalPut_in fits L) fits"
proof (intro full_store.intro full_store_axioms.intro mmap_store)
  show "mmap_LocalPut_in fits L k v c = (Inr True, snd (mmap_LocalPut L k v c)) \<and>
        fits (snd (mmap_LocalPut L k v c)) \<or>
      mmap_LocalPut_in fits L k v c = (Inl BadAlloc, c) \<and> mmap_view L c k = None \<and>
        \<not> fits (snd (mmap_LocalPut L k v c))"
    if "mmap_ok L ok c" "fits c" for c k v
  proof -
    have "ok c" using that by (simp add: mmap_ok_def)
    show ?thesis
    proof (cases rule: find_cases [OF \<open>ok c\<close>, of k])
      case (2 bs e as)
      then show ?thesis
        using fits_replace [OF \<open>ok c\<close> that(2) 2(3), of k v]
        by (simp add: mmap_LocalPut_in_def mmap_LocalPut_def)
    qed (simp add: mmap_LocalPut_in_def mmap_LocalPut_def mmap_view_def map_of_eq_None_iff Let_def)
  qed
qed (simp add: mmap_LocalErase_def mmap_ok_def split_beta fits_erase)

lemma full_mmap_threads:
  "full_threads (mmap_LocalPut L) (mmap_LocalGet L dflt) (mmap_LocalErase L dflt)
     (mmap_LocalGetAllDataInServer L) (mmap_view L) (mmap_ok L ok) dflt (mmap_LocalPut_in fits L) fits
     (mmap_steps_in fits L dflt)"
  by (intro full_threads.intro full_threads_axioms.intro full_store steps_in_run)

end

sublocale bounded_map \<subseteq> full: full_threads "map_LocalPut L" "map_LocalGet L dflt"
  "map_LocalErase L dflt" "map_LocalGetAllDataInServer L" "map_view L" ok dflt
  "map_LocalPut_in fits L" fits "map_steps_in fits L dflt"
  for dflt
  by (rule full_map_threads)

sublocale bounded_hash \<subseteq> full: full_threads "umap_LocalPut H" "umap_LocalGet H dflt"
  "umap_LocalErase H dflt" "umap_LocalGetAllDataInServer H" "umap_view H" ok dflt
  "umap_LocalPut_in fits H" fits "umap_steps_in fits H dflt"
  for dflt
  by (rule full_umap_threads)

sublocale bounded_multimap \<subseteq> full: full_threads "mmap_LocalPut L" "mmap_LocalGet L dflt"
  "mmap_LocalErase L dflt" "mmap_LocalGetAllDataInServer L" "mmap_view L" "mmap_ok L ok" dflt
  "mmap_LocalPut_in fits L" fits "mmap_steps_in fits L dflt"
  for dflt
  by (rule full_mmap_threads)

subsection \<open>Files of a number of nodes\<close>

text \<open>Any container meets the contracts in a file that has room for \<open>cap\<close> nodes.\<close>

context map_container
begin

lemma size_dom: "ok c \<Longrightarrow> tl_size L c = card (fst ` set (elems L c))"
  using distinct_card [OF distinct_map_keys] by (simp add: size_elems)

lemma bounded_by_size: "bounded_map L lt ok (\<lambda>c. tl_size L c \<le> cap)"
proof (intro bounded_map.intro bounded_map_axioms.intro map_container_axioms)
  fix c k v
  assume c: "ok c" "tl_size L c \<le> cap"
  have "fst ` set (elems L (tl_insert_or_assign L (k, v) c)) = insert k (fst ` set (elems L c))"
    using map_of_assign [OF c(1), of k v] by (metis dom_fun_upd dom_map_of_conv_image_fst option.distinct(1))
  then show "k \<in> fst ` set (elems L c) \<Longrightarrow> tl_size L (tl_insert_or_assign L (k, v) c) \<le> cap"
    using c by (simp add: size_dom ok_assign insert_absorb)
  show "tl_size L (fst (tl_erase L k c)) \<le> cap"
    using c by (auto simp: size_elems ok_erase elems_erase intro: le_trans [OF length_filter_le])
qed

end

context hash_container
begin

lemma size_keys: "ok c \<Longrightarrow> hl_size H c = card (dom (map_of (entries H c)))"
  using distinct_card [OF distinct_keys] by (simp add: hl_size_entries dom_map_of_conv_image_fst)

lemma bounded_by_size: "bounded_hash H ok (\<lambda>c. hl_size H c \<le> cap)"
proof (intro bounded_hash.intro bounded_hash_axioms.intro hash_container_axioms)
  fix c k v
  assume c: "ok c" "hl_size H c \<le> cap"
  show "map_of (entries H c) k \<noteq> None \<Longrightarrow> hl_size H (hl_insert_or_assign H k v c) \<le> cap"
    using c by (auto simp: size_keys ok_hl_assign map_of_hl_assign insert_absorb domIff)
  show "hl_size H (fst (hl_erase H k c)) \<le> cap"
    using c card_Diff1_le [of "dom (map_of (entries H c))" k]
    by (simp add: size_keys ok_hl_erase map_of_hl_erase dom_fun_upd)
qed

end

context multimap_container
begin

lemma bounded_by_size: "bounded_multimap L lt ok (\<lambda>c. tl_size L c \<le> cap)"
proof (intro bounded_multimap.intro bounded_multimap_axioms.intro multimap_container_axioms)
  fix c k v bs e as
  assume c: "ok c" "tl_size L c \<le> cap"
  show "tl_size L (tl_insert L (k, v) (tl_erase_at L (bs, e # as) c)) \<le> cap"
    if "elems L c = rev bs @ e # as"
    using mset_elems_insert [OF ok_erase_at [OF c(1) that], of k v] c that
    by (simp add: size_elems ok_insert_multi ok_erase_at elems_erase_at flip: size_mset)
  show "tl_size L (fst (tl_erase L k c)) \<le> cap"
    using c by (auto simp: size_elems ok_erase elems_erase intro: le_trans [OF length_filter_le])
qed

end

interpretation bounded_list_map: bounded_map "list_map_lib ((<) :: 'k::linorder \<Rightarrow> 'k \<Rightarrow> bool)" "(<)"
  "sorted_wrt (\<lambda>a b. fst a < fst b)" "\<lambda>c. tl_size (list_map_lib ((<) :: 'k \<Rightarrow> 'k \<Rightarrow> bool)) c \<le> cap"
  for cap
  by (rule list_map.bounded_by_size)

interpretation bounded_list_hash: bounded_hash list_hash_lib "\<lambda>xs. distinct (map fst xs)"
  "\<lambda>c. hl_size list_hash_lib c \<le> cap"
  for cap
  by (rule list_hash.bounded_by_size)

interpretation bounded_list_multimap: bounded_multimap "list_map_lib ((<) :: 'k::linorder \<Rightarrow> 'k \<Rightarrow> bool)"
  "(<)" "sorted_wrt (\<lambda>a b. \<not> fst b < fst a)"
  "\<lambda>c. tl_size (list_map_lib ((<) :: 'k \<Rightarrow> 'k \<Rightarrow> bool)) c \<le> cap"
  for cap
  by (rule list_multimap.bounded_by_size)

subsection \<open>Put of the map over the network\<close>

text \<open>
  The server answers an exception of the function it has bound as an error, which the client's
  call throws. What is left of \<open>map_bindings\<close> and of the route is as in \<open>Ordered_Map\<close>.
\<close>

fun handle_throwing ::
  "('r \<Rightarrow> ('k, 'v) wire) \<Rightarrow> ('k \<Rightarrow> 'v \<Rightarrow> 'c \<Rightarrow> 'r result \<times> 'c) \<Rightarrow> ('k, 'v, 'c) handler" where
  "handle_throwing enc f [WKey k, WVal v] c =
     (case f k v c of
        (Inr r, c') \<Rightarrow> (Inr (enc r), c')
      | (Inl e, c') \<Rightarrow> (Inl HandlerThrew, c'))"
| "handle_throwing enc f _ c = (Inl BadCast, c)"

definition map_bindings_in ::
  "('c \<Rightarrow> bool) \<Rightarrow> build \<Rightarrow> 'k key_ops \<Rightarrow> ('k, 'k \<times> 'v, 'c) tree_lib \<Rightarrow> 'v \<Rightarrow> RPCImplementation \<Rightarrow>
     string \<Rightarrow> ('k, 'v, 'c) registry \<Rightarrow> ('k, 'v, 'c) registry" where
  "map_bindings_in fits B K L dflt impl func_prefix reg =
     RPC_bind B impl (func_prefix @ ''_Contains'')
       (handle_key_key WPairs (map_LocalContainsInServer K L))
    (RPC_bind B impl (func_prefix @ ''_GetAllData'')
       (handle0 WPairs (map_LocalGetAllDataInServer L))
    (RPC_bind B impl (func_prefix @ ''_Erase'')
       (handle_key (\<lambda>(b, v). WFoundVal b v) (map_LocalErase L dflt))
    (RPC_bind B impl (func_prefix @ ''_Get'')
       (handle_key (\<lambda>(b, v). WFoundVal b v) (map_LocalGet L dflt))
    (RPC_bind B impl (func_prefix @ ''_Put'')
       (handle_throwing WBool (map_LocalPut_in fits L)) reg))))"

definition map_Put_in ::
  "('c \<Rightarrow> bool) \<Rightarrow> ('k, 'v, 'c) env \<Rightarrow> 'k key_ops \<Rightarrow> ('k, 'k \<times> 'v, 'c) tree_lib \<Rightarrow> container \<Rightarrow>
     'k \<Rightarrow> 'v \<Rightarrow> 'c world \<Rightarrow> bool result \<times> 'c world" where
  "map_Put_in fits E K L obj k data =
     with_route (route_size (keyHash K k) (obj_num_servers obj)) (\<lambda>key_int w.
       if is_local obj key_int
       then (case map_LocalPut_in fits L k data (w (obj_my_server obj)) of
               (r, c) \<Rightarrow> (r, w(obj_my_server obj := c)))
       else RPC_CALL_WRAPPER E (obj_rpc obj) (obj_func_prefix obj) ''_Put'' key_int as_bool
              [WKey k, WVal data] w)"

fun map_request_in ::
  "('c \<Rightarrow> bool) \<Rightarrow> 'k key_ops \<Rightarrow> ('k, 'k \<times> 'v, 'c) tree_lib \<Rightarrow> 'v \<Rightarrow>
     ('k, 'v, 'c) client \<times> ('k, 'v) request \<Rightarrow> 'c world \<Rightarrow> 'v response result \<times> 'c world" where
  "map_request_in fits K L dflt ((E, obj), PutReq k v) w =
     map_outcome PutResp (map_Put_in fits E K L obj k v w)"
| "map_request_in fits K L dflt ((E, obj), GetReq k) w =
     map_outcome GetResp (map_Get E K L dflt obj k w)"
| "map_request_in fits K L dflt ((E, obj), EraseReq k) w =
     map_outcome EraseResp (map_Erase E K L dflt obj k w)"

text \<open>What a client of the structure at \<open>i\<close> gets to see of an exception.\<close>

definition thrown_at :: "container \<Rightarrow> u16 \<Rightarrow> basket_error" where
  "thrown_at obj i = (if is_local obj i then BadAlloc else HandlerThrew)"

lemma map_answers_in:
  assumes "compiled_in B impl"
  shows "map_bindings_in fits B K L dflt impl p reg (p @ ''_Put'')
           = Some (handle_throwing WBool (map_LocalPut_in fits L))"
    and "answers (map_bindings_in fits B K L dflt impl p reg) (p @ ''_Get'') [WKey k] as_found_val
           (map_LocalGet L dflt k)"
    and "answers (map_bindings_in fits B K L dflt impl p reg) (p @ ''_Erase'') [WKey k] as_found_val
           (map_LocalErase L dflt k)"
  using assms by (simp_all add: answers_def map_bindings_in_def RPC_bind_def split_beta)

lemma map_Put_in_home:
  assumes "joined n p (map_bindings_in fits B K L dflt impl p reg) (E, obj)" "compiled_in B impl"
  shows "map_Put_in fits E K L obj k v w
           = (case map_LocalPut_in fits L k v (w (home n (keyHash K k))) of
                (Inr r, c) \<Rightarrow> (Inr r, w(home n (keyHash K k) := c))
              | (Inl e, c) \<Rightarrow> (Inl (thrown_at obj (home n (keyHash K k))), w))"
proof -
  let ?i = "home n (keyHash K k)"
  note J = joinedD [OF assms(1)]
  note route = joined_route [OF assms(1), of "keyHash K k"]
  note served = served_calls.wrapper_served [OF servers_run_served [OF J(2)], of ?i p "''_Put''"]
  note fails = served_calls.wrapper_fails [OF servers_run_served [OF J(2)], of ?i p "''_Put''"]
  have len: "unat ?i < length (server_list (obj_rpc obj))"
    using route J(3) by (simp add: n_servers_def)
  have kept: "map_LocalPut_in fits L k v c = (Inl e, c') \<Longrightarrow> c' = c \<and> e = BadAlloc" for c c' e
    by (auto simp: map_LocalPut_in_def Let_def split: if_splits)
  show ?thesis
  proof (cases "map_LocalPut_in fits L k v (w ?i)")
    case (Pair r c)
    show ?thesis
    proof (cases r)
      case (Inl e)
      then show ?thesis
        using Pair kept [of "w ?i" e c] route J(4) fails [OF len map_answers_in(1) [OF assms(2)],
            where e = HandlerThrew and w = w and args = "[WKey k, WVal v]" and as_ret = as_bool]
        by (auto simp: map_Put_in_def thrown_at_def is_local_def)
    next
      case (Inr b)
      then show ?thesis
        using Pair route J(4) served [OF len map_answers_in(1) [OF assms(2)],
            where w = w and args = "[WKey k, WVal v]" and as_ret = as_bool and response = "WBool b"]
        by (auto simp: map_Put_in_def is_local_def)
    qed
  qed
qed

lemma map_request_in_home:
  assumes "joined n p (map_bindings_in fits B K L dflt impl p reg) (E, obj)" "compiled_in B impl"
  shows "map_request_in fits K L dflt ((E, obj), q) w
           = (case full_oper (map_LocalPut_in fits L) (map_LocalGet L dflt) (map_LocalErase L dflt) q
                     (w (home n (keyHash K (request_key q)))) of
                (r, c) \<Rightarrow>
                  (map_sum (\<lambda>_. thrown_at obj (home n (keyHash K (request_key q)))) id r,
                   w(home n (keyHash K (request_key q)) := c)))"
proof (cases q)
  case (PutReq k v)
  then show ?thesis
    by (auto simp: map_Put_in_home [OF assms] map_LocalPut_in_def Let_def)
next
  case (GetReq k)
  then show ?thesis
    using dispatch_size [OF assms(1) map_answers_in(2) [OF assms(2), where k = k],
        where h = "keyHash K k" and w = w]
    by (simp add: map_Get_def run_local_def split_beta)
next
  case (EraseReq k)
  then show ?thesis
    using dispatch_size [OF assms(1) map_answers_in(3) [OF assms(2), where k = k],
        where h = "keyHash K k" and w = w]
    by (simp add: map_Erase_def run_local_def split_beta)
qed

subsection \<open>Properties\<close>

text \<open>
  C11: Any clients of a map whose servers' files have bounded room, over rpclib, run any sequence
  of Put, Get and Erase: each call either answers as on one map, or it is a Put of a key that
  the map does not hold and for which its server's file has no room, throws \<open>bad_alloc\<close> next to the server and \<open>rpc_error\<close> elsewhere, and
  changes nothing. The value of a key that is there can always be replaced.
\<close>
theorem map_clients_on_full_files:
  assumes "bounded_map L lt ok fits" "compiled_in B RPCLIB"
    and J: "\<forall>r \<in> set reqs. joined n p (map_bindings_in fits B K L dflt RPCLIB p reg) (fst r) \<and>
          rpclib_env (fst (fst r))"
    and "refines (\<lambda>k. home n (keyHash K k)) (\<lambda>c. ok c \<and> fits c) (map_view L) w m"
  shows "\<exists>m'. spec_run (\<lambda>(cl, q). full_spec {thrown_at (snd cl) (home n (keyHash K (request_key q)))}
               (no_room (map_LocalPut L) (\<lambda>c. ok c \<and> fits c) (map_view L) (\<lambda>k. home n (keyHash K k))) dflt q)
             reqs m (fst (run_requests (map_request_in fits K L dflt) reqs w)) m' \<and>
           refines (\<lambda>k. home n (keyHash K k)) (\<lambda>c. ok c \<and> fits c) (map_view L)
             (snd (run_requests (map_request_in fits K L dflt) reqs w)) m'"
proof -
  let ?hm = "\<lambda>k. home n (keyHash K k)"
  let ?oper = "full_oper (map_LocalPut_in fits L) (map_LocalGet L dflt) (map_LocalErase L dflt)"
  let ?R = "refines ?hm (\<lambda>c. ok c \<and> fits c) (map_view L)"
  let ?full = "no_room (map_LocalPut L) (\<lambda>c. ok c \<and> fits c) (map_view L) ?hm"
  have step: "\<exists>m'. (case r of (cl, q) \<Rightarrow>
        full_spec {thrown_at (snd cl) (?hm (request_key q))} ?full dflt q) m (fst (map_request_in fits K L dflt r w)) m' \<and>
      ?R (snd (map_request_in fits K L dflt r w)) m'"
    if r_in: "r \<in> set reqs" and R: "?R w m" for r w m
  proof -
    obtain E obj q where r: "r = ((E, obj), q)" by (metis surj_pair)
    have joins: "joined n p (map_bindings_in fits B K L dflt RPCLIB p reg) (E, obj)"
      using J r_in by (auto simp: r)
    obtain m' where m': "full_spec {BadAlloc} ?full dflt q m (fst (?oper q (w (?hm (request_key q))))) m'"
      "?R (w(?hm (request_key q) := snd (?oper q (w (?hm (request_key q)))))) m'"
      using full_store.full_request_refines [OF bounded_map.full_store [OF assms(1)] R] by blast
    show ?thesis
      using full_spec_thrown [OF m'(1)] m'(2)
      by (intro exI [of _ m']) (simp add: r map_request_in_home [OF joins assms(2)] split_beta)
  qed
  show ?thesis
    by (rule run_follows [where R = ?R, OF assms(4)]) (use step in auto)
qed

text \<open>Three servers with a file of one node each: the second key of a server is refused.\<close>

definition one_node :: "(nat \<times> nat) list \<Rightarrow> bool" where
  "one_node c \<longleftrightarrow> tl_size (list_map_lib (<)) c \<le> 1"

definition sample_full_reg :: "string \<Rightarrow> (nat, nat, (nat \<times> nat) list) registry" where
  "sample_full_reg nam = map_bindings_in one_node rpclib_only sample_keys (list_map_lib (<)) 0 RPCLIB nam Map.empty"

definition sample_full_calls :: "((nat, nat, (nat \<times> nat) list) client \<times> (nat, nat) request) list" where
  "sample_full_calls =
     (let cl = sample_client ''m'' (sample_full_reg ''m'')
      in [(cl 1 True, PutReq 4 10), (cl 1 True, PutReq 7 70), (cl 0 True, PutReq 7 71), (cl 0 True, PutReq 4 11),
          (cl 2 False, GetReq 4)])"

lemma map_clients_on_full_files_witness:
  "\<exists>m'. spec_run (\<lambda>(cl, q). full_spec {thrown_at (snd cl) (home 3 (keyHash sample_keys (request_key q)))}
          (no_room (map_LocalPut (list_map_lib (<))) (\<lambda>c. sorted_wrt (\<lambda>a b. fst a < fst b) c \<and> one_node c)
            (map_view (list_map_lib (<))) (\<lambda>k. home 3 (keyHash sample_keys k))) 0 q)
       sample_full_calls Map.empty
       [Inr (PutResp True), Inl BadAlloc, Inl HandlerThrew, Inr (PutResp True), Inr (GetResp (True, 11))] m'"
proof -
  have results: "fst (run_requests (map_request_in one_node sample_keys (list_map_lib (<)) 0) sample_full_calls (\<lambda>_. []))
      = [Inr (PutResp True), Inl BadAlloc, Inl HandlerThrew, Inr (PutResp True), Inr (GetResp (True, 11))]"
    by code_simp
  have env: "rpclib_env (sample_env reg)" for reg :: "(nat, nat, (nat \<times> nat) list) registry"
    by (simp add: rpclib_env_def sample_env_def rpclib_only_def ConfigurationManager_def)
  have joins: "\<forall>r \<in> set sample_full_calls.
      joined 3 ''m'' (map_bindings_in one_node rpclib_only sample_keys (list_map_lib (<)) 0 RPCLIB ''m'' Map.empty) (fst r) \<and>
      rpclib_env (fst (fst r))"
    by (simp add: sample_full_calls_def sample_joined_pair env sample_client_def flip: sample_full_reg_def)
  have bounded: "bounded_map (list_map_lib (<)) (<) (sorted_wrt (\<lambda>a b. fst a < fst b)) one_node"
    using list_map.bounded_by_size unfolding one_node_def [abs_def] .
  have start: "refines (\<lambda>k. home 3 (keyHash sample_keys k)) (\<lambda>c. sorted_wrt (\<lambda>a b. fst a < fst b) c \<and> one_node c)
      (map_view (list_map_lib (<))) (\<lambda>_. []) Map.empty"
    unfolding refines_fits by (rule conjI [OF list_map_empty_refines]) (simp add: one_node_def ol_defs)
  show ?thesis
    using map_clients_on_full_files [OF bounded rpclib_only_compiled joins start]
    by (auto simp: results)
qed

text \<open>
  C10: Threads may run Put, Get and Erase of a multimap whose servers' files have bounded room
  and interleave inside the calls, also between the erasure of the old entry in a Put and the
  insertion of the new one: the calls answer, in the order of their releases, as on one map that
  refuses a new key by \<open>bad_alloc\<close> where its server has no room for it and then stays as it was. A server nobody is inside of
  holds that map's values. An exception leaves no mutex locked: no call is stuck.
\<close>
theorem mmap_threads_on_full_files:
  assumes "bounded_multimap L lt ok fits"
    and "refines (\<lambda>k. home n (keyHash K k)) (\<lambda>c. mmap_ok L ok c \<and> fits c) (mmap_view L) w m"
    and "(locked_step (\<lambda>q. home n (keyHash K (request_key q))) (mmap_steps_in fits L dflt))\<^sup>*\<^sup>*
           (threads_start w) s"
  shows "(\<exists>m'. spec_run (full_spec {BadAlloc} (no_room (mmap_LocalPut L) (\<lambda>c. mmap_ok L ok c \<and> fits c)
                (mmap_view L) (\<lambda>k. home n (keyHash K k))) dflt)
              (map fst (call_log s)) m (map snd (call_log s)) m' \<and>
            (\<forall>k. mutexes s (home n (keyHash K k)) = None \<longrightarrow>
               mmap_view L (structures s (home n (keyHash K k))) k = m' k)) \<and>
         (\<forall>t q. threads s t = Waiting q \<longrightarrow>
            (\<exists>s' log r. (locked_step (\<lambda>q. home n (keyHash K (request_key q))) (mmap_steps_in fits L dflt))\<^sup>*\<^sup>* s s' \<and>
               call_log s' = call_log s @ log @ [(q, r)]))"
  using full_threads.threads_on_full_files [OF bounded_multimap.full_mmap_threads [OF assms(1)] assms(2,3)]
    every_call_can_return [OF assms(3)] by blast

definition sample_full_schedule :: "(nat \<times> (nat, nat) request option) list" where
  "sample_full_schedule =
     [(0, Some (PutReq 5 51)), (1, Some (PutReq 8 80)), (0, None), (0, None), (0, None), (1, None),
      (0, None), (0, None), (1, None), (1, None), (1, None), (1, None)]"

lemma mmap_threads_on_full_files_witness:
  "let full = no_room (mmap_LocalPut (list_map_lib (<)))
       (\<lambda>c. mmap_ok (list_map_lib (<)) (sorted_wrt (\<lambda>a b. \<not> fst b < fst a)) c \<and> one_node c)
       (mmap_view (list_map_lib (<))) (\<lambda>k. home 3 (keyHash sample_keys k))
   in \<exists>m'. spec_run (full_spec {BadAlloc} full 0) [PutReq 5 51, PutReq 8 80] [5 \<mapsto> 50]
        [Inr (PutResp True), Inl BadAlloc] m' \<and> m' 5 = Some 51"
proof -
  let ?site = "\<lambda>q. home 3 (keyHash sample_keys (request_key q))"
  let ?w = "(\<lambda>_. [])(2 := [(5 :: nat, 50 :: nat)])"
  let ?s = "run_schedule ?site (mmap_steps_in one_node (list_map_lib (<)) 0) sample_full_schedule ?w"
  note run = run_schedule_reaches [of ?site "mmap_steps_in one_node (list_map_lib (<)) 0" ?w sample_full_schedule]
  have log: "call_log ?s = [(PutReq 5 51, Inr (PutResp True)), (PutReq 8 80, Inl BadAlloc)]"
    and free: "mutexes ?s (home 3 (keyHash sample_keys 5)) = None"
    and now: "mmap_view (list_map_lib (<)) (structures ?s (home 3 (keyHash sample_keys 5))) 5 = Some 51"
    by code_simp+
  have bounded: "bounded_multimap (list_map_lib (<)) (<) (sorted_wrt (\<lambda>a b. \<not> fst b < fst a)) one_node"
    using list_multimap.bounded_by_size unfolding one_node_def [abs_def] .
  have start: "refines (\<lambda>k. home 3 (keyHash sample_keys k))
      (\<lambda>c. mmap_ok (list_map_lib (<)) (sorted_wrt (\<lambda>a b. \<not> fst b < fst a)) c \<and> one_node c)
      (mmap_view (list_map_lib (<))) ?w [5 \<mapsto> 50]"
    by (auto simp: refines_def placed_def global_view_def mmap_ok_def mmap_view_def one_node_def ol_defs
        home_def fun_eq_iff)
  let ?full = "no_room (mmap_LocalPut (list_map_lib (<)))
    (\<lambda>c. mmap_ok (list_map_lib (<)) (sorted_wrt (\<lambda>a b. \<not> fst b < fst a)) c \<and> one_node c)
    (mmap_view (list_map_lib (<))) (\<lambda>k. home 3 (keyHash sample_keys k))"
  obtain m' where m': "spec_run (full_spec {BadAlloc} ?full 0) (map fst (call_log ?s)) [5 \<mapsto> 50] (map snd (call_log ?s)) m'"
    "mutexes ?s (home 3 (keyHash sample_keys 5)) = None \<Longrightarrow>
       mmap_view (list_map_lib (<)) (structures ?s (home 3 (keyHash sample_keys 5))) 5 = m' 5"
    using mmap_threads_on_full_files [OF bounded start run] by blast
  show ?thesis
    using m'(1) m'(2) [OF free] unfolding log now Let_def by (intro exI [of _ m']) simp
qed

text \<open>
  C25: Where the values of a multimap take memory of their own in the file, so that a new value
  need not fit in place of an old one, a Put either stores its value or throws \<open>bad_alloc\<close> after
  it has erased the entry: the key is then missing, every other key keeps its value.
\<close>
theorem mmap_failed_Put_loses_entry:
  assumes "multimap_container L lt ok" "mmap_ok L ok c"
  shows "fst (mmap_LocalPut_in fits L k v c) =
           (if fits (snd (mmap_LocalPut L k v c)) then Inr True else Inl BadAlloc) \<and>
         mmap_view L (snd (mmap_LocalPut_in fits L k v c)) =
           (mmap_view L c)(k := if fits (snd (mmap_LocalPut L k v c)) then Some v else None)"
  using multimap_container.mmap_Put_in_cases [OF assms, of fits k v]
    multimap_container.mmap_put(3) [OF assms, of k v] by auto

lemma mmap_failed_Put_loses_entry_witness:
  "fst (mmap_LocalPut_in (\<lambda>c. sum_list (map snd c) \<le> 9) (list_map_lib (<)) 5 7 [(2, 3), (5 :: nat, 4 :: nat)])
     = Inl BadAlloc \<and>
   mmap_view (list_map_lib (<))
     (snd (mmap_LocalPut_in (\<lambda>c. sum_list (map snd c) \<le> 9) (list_map_lib (<)) 5 7 [(2, 3), (5 :: nat, 4 :: nat)]))
     = [2 \<mapsto> 3]"
proof -
  have ok: "mmap_ok (list_map_lib (<)) (sorted_wrt (\<lambda>a b. \<not> fst b < fst a)) [(2, 3), (5 :: nat, 4 :: nat)]"
    by (simp add: mmap_ok_def ol_defs)
  have full: "\<not> sum_list (map snd (snd (mmap_LocalPut (list_map_lib (<)) 5 7 [(2, 3), (5 :: nat, 4 :: nat)]))) \<le> 9"
    by code_simp
  have view: "(mmap_view (list_map_lib (<)) [(2, 3), (5 :: nat, 4 :: nat)])(5 := None) = [2 \<mapsto> 3]"
    by (simp add: mmap_view_def ol_defs fun_eq_iff)
  show ?thesis
    using mmap_failed_Put_loses_entry [OF list_multimap.multimap_container_axioms ok,
        of "\<lambda>c. sum_list (map snd c) \<le> 9" 5 7] full
    by (simp only: view if_False simp_thms)
qed

end
