(* ===== verification/Spec2Isabelle.thy ===== *)
theory Spec2Isabelle
  imports Ordered_Map Unordered_Map Ordered_Set Multi_Map Fifo_Queue Prio_Queue Sequencer Global_Clock
    Container_Names Hash_Callbacks Thallium_Engine Thallium_Handlers Map_Threads Queue_Threads Set_Threads
    Concurrent_Gather Life_Times Shared_Server Debug_Tools
    Query_Threads Unlocked_Reads Full_Segments
begin

  text \<open> \<^bold>\<open>Basket\<close> is a C++ library of distributed containers for MPI
  programs: a \<open>map\<close>, a hashed map, a set, a multimap, a queue, a priority queue, a
  global sequence number and a global clock. Each container is one structure per server, kept in
  a file that the processes of the server's node map into their memory. A client that runs on
  its own server's node (\<open>server_on_node\<close>) works on that structure directly, any
  other client sends the same operation to the server by a remote procedure call. Keyed
  containers choose the server from the hash of the key; queues and the sequencer let the caller
  name it.

  \<^bold>\<open>How a call runs.\<close> \<open>common/configuration_manager.h\<close> holds
  the process's configuration and reads the server list file. A container's constructor copies
  what it needs of it, asks \<open>communication/rpc_factory.h\<close> for the
  \<open>RPC\<close> object of its port, creates (server) or opens (client) the mapped file, and
  (server) binds its local operations under \<open>name_Operation\<close>. \<open>Put\<close>
  and the like hash the key, compare the server with their own and run \<open>LocalPut\<close>,
  or go through the macro \<open>RPC_CALL_WRAPPER\<close> and \<open>RPC::call\<close>
  (\<open>communication/rpc_lib.cpp\<close>) to the handler of the server.

  \<^bold>\<open>Theories.\<close>
  \<^item> \<open>Basket_Prelude\<close>: widths and conversions of the integers, the errors
    (\<open>basket_error\<close>, the exceptions and undefined behaviours that an operation can end in),
    \<open>atoi\<close> and \<open>std::to_string\<close>, lemmas on lists and maps. \<open>Singleton_Instance\<close>: \<open>singleton.h\<close>.
  \<^item> \<open>Basket_Config\<close>: \<open>ConfigurationManager\<close>: its fields (\<open>config\<close>), the parser \<open>LoadServers\<close>,
    which stores the names in \<open>CharStruct\<close>s, and the two default configurations.
  \<^item> \<open>Char_Struct\<close>: the 256-byte text buffer of \<open>data_structures.h\<close> byte by byte, with its
    packing and printing. \<open>Container_Names\<close>: the names and paths that the containers compute in
    such buffers, and their agreement with the strings of the other theories.
  \<^item> \<open>Basket_RPC\<close>: \<open>RPC\<close>, \<open>RPCFactory\<close> and the macros of \<open>common/macros.h\<close>. Contains the state
    every other theory works on: a \<open>world\<close> gives each server index the contents of its
    structure, a \<open>registry\<close> gives each bound name its handler. The two transports are the
    locales \<open>rpclib_network\<close> and \<open>thallium_network\<close>; either gives \<open>served_calls\<close>, on which all
    containers rest. \<open>Thallium_Engine\<close>: the one engine that the \<open>RPC\<close> objects of a process share.
    \<open>Thallium_Handlers\<close>: the methods that the macros \<open>THALLIUM_DEFINE\<close> make of the local operations
    and the Thallium case of each constructor, which binds them.
  \<^item> \<open>Container_Object\<close>: what all container classes repeat: the attributes (\<open>container\<close>), the
    constructor over the mapped files of a node (\<open>node\<close>), the route from a hash to a server,
    the choice between the local and the remote path, the gathering loop and the range scan.
    \<open>Concurrent_Gather\<close>: the gathering loop of \<open>map::GetAllData\<close> while other clients call in
    between its visits.
  \<^item> \<open>Life_Times\<close>: the same constructors and destructors over the files of an operating system
    (the locale \<open>mapped_files\<close>), where a process keeps a file it has mapped after its name is
    gone; and the table of a process's \<open>RPC\<close>, which names objects and their member functions
    (\<open>rpc_process\<close>) and in which a destroyed object stays.
    \<open>Shared_Server\<close>: two maps in the same server processes, with their files in one directory
    and their functions in one registry; the locale \<open>state_part\<close> makes the structure of one
    object inside a larger state a container again.
  \<^item> \<open>Container_Lib\<close>, \<open>Container_Ref\<close>: the Boost containers inside the structures, as records of
    the operations the sources call. Their documented behaviour is stated as locales
    (\<open>tree_container\<close> and its extensions for set, map and multimap; \<open>hash_container\<close>) and
    lists meet it.
  \<^item> \<open>Partition\<close>: the promise of a keyed container. Its specification is one map
    (\<open>spec_request\<close>); \<open>refines\<close> relates it to the servers' structures; the locale
    \<open>keyed_store\<close> states what local operations have to provide, and \<open>requests_refine\<close> in it
    shows that then the distributed container behaves as that map.
  \<^item> \<open>Ordered_Map\<close>, \<open>Unordered_Map\<close>, \<open>Ordered_Set\<close>, \<open>Multi_Map\<close>: the keyed classes, in the order
    of their sources: local operations, constructor, distributed operations, then the proof
    that the local operations are a \<open>keyed_store\<close> and the properties. \<open>Hash_Callbacks\<close>: \<open>Bind\<close>,
    \<open>Call\<close> and the \<open>WithCallback\<close> operations of the hashed map.
  \<^item> \<open>Fifo_Queue\<close>, \<open>Prio_Queue\<close>: the queues, over the locales \<open>deque_container\<close> and
    \<open>heap_container\<close>; their specification is a list, or a multiset, per server.
  \<^item> \<open>Locked_Steps\<close>, \<open>Map_Threads\<close>, \<open>Queue_Threads\<close>, \<open>Set_Threads\<close>: the calls inside the local
    operations of map, multimap, hashed map, queue, priority queue and set as steps of threads,
    which interleave except for the mutex of each structure (\<open>locked_step\<close>). The locale
    \<open>locked_calls\<close> states that the steps of a call make the operation; in it a specification of
    the operations, a function (\<open>threads_simulate\<close>) or a relation (\<open>threads_follow\<close>), becomes one
    of the interleaved threads, and \<open>locked_store\<close> extends it to the keyed containers.
  \<^item> \<open>Query_Threads\<close>: the two queries of \<open>map\<close> among them, with every read of their loops as a step.
    \<open>Unlocked_Reads\<close>: the reads of \<open>queue::LocalWaitForElement\<close> and \<open>set::LocalSize\<close>, which take no
    lock, while threads are inside the other operations.
  \<^item> \<open>Full_Segments\<close>: Put of the maps where the mapped file has no memory left: the exception, what
    it leaves of the structure and the mutex, and what a client gets to see of it. What fits into
    a file is a parameter, with the locales \<open>bounded_map\<close>, \<open>bounded_multimap\<close> and \<open>bounded_hash\<close>.
  \<^item> \<open>Sequencer\<close>, \<open>Global_Clock\<close>: the sequence numbers and the clock. \<open>Debug_Tools\<close>: the timer and
    the signal handler of \<open>common/debug.h\<close>.
  \<^item> \<open>Sample_Cluster\<close>: three servers and their clients, over rpclib and over Thallium, on which the
    closed instances run.

  \<^bold>\<open>What is shown.\<close> Every container refines its specification for all
  sequences of calls by any clients, local or remote, over rpclib or Thallium (the theorems
  \<open>..._clients_share_...\<close>), which takes together that the local and the remote path
  agree, that all clients choose the same server and that the local operations are right. The
  steps inside the calls are interleaved between threads for the sequencer
  (\<open>sequence_interleaving_safe\<close>), the maps
  (\<open>mmap_threads_share_one_map\<close>, and \<open>threads_share_one_map\<close> of
  \<open>locked_store\<close> for the others), the queues (\<open>queue_threads_no_loss\<close>,
  \<open>pq_threads_pop_greatest\<close>) and the set (\<open>set_threads_pop_once\<close>): the
  lock makes a call one step, at the moment of its release, and no call is stuck. So it is for
  the queries of the map (\<open>map_queries_are_snapshots\<close>). What a read without the
  lock finds is what the calls make that have returned by then and at most one in progress
  (\<open>queue_wait_among_threads\<close>, \<open>set_Size_among_threads\<close>), because
  every operation they race with changes its structure once. Where files may be full, Put of a
  new key throws if there is no room for it and changes nothing, for threads
  (\<open>mmap_threads_on_full_files\<close>) as for clients
  (\<open>map_clients_on_full_files\<close>), unless the values of a multimap take memory of
  their own (\<open>mmap_failed_Put_loses_entry\<close>). The wait of a queue ends within \<open>2 ^ 31\<close> polls, with an element or with the
  overflow of its counter (\<open>queue_wait_ends\<close>); its polls fall anywhere among the requests of
  others, of which it sees what they leave at those moments (\<open>queue_wait_woken_by_push\<close>). The loop over the
  servers in \<open>GetAllData\<close> is interleaved with other calls too: its answer gives for each key
  what the map held when the key's server was asked
  (\<open>map_GetAllData_among_writers\<close>). Over Thallium the bound methods respond exactly
  what the rpclib handlers answer (\<open>thallium_methods_respond_as_handlers\<close>), so one
  registry stands for both. The map from paths in which \<open>Container_Object\<close> keeps
  the structures is refined by real files (\<open>containers_over_files\<close>) until a server
  restarts: then its old clients and the new server hold different structures
  (\<open>clients_miss_a_restart\<close>). A destroyed object stays in the table of its \<open>RPC\<close> and is
  still called (\<open>calls_reach_a_destroyed_map\<close>). While the objects live, two maps on the same
  servers keep out of each other's way, because no file or function name of one is one of the
  other (\<open>two_maps_share_servers\<close>).
  \<open>configured_client_reads_its_writes\<close> follows a client from the server list file
  to its first operations. \<open>CharStruct\<close> refines strings of fewer than 256 bytes,
  keeps its invariant, orders by its text and survives packing. The others describe single
  operations, the configuration, the construction of the objects and the errors. Several state
  where the code departs from its evident purpose: the two routes of the hashed map, callbacks
  that are never run, range queries on a server with a single entry, the number of servers
  copied before the list is loaded, the overflow of the buffers for
  long names, colliding files, ports and engines, and the signed port of a
  Thallium client.

  \<^bold>\<open>Assumptions.\<close> The Boost containers and the transports are parameters. A
  call to the host and port of a server runs the handler that the server bound and answers its
  result, and all servers bind the same operations; over Thallium the ports lie below 32768.
  \<open>joined\<close> collects what makes a process a client of the servers. Each local
  operation but the \<open>Size\<close> of the set and the wait of the queue holds the
  structure's lock for its whole body, so outside the theories on threads it is one step. For
  the queries that scan a structure this is shown for the map and taken for granted for the
  other classes. A read without the lock is one step as well; in C++ it is a data race with a
  writer. A wait takes what its polls find as an argument. Undefined behaviour is an error value: what the program does from there on is not part
  of the model. Recursion is structural or has a measure (for the wait, what is left of
  \<open>2 ^ 31\<close> polls); only the loop of a query in steps (\<open>scan_steps\<close>) has fuel, one more than the size the query has read, which is
  shown to be enough. Bounds appear where the code's integers and buffers are narrow: at most
  65536 servers (\<open>uint16_t\<close> indices), names of fewer than 256 bytes, fewer than \<open>2 ^ 31\<close> elements for the
  \<open>int\<close> counter of \<open>SeekFirstN\<close>, \<open>2 ^ 64\<close> sequence
  numbers.

  \<^bold>\<open>Not modelled.\<close> The operations of the hashed map with a callback that
  returns \<open>void\<close>, and the distributed \<open>SeekFirstN\<close>: neither compiles
  when instantiated. A full mapped file in the set, the queues and the construction; the worker
  threads of the transports, and the bulk transfers of \<open>rpc_lib\<close>, which nothing
  calls; Thallium over RoCE beyond the addresses and the engine of its objects; tracing
  (\<open>AutoTrace\<close>, \<open>DBGVAR\<close>), which is empty in the builds that compile.
  \<open>std::move\<close> of an argument has no effect in the model: the caller's object after
  a \<open>Push\<close> is not part of it. In \<open>Debug_Tools\<close> the rounding of
  \<open>double\<close> is a parameter with a relative error.

  \<^bold>\<open>What is left.\<close> The queries of the set, the multimap and the hashed map
  as steps, and their \<open>GetAllData\<close> among writers, for which the locales stand
  ready; full files for the other classes.
\<close>

section \<open>From the configuration to the operations\<close>

text \<open>
  C19: a process that takes the default client configuration from a server list file and
  constructs a map over a fresh factory reads back what it puts: the route, the port, the
  name of the remote function and the handler bound under it all fit together.
\<close>
theorem configured_client_reads_its_writes:
  assumes "ConfigureDefaultClient files path cfg0 = Inr cfg"
    and "map_new B files mpi K L dflt nam (cfg, rpcs) (nod, reg0) = Inr (obj, ptr, (cfg', rpcs'), sys')"
    and "rpcs (RPC_PORT cfg) = None" "0 \<le> MPI_RANK cfg0" "length (SERVER_LIST cfg) \<le> 65536"
    and "servers_run E obj (map_bindings B' K L dflt impl nam reg)" "compiled_in B' impl"
    and "map_container L lt ok" "\<And>i. ok (w i)"
  shows "\<exists>w'. map_Put E K L obj k v w = (Inr True, w') \<and>
              map_Get E K L dflt obj k w' = (Inr (True, v), w')"
proof -
  have new: "new_container B files mpi nam (cfg, rpcs) = Inr (obj, cfg', rpcs')"
    using assms(2) by (cases sys') (auto simp: map_new_def dest: construct_container_new)
  have c: "obj_num_servers obj = int (n_servers obj)" "unat (obj_my_server obj) < n_servers obj"
    "server_list (obj_rpc obj) = SERVER_LIST cfg"
    using configured_consistent [OF _ new assms(3-5)] assms(1) by blast+
  moreover have "SERVER_LIST cfg \<noteq> []"
    using c(2) c(3) unfolding n_servers_def by auto
  ultimately have J: "joined (n_servers obj) nam (map_bindings B' K L dflt impl nam reg) (E, obj)"
    using assms(5,6) new_container_Inr(5) [OF new]
    by (simp add: joined_def client_ok_def n_servers_def)
  let ?h = "home (n_servers obj) (keyHash K k)"
  have put: "map_Put E K L obj k v w = run_local (map_LocalPut L k v) ?h w" for w
    unfolding map_Put_def by (rule dispatch_size [OF J map_answers(1) [OF assms(7)]])
  have get: "map_Get E K L dflt obj k w = run_local (map_LocalGet L dflt k) ?h w" for w
    unfolding map_Get_def by (rule dispatch_size [OF J map_answers(2) [OF assms(7)]])
  note store = map_container.map_store [OF assms(8), where dflt = dflt]
  have "map_LocalGet L dflt k (snd (map_LocalPut L k v (w ?h)))
      = ((True, v), snd (map_LocalPut L k v (w ?h)))"
    using keyed_store.get_eq [OF store keyed_store.put_ok [OF store assms(9)]]
      keyed_store.put_lookup [OF store assms(9)] by simp
  then show ?thesis
    using keyed_store.put_result [OF store assms(9), of k v ?h]
    by (simp add: put get run_local_def split_beta)
qed

lemma configured_client_reads_its_writes_witness:
  "\<exists>cfg obj ptr st' sys' (E :: (nat, nat, (nat \<times> nat) list) env) w'.
     ConfigureDefaultClient two_hosts ''list'' (ConfigurationManager rpclib_only RPCLIB 7 8) = Inr cfg \<and>
     map_new rpclib_only two_hosts (8, 7) sample_keys (list_map_lib (<)) (0 :: nat) ''m''
       (cfg, Map.empty) (Map.empty, Map.empty) = Inr (obj, ptr, st', sys') \<and>
     map_Put E sample_keys (list_map_lib (<)) obj 4 10 (\<lambda>_. []) = (Inr True, w') \<and>
     map_Get E sample_keys (list_map_lib (<)) 0 obj 4 w' = (Inr (True, 10), w')"
proof -
  let ?cfg = "(sample_conf False)\<lparr>SERVER_ON_NODE := False\<rparr>"
  let ?E = "\<lparr>env_build = rpclib_only, env_conf = ?cfg, env_resolve = id,
    env_net = loopback_net (RPC_PORT ?cfg) (SERVER_LIST ?cfg)
      (map_bindings rpclib_only sample_keys (list_map_lib (<)) 0 RPCLIB ''m''
        (Map.empty :: (nat, nat, (nat \<times> nat) list) registry))\<rparr>"
  have c: "ConfigureDefaultClient two_hosts ''list'' (ConfigurationManager rpclib_only RPCLIB 7 8)
      = Inr ?cfg"
    by (simp add: ConfigureDefaultClient_def LoadServers_two_hosts
        set_my_server_def sample_conf_def smod_range ConfigurationManager_def)
  obtain obj ptr cfg' rpcs' nod reg' where n:
    "map_new rpclib_only two_hosts (8, 7) sample_keys (list_map_lib (<)) (0 :: nat) ''m''
      (?cfg, Map.empty) (Map.empty, Map.empty) = Inr (obj, ptr, (cfg', rpcs'), (nod, reg'))"
    by (simp add: map_new_def construct_container_def new_container_def GetRPC_def RPC_new_def
        LoadServers_two_hosts sample_conf_def start_server_def compiled_in_def rpclib_only_def Let_def)
  have e: "rpclib_env ?E"
    by (simp add: rpclib_env_def sample_conf_def rpclib_only_def)
  have r: "0 \<le> MPI_RANK (ConfigurationManager rpclib_only RPCLIB 7 8)" by simp
  have l: "length (SERVER_LIST ?cfg) \<le> 65536" by (simp add: sample_conf_def)
  have new: "new_container rpclib_only two_hosts (8, 7) ''m'' (?cfg, Map.empty) = Inr (obj, cfg', rpcs')"
    using n by (auto simp: map_new_def dest: construct_container_new)
  have f: "server_port (obj_rpc obj) = RPC_PORT ?cfg"
    using new_container_fresh(1) [OF new] by simp
  have "server_list (obj_rpc obj) = SERVER_LIST ?cfg"
    using configured_consistent [OF disjI1 [OF c] new _ r l] by simp
  then have net: "servers_run ?E obj
      (map_bindings rpclib_only sample_keys (list_map_lib (<)) 0 RPCLIB ''m'' Map.empty)"
    using e f by (simp add: servers_run_def loopback_net_ok)
  obtain w' where pg: "map_Put ?E sample_keys (list_map_lib (<)) obj 4 10 (\<lambda>_. []) = (Inr True, w')"
    "map_Get ?E sample_keys (list_map_lib (<)) 0 obj 4 w' = (Inr (True, 10), w')"
    using configured_client_reads_its_writes [OF c n _ r l net rpclib_only_compiled
        list_map.map_container_axioms, of "\<lambda>_. []" 4 10] by auto
  show ?thesis
    by (intro exI conjI, rule c, rule n, rule pg(1), rule pg(2))
qed

section \<open>Servers with a single entry\<close>

text \<open>
  C39: on a server that holds exactly one entry the range queries of all three ordered classes
  take a shortcut that looks at the lower bound at most: the map answers an entry above the
  upper bound and drops one equal to the lower, the set answers a key above the upper bound,
  the multimap answers its entry for every key.
\<close>
theorem single_entry_range_queries:
  assumes "map_container L lt ok" "ok c" "elems L c = [e]" "\<And>a b. key_gt K a b \<longleftrightarrow> lt b a"
    and "set_container L' lt' ok'" "ok' c'" "elems L' c' = [e']" "\<And>a b. key_ge K' a b \<longleftrightarrow> \<not> lt' a b"
    and "multimap_container L'' lt'' ok''" "ok'' c''" "elems L'' c'' = [e'']"
  shows "map_LocalContainsInServer K L lo hi c = (if lt lo (fst e) then [e] else [], c) \<and>
         set_LocalContainsInServer K' L' lo' hi' c' = (if lt' e' lo' then [] else [e'], c') \<and>
         mmap_LocalContainsInServer K'' L'' k c'' = ([e''], c'')"
  using map_single_entry_ignores_upper_bound [OF assms(1-4), of lo hi]
    set_single_key_ignores_upper_bound [OF assms(5-8), of lo' hi']
    mmap_single_entry_always_found [OF assms(9-11), of K'' k] by blast

lemma single_entry_range_queries_witness:
  "map_LocalContainsInServer sample_keys (list_map_lib (<)) 1 3 [(5 :: nat, 50 :: nat)]
     = ([(5, 50)], [(5, 50)]) \<and>
   set_LocalContainsInServer sample_keys (list_set_lib (<)) 1 3 [5] = ([5], [5]) \<and>
   mmap_LocalContainsInServer sample_keys (list_map_lib (<)) 1 [(5, 50 :: nat)]
     = ([(5, 50)], [(5, 50)])"
  using single_entry_range_queries [OF list_map.map_container_axioms _ _ _
      list_set.set_container_axioms _ _ _ list_multimap.multimap_container_axioms,
      of "[(5 :: nat, 50 :: nat)]" "(5, 50)" sample_keys "[5 :: nat]" 5 sample_keys
        "[(5 :: nat, 50 :: nat)]" "(5, 50)" 1 3 1 3 sample_keys 1]
  by (simp add: ol_defs not_less)

end
